(* ===== verification/Prelude.thy ===== *)
theory Prelude
  imports Main "HOL-Library.Word" "HOL-Library.Multiset" "HOL-Library.Sublist"
begin

unbundle bit_operations_syntax

text \<open>
  Shared vocabulary of the development: the C integer types as words, NUL-terminated strings as
  \<open>string\<close> values without their terminator, checked array access, the growth policy of the
  program's dynamic arrays, \<open>qsort\<close>, the parts of \<open>printf\<close> and \<open>sscanf\<close> that the
  sources use, and the string functions of the C library they call.
  Everything the C library does here is what its documentation says; the order that \<open>qsort\<close>
  gives to elements its comparison calls equal is not specified by C, and the theorems of the
  development use only the two facts of the locale \<open>preorder_cmp\<close> (the result is a permutation,
  and it is sorted).
\<close>

section \<open>Types\<close>

type_synonym u8 = "8 word"
type_synonym u32 = "32 word"
type_synonym u64 = "64 word"

text \<open>
  A \<open>char *\<close> whose identity matters (the code compares the pointers) is the pair of an address
  and the text stored there.
\<close>

type_synonym cstr = "nat \<times> string"

abbreviation ptr_of :: "cstr \<Rightarrow> nat" where "ptr_of \<equiv> fst"
abbreviation text_of :: "cstr \<Rightarrow> string" where "text_of \<equiv> snd"

named_theorems c_lib \<open>the models of the C library's functions\<close>
named_theorems inv_rules \<open>an operation keeps its component's invariant\<close>

section \<open>Checked array access\<close>

text \<open>Reading an array outside of its bounds is \<open>None\<close>: undefined behaviour, never a value.\<close>

definition arr_get :: "'a list \<Rightarrow> int \<Rightarrow> 'a option" where
  "arr_get xs i = (if 0 \<le> i \<and> i < int (length xs) then Some (xs ! nat i) else None)"

lemma arr_get_in [simp]: "0 \<le> i \<Longrightarrow> i < int (length xs) \<Longrightarrow> arr_get xs i = Some (xs ! nat i)"
  by (simp add: arr_get_def)

lemma arr_get_None_iff: "arr_get xs i = None \<longleftrightarrow> i < 0 \<or> int (length xs) \<le> i"
  by (auto simp: arr_get_def)

section \<open>Dynamic arrays\<close>

text \<open>
  Every growing array of the program (symbols, sections, profile entries, call tree children,
  stacks, frames, edges) has the same policy: when \<open>count >= capacity\<close>, \<open>realloc\<close> to the
  initial capacity or to twice the present one. \<open>vec_reserve init ok count cap\<close> is the capacity
  after that step, \<open>None\<close> when \<open>realloc\<close> fails (\<open>ok\<close> is its success).
\<close>

definition vec_reserve :: "nat \<Rightarrow> bool \<Rightarrow> nat \<Rightarrow> nat \<Rightarrow> nat option" where
  "vec_reserve init ok cnt cap =
     (if cnt \<ge> cap then (if ok then Some (if cap = 0 then init else cap * 2) else None)
      else Some cap)"

lemma vec_reserve_room:
  "0 < init \<Longrightarrow> cnt \<le> cap \<Longrightarrow> vec_reserve init ok cnt cap = Some cap' \<Longrightarrow> cnt < cap'"
  by (auto simp: vec_reserve_def split: if_splits)

lemma vec_reserve_ok [simp]: "vec_reserve init True cnt cap \<noteq> None"
  by (simp add: vec_reserve_def)

lemma vec_reserve_mono: "vec_reserve init ok cnt cap = Some cap' \<Longrightarrow> cap \<le> cap'"
  by (auto simp: vec_reserve_def split: if_splits)

text \<open>
  The contract the arrays share: an accepted element is appended when the allocator succeeds, a
  failed allocation and a rejected element leave the array as it was, and the elements never
  outgrow the capacity. The client's fact is about filling an array in a loop.
\<close>

locale append_vec =
  fixes items :: "'s \<Rightarrow> 'a list"
    and cap :: "'s \<Rightarrow> nat"
    and push :: "bool \<Rightarrow> 's \<Rightarrow> 'b \<Rightarrow> 's"
    and accept :: "'b \<Rightarrow> bool"
    and cell :: "'s \<Rightarrow> 'b \<Rightarrow> 'a"
  assumes push_accept: "accept x \<Longrightarrow> items (push True s x) = items s @ [cell s x]"
    and push_reject: "\<not> accept x \<Longrightarrow> push ok s x = s"
    and push_either: "items (push ok s x) = items s \<or> items (push ok s x) = items s @ [cell s x]"
    and push_cap: "length (items s) \<le> cap s \<Longrightarrow> length (items (push ok s x)) \<le> cap (push ok s x)"
begin

lemma fill_cap:
  "length (items s) \<le> cap s \<Longrightarrow>
   length (items (foldl (\<lambda>s (ok, x). push ok s x) s oxs)) \<le>
   cap (foldl (\<lambda>s (ok, x). push ok s x) s oxs)"
proof (induction oxs arbitrary: s)
  case (Cons p oxs)
  then show ?case using push_cap by (cases p) simp
qed simp

lemma fill_length:
  "length (items (foldl (push True) s xs)) = length (items s) + length (filter accept xs)"
proof (induction xs arbitrary: s)
  case (Cons x xs)
  then show ?case by (cases "accept x") (simp_all add: push_accept push_reject)
qed simp

lemma fill_prefix: "prefix (items s) (items (foldl (push ok) s xs))"
proof (induction xs arbitrary: s)
  case (Cons x xs)
  have "prefix (items s) (items (push ok s x))" using push_either [of ok s x] by auto
  then show ?case using Cons.IH [of "push ok s x"] by (auto intro: prefix_order.trans)
qed simp

end

section \<open>qsort\<close>

fun insert_by :: "('a \<Rightarrow> 'a \<Rightarrow> int) \<Rightarrow> 'a \<Rightarrow> 'a list \<Rightarrow> 'a list" where
  "insert_by cmp x [] = [x]"
| "insert_by cmp x (y # ys) = (if cmp x y \<le> 0 then x # y # ys else y # insert_by cmp x ys)"

definition qsort :: "('a \<Rightarrow> 'a \<Rightarrow> int) \<Rightarrow> 'a list \<Rightarrow> 'a list" where
  "qsort cmp xs = foldr (insert_by cmp) xs []"

lemma mset_insert_by [simp]: "mset (insert_by cmp x ys) = add_mset x (mset ys)"
  by (induction ys) auto

lemma mset_qsort [simp]: "mset (qsort cmp xs) = mset xs"
  by (induction xs) (simp_all add: qsort_def)

lemma set_qsort [simp]: "set (qsort cmp xs) = set xs"
  by (metis mset_qsort set_mset_mset)

lemma length_qsort [simp]: "length (qsort cmp xs) = length xs"
  by (metis mset_qsort size_mset)

lemma set_insert_by [simp]: "set (insert_by cmp x ys) = insert x (set ys)"
  by (induction ys) auto

locale preorder_cmp =
  fixes cmp :: "'a \<Rightarrow> 'a \<Rightarrow> int"
  assumes cmp_total: "cmp x y \<le> 0 \<or> cmp y x \<le> 0"
    and cmp_trans: "cmp x y \<le> 0 \<Longrightarrow> cmp y z \<le> 0 \<Longrightarrow> cmp x z \<le> 0"
begin

lemma sorted_insert_by:
  "sorted_wrt (\<lambda>a b. cmp a b \<le> 0) ys \<Longrightarrow> sorted_wrt (\<lambda>a b. cmp a b \<le> 0) (insert_by cmp x ys)"
proof (induction ys)
  case (Cons y ys)
  show ?case
  proof (cases "cmp x y \<le> 0")
    case True
    with Cons.prems show ?thesis by (auto intro: cmp_trans)
  next
    case False
    then have "cmp y x \<le> 0" using cmp_total by blast
    with False Cons show ?thesis by auto
  qed
qed simp

lemma sorted_qsort: "sorted_wrt (\<lambda>a b. cmp a b \<le> 0) (qsort cmp xs)"
  by (induction xs) (simp_all add: qsort_def sorted_insert_by)

end

section \<open>Strings\<close>

text \<open>\<open>strlcpy(dst, s, n)\<close>: what the buffer holds afterwards; the call returns \<open>strlen(s)\<close>.\<close>

definition strlcpy :: "nat \<Rightarrow> string \<Rightarrow> string" where
  "strlcpy n s = take (n - 1) s"

lemma length_strlcpy [simp]: "length (strlcpy n s) = min (length s) (n - 1)"
  by (simp add: strlcpy_def)

lemma strlcpy_fits [simp]: "length s < n \<Longrightarrow> strlcpy n s = s"
  by (simp add: strlcpy_def)

text \<open>\<open>strrchr(s, c)\<close>, as the text that follows the last occurrence of \<open>c\<close>.\<close>

fun strrchr_rest :: "char \<Rightarrow> string \<Rightarrow> string option" where
  "strrchr_rest c [] = None"
| "strrchr_rest c (x # xs) =
     (case strrchr_rest c xs of
        Some r \<Rightarrow> Some r
      | None \<Rightarrow> if x = c then Some xs else None)"

lemma strrchr_rest_None: "strrchr_rest c s = None \<longleftrightarrow> c \<notin> set s"
  by (induction s) (auto split: option.splits)

lemma strrchr_rest_Some: "strrchr_rest c s = Some r \<longleftrightarrow> c \<notin> set r \<and> (\<exists>p. s = p @ c # r)"
proof (induction s)
  case (Cons x xs)
  show ?case
  proof (cases "c \<in> set xs")
    case True
    then obtain r' where r': "strrchr_rest c xs = Some r'"
      using strrchr_rest_None by (cases "strrchr_rest c xs") auto
    have "(\<exists>p. x # xs = p @ c # r) \<longleftrightarrow> (\<exists>p. xs = p @ c # r)" if "c \<notin> set r"
      using True that by (metis append_Cons append_Nil list.sel(3) tl_append2)
    with r' Cons.IH show ?thesis by (metis option.simps(5) strrchr_rest.simps(2))
  next
    case False
    then have "strrchr_rest c xs = None" by (simp add: strrchr_rest_None)
    with False show ?thesis
      by (auto simp: Cons_eq_append_conv)
  qed
qed simp

text \<open>\<open>basename(3)\<close>.\<close>

definition c_basename :: "string \<Rightarrow> string" where
  "c_basename s =
     (if s = [] then ''.''
      else let t = rev (dropWhile (\<lambda>c. c = CHR ''/'') (rev s))
           in if t = [] then ''/''
              else (case strrchr_rest (CHR ''/'') t of Some r \<Rightarrow> r | None \<Rightarrow> t))"

text \<open>The tokens a \<open>strtok_r\<close> loop over one separator yields: maximal runs without it.\<close>

fun strtok_acc :: "char \<Rightarrow> string \<Rightarrow> string \<Rightarrow> string list" where
  "strtok_acc d acc [] = (if acc = [] then [] else [acc])"
| "strtok_acc d acc (c # cs) =
     (if c = d then (if acc = [] then strtok_acc d [] cs else acc # strtok_acc d [] cs)
      else strtok_acc d (acc @ [c]) cs)"

definition strtok_all :: "char \<Rightarrow> string \<Rightarrow> string list" where
  "strtok_all d s = strtok_acc d [] s"

lemma strtok_acc_token: "t \<in> set (strtok_acc d acc s) \<Longrightarrow> d \<notin> set acc \<Longrightarrow> t \<noteq> [] \<and> d \<notin> set t"
  by (induction d acc s rule: strtok_acc.induct) (auto split: if_splits)

lemma strtok_all_token: "t \<in> set (strtok_all d s) \<Longrightarrow> t \<noteq> [] \<and> d \<notin> set t"
  using strtok_acc_token [of t d "[]" s] by (simp add: strtok_all_def)

lemma strtok_acc_append:
  "d \<notin> set t \<Longrightarrow> strtok_acc d acc (t @ s) = strtok_acc d (acc @ t) s"
  by (induction t arbitrary: acc) auto

end
