(* ===== verification/CStdio.thy ===== *)
theory CStdio
  imports Prelude
begin

text \<open>
  The conversions of \<open>printf\<close> and \<open>sscanf\<close> that the sources use: \<open>%d\<close>, \<open>%u\<close>, \<open>%lu\<close>,
  \<open>%lx\<close>, zero padding, left-justified fields, bounded \<open>snprintf\<close>; and on the input side literal
  text, \<open>%lx\<close>, \<open>%d\<close>, \<open>%u\<close> and the scan set \<open>%N[^"]\<close>. The lemmas give the lengths of
  printed numbers and show that scanning what was printed gives the number back.
\<close>

section \<open>Printing numbers\<close>

definition digit_char :: "nat \<Rightarrow> char" where
  "digit_char d = (if d < 10 then char_of (48 + d) else char_of (87 + d))"

function radix :: "nat \<Rightarrow> nat \<Rightarrow> string" where
  "radix b n = (if n < b \<or> b < 2 then [digit_char n] else radix b (n div b) @ [digit_char (n mod b)])"
  by pat_completeness auto
termination
  by (relation "measure (\<lambda>(b, n). n)") (auto intro: div_less_dividend)

declare radix.simps [simp del]

lemma radix_small: "n < b \<Longrightarrow> radix b n = [digit_char n]"
  by (simp add: radix.simps)

lemma radix_step: "b \<le> n \<Longrightarrow> 2 \<le> b \<Longrightarrow> radix b n = radix b (n div b) @ [digit_char (n mod b)]"
  by (simp add: radix.simps [of b n])

definition fmt_u :: "nat \<Rightarrow> string" where
  "fmt_u n = radix 10 n"

definition fmt_d :: "int \<Rightarrow> string" where
  "fmt_d i = (if i < 0 then CHR ''-'' # radix 10 (nat (- i)) else radix 10 (nat i))"

definition fmt_lu :: "u64 \<Rightarrow> string" where
  "fmt_lu w = radix 10 (unat w)"

definition fmt_lx :: "u64 \<Rightarrow> string" where
  "fmt_lx w = radix 16 (unat w)"

text \<open>\<open>%0Nx\<close> and \<open>%0Nd\<close>: zero padding to a width (after the sign for a negative number).\<close>

definition zpad :: "nat \<Rightarrow> string \<Rightarrow> string" where
  "zpad n s = replicate (n - length s) (CHR ''0'') @ s"

definition fmt_0d :: "nat \<Rightarrow> int \<Rightarrow> string" where
  "fmt_0d n i = (if i < 0 then CHR ''-'' # zpad (n - 1) (radix 10 (nat (- i)))
                 else zpad n (radix 10 (nat i)))"

text \<open>\<open>%-Ns\<close>: left-justified in a field of at least \<open>N\<close> characters; \<open>%*s\<close> of the empty string.\<close>

definition ljust :: "nat \<Rightarrow> string \<Rightarrow> string" where
  "ljust n s = s @ replicate (n - length s) (CHR '' '')"

definition spaces :: "nat \<Rightarrow> string" where
  "spaces n = replicate n (CHR '' '')"

abbreviation nl :: string where "nl \<equiv> [CHR 0x0A]"

text \<open>
  \<open>snprintf(buf + off, n - off, ...)\<close>, where the text to print is \<open>s\<close>: the characters that land
  in a buffer of \<open>n\<close> bytes holding \<open>buf\<close> so far (one byte is kept for the NUL). The call's
  return value is \<open>length s\<close>, whether or not it fits.
\<close>

definition snprintf_at :: "nat \<Rightarrow> string \<Rightarrow> string \<Rightarrow> string" where
  "snprintf_at n buf s = buf @ take (n - length buf - 1) s"

lemma snprintf_at_fits: "length buf + length s < n \<Longrightarrow> snprintf_at n buf s = buf @ s"
  by (simp add: snprintf_at_def)

lemma radix_length:
  "2 \<le> b \<Longrightarrow> n < b ^ k \<Longrightarrow> 0 < k \<Longrightarrow> length (radix b n) \<le> k"
proof (induction b n arbitrary: k rule: radix.induct)
  case (1 b n)
  show ?case
  proof (cases "n < b")
    case True
    with "1.prems"(3) show ?thesis by (simp add: radix_small)
  next
    case False
    have "k \<noteq> 1" using False "1.prems"(2) by auto
    with "1.prems"(3) have k: "1 < k" by linarith
    then have "b ^ k = b ^ (k - 1) * b"
      using power_Suc2 [of b "k - 1"] by simp
    then have "n div b < b ^ (k - 1)"
      using "1.prems"(2) by (intro less_mult_imp_div_less) simp
    moreover have "\<not> (n < b \<or> b < 2)" using False "1.prems"(1) by simp
    ultimately have "length (radix b (n div b)) \<le> k - 1"
      using "1.IH" [of "k - 1"] "1.prems"(1) k by simp
    then show ?thesis using False "1.prems"(1) k by (simp add: radix_step)
  qed
qed

lemma radix_nonempty [simp]: "radix b n \<noteq> []"
  by (subst radix.simps) simp

lemma u64_less: "unat (w :: u64) < 18446744073709551616"
  using unsigned_less [of w, where 'a = nat] by simp

lemma fmt_lx_length: "length (fmt_lx w) \<le> 16"
proof -
  have "unat w < 16 ^ 16" using u64_less [of w] by simp
  then show ?thesis unfolding fmt_lx_def by (intro radix_length) auto
qed

lemma fmt_lu_length: "length (fmt_lu w) \<le> 20"
proof -
  have "unat w < 10 ^ 20" using u64_less [of w] by simp
  then show ?thesis unfolding fmt_lu_def by (intro radix_length) auto
qed

lemma fmt_d_length:
  assumes "- (2 ^ 31) \<le> i" "i < 2 ^ 31"
  shows "length (fmt_d i) \<le> 11"
proof -
  have "length (radix 10 (nat i)) \<le> 10" if "0 \<le> i" using that assms by (intro radix_length) auto
  moreover have "length (radix 10 (nat (- i))) \<le> 10" if "i < 0"
    using that assms by (intro radix_length) auto
  ultimately show ?thesis by (auto simp: fmt_d_def)
qed

lemma fmt_0d_length:
  assumes "- (2 ^ 31) \<le> i" "i < 2 ^ 31" "n \<le> 11"
  shows "length (fmt_0d n i) \<le> 11"
proof -
  have "length (radix 10 (nat i)) \<le> 10" if "0 \<le> i" using that assms by (intro radix_length) auto
  moreover have "length (radix 10 (nat (- i))) \<le> 10" if "i < 0"
    using that assms by (intro radix_length) auto
  ultimately show ?thesis using assms by (auto simp: fmt_0d_def zpad_def)
qed

section \<open>Reading numbers\<close>

definition digit_val :: "char \<Rightarrow> nat option" where
  "digit_val c =
     (let n = of_char c :: nat
      in if 48 \<le> n \<and> n \<le> 57 then Some (n - 48)
         else if 97 \<le> n \<and> n \<le> 102 then Some (n - 87)
         else if 65 \<le> n \<and> n \<le> 70 then Some (n - 55)
         else None)"

definition is_digit :: "nat \<Rightarrow> char \<Rightarrow> bool" where
  "is_digit b c = (case digit_val c of Some d \<Rightarrow> d < b | None \<Rightarrow> False)"

definition digits_val :: "nat \<Rightarrow> string \<Rightarrow> nat" where
  "digits_val b s = foldl (\<lambda>a c. a * b + the (digit_val c)) 0 s"

lemma digit_val_char: "d < 16 \<Longrightarrow> digit_val (digit_char d) = Some d"
  by (simp add: digit_val_def digit_char_def Let_def)

lemma is_digit_char: "d < b \<Longrightarrow> b \<le> 16 \<Longrightarrow> is_digit b (digit_char d)"
  by (simp add: is_digit_def digit_val_char)

lemma radix_digits: "2 \<le> b \<Longrightarrow> b \<le> 16 \<Longrightarrow> \<forall>c \<in> set (radix b n). is_digit b c"
proof (induction b n rule: radix.induct)
  case (1 b n)
  then show ?case
    by (cases "n < b") (auto simp: radix_small radix_step is_digit_char)
qed

lemma digits_val_snoc: "digits_val b (s @ [c]) = digits_val b s * b + the (digit_val c)"
  by (simp add: digits_val_def)

lemma digits_val_radix: "2 \<le> b \<Longrightarrow> b \<le> 16 \<Longrightarrow> digits_val b (radix b n) = n"
proof (induction b n rule: radix.induct)
  case (1 b n)
  show ?case
  proof (cases "n < b")
    case True
    with 1 show ?thesis by (simp add: radix_small digits_val_def digit_val_char)
  next
    case False
    with 1 have "n mod b < 16" by (meson less_le_trans mod_less_divisor not_less zero_less_numeral)
    with False 1 show ?thesis
      by (simp add: radix_step digits_val_snoc digit_val_char)
  qed
qed

definition c_isspace :: "char \<Rightarrow> bool" where
  "c_isspace c = (let n = of_char c :: nat in n = 32 \<or> (9 \<le> n \<and> n \<le> 13))"

text \<open>Literal text of a \<open>sscanf\<close> format (the formats of the sources hold no white space).\<close>

fun scan_lit :: "string \<Rightarrow> string \<Rightarrow> string option" where
  "scan_lit [] s = Some s"
| "scan_lit (x # xs) [] = None"
| "scan_lit (x # xs) (y # ys) = (if x = y then scan_lit xs ys else None)"

text \<open>\<open>%N[^"]\<close>: one to \<open>N\<close> characters other than the given one.\<close>

definition scan_until :: "nat \<Rightarrow> char \<Rightarrow> string \<Rightarrow> (string \<times> string) option" where
  "scan_until n d s =
     (let t = take n (takeWhile (\<lambda>c. c \<noteq> d) s)
      in if t = [] then None else Some (t, drop (length t) s))"

text \<open>
  An optionally signed number in a base, the common part of \<open>%d\<close>, \<open>%u\<close> and \<open>%lx\<close>: leading
  white space, a sign, for base 16 an optional \<open>0x\<close> that a digit must follow, then digits.
  The result is the sign, the magnitude and the rest of the input.
\<close>

definition scan_sign :: "string \<Rightarrow> bool \<times> string" where
  "scan_sign s =
     (case s of
        [] \<Rightarrow> (False, s)
      | c # cs \<Rightarrow> if c = CHR ''-'' then (True, cs)
                  else if c = CHR ''+'' then (False, cs) else (False, s))"

definition skip_0x :: "string \<Rightarrow> string" where
  "skip_0x s =
     (case s of
        z # x # d # r \<Rightarrow>
          if z = CHR ''0'' \<and> (x = CHR ''x'' \<or> x = CHR ''X'') \<and> is_digit 16 d then d # r else s
      | _ \<Rightarrow> s)"

definition scan_num :: "nat \<Rightarrow> string \<Rightarrow> (bool \<times> nat \<times> string) option" where
  "scan_num b s =
     (let (neg, s1) = scan_sign (dropWhile c_isspace s);
          s2 = (if b = 16 then skip_0x s1 else s1);
          ds = takeWhile (is_digit b) s2
      in if ds = [] then None else Some (neg, digits_val b ds, drop (length ds) s2))"

text \<open>\<open>%lx\<close> stores an \<open>unsigned long\<close>: \<open>strtoul\<close> saturates, and negates modulo \<open>2 ^ 64\<close>.\<close>

definition scan_lx :: "string \<Rightarrow> (u64 \<times> string) option" where
  "scan_lx s =
     (case scan_num 16 s of
        None \<Rightarrow> None
      | Some (neg, n, r) \<Rightarrow>
          if n \<ge> 2 ^ 64 then Some (- 1, r)
          else Some (if neg then - of_nat n else of_nat n, r))"

text \<open>\<open>%d\<close>: a saturating 64-bit conversion whose low 32 bits are stored.\<close>

definition to_int32 :: "int \<Rightarrow> int" where
  "to_int32 i = signed_take_bit 31 i"

definition clamp64 :: "int \<Rightarrow> int" where
  "clamp64 i = max (- (2 ^ 63)) (min (2 ^ 63 - 1) i)"

definition scan_d :: "string \<Rightarrow> (int \<times> string) option" where
  "scan_d s =
     (case scan_num 10 s of
        None \<Rightarrow> None
      | Some (neg, n, r) \<Rightarrow> Some (to_int32 (clamp64 (if neg then - int n else int n)), r))"

definition scan_u :: "string \<Rightarrow> (u32 \<times> string) option" where
  "scan_u s =
     (case scan_num 10 s of
        None \<Rightarrow> None
      | Some (neg, n, r) \<Rightarrow>
          if n \<ge> 2 ^ 64 then Some (- 1, r)
          else Some (if neg then - of_nat n else of_nat n, r))"

text \<open>\<open>atoi\<close>, that is \<open>(int)strtol(s, NULL, 10)\<close>: 0 when there is no number.\<close>

definition c_atoi :: "string \<Rightarrow> int" where
  "c_atoi s = (case scan_d s of Some (i, _) \<Rightarrow> i | None \<Rightarrow> 0)"

section \<open>Scanning what was printed\<close>

lemma scan_lit_self [simp]: "scan_lit p (p @ s) = Some s"
  by (induction p) auto

lemma scan_lit_Some: "scan_lit p s = Some r \<longleftrightarrow> s = p @ r"
  by (induction p s rule: scan_lit.induct) auto

lemma scan_until_clean:
  assumes "d \<notin> set t" "t \<noteq> []" "length t \<le> n"
  shows "scan_until n d (t @ d # s) = Some (t, d # s)"
proof -
  have "takeWhile (\<lambda>c. c \<noteq> d) (t @ d # s) = t"
    using assms(1) by (induction t) auto
  with assms show ?thesis by (simp add: scan_until_def)
qed

lemma digit_val_bounds: "is_digit b c \<Longrightarrow> b \<le> 16 \<Longrightarrow> 48 \<le> (of_char c :: nat) \<and> (of_char c :: nat) \<le> 102"
  by (auto simp: is_digit_def digit_val_def Let_def split: if_splits)

lemma digit_not_space: "is_digit b c \<Longrightarrow> b \<le> 16 \<Longrightarrow> \<not> c_isspace c"
  by (auto simp: is_digit_def digit_val_def Let_def c_isspace_def split: if_splits)

lemma digit_not_sign: "is_digit b c \<Longrightarrow> c \<noteq> CHR ''-'' \<and> c \<noteq> CHR ''+''"
  by (auto simp: is_digit_def digit_val_def Let_def split: if_splits)

lemma digit_not_x: "is_digit 16 c \<Longrightarrow> c \<noteq> CHR ''x'' \<and> c \<noteq> CHR ''X''"
  by (auto simp: is_digit_def digit_val_def Let_def split: if_splits)

lemma takeWhile_digits:
  assumes "\<forall>c \<in> set t. P c" "s = [] \<or> \<not> P (hd s)"
  shows "takeWhile P (t @ s) = t"
  using assms by (cases s) (auto simp: takeWhile_append takeWhile_eq_Nil_iff)

lemma skip_0x_digits:
  assumes "\<forall>c \<in> set t. is_digit 16 c" "t \<noteq> []" "s = [] \<or> (hd s \<noteq> CHR ''x'' \<and> hd s \<noteq> CHR ''X'')"
  shows "skip_0x (t @ s) = t @ s"
proof (cases t)
  case (Cons a t')
  have "x \<noteq> CHR ''x'' \<and> x \<noteq> CHR ''X''" if "t' @ s = x # r" for x r
    using that assms Cons digit_not_x by (cases t') auto
  then show ?thesis
    using Cons by (auto simp: skip_0x_def split: list.splits)
qed (use assms in simp)

lemma scan_num_radix:
  assumes b: "b = 10 \<or> b = 16"
    and s: "s = [] \<or> (\<not> is_digit b (hd s) \<and> hd s \<noteq> CHR ''x'' \<and> hd s \<noteq> CHR ''X'')"
  shows "scan_num b (radix b n @ s) = Some (False, n, s)"
proof -
  let ?t = "radix b n"
  have digs: "\<forall>c \<in> set ?t. is_digit b c" using b radix_digits [of b n] by auto
  obtain a t' where t: "?t = a # t'" by (metis radix_nonempty neq_Nil_conv)
  then have a: "is_digit b a" using digs by simp
  have b16: "b \<le> 16" using b by auto
  have sp: "dropWhile c_isspace (?t @ s) = ?t @ s"
    using digit_not_space [OF a b16] by (simp add: t)
  have sg: "scan_sign (?t @ s) = (False, ?t @ s)"
    using digit_not_sign [OF a] by (simp add: t scan_sign_def)
  have x: "skip_0x (?t @ s) = ?t @ s" if "b = 16"
    using that digs s by (intro skip_0x_digits) auto
  have tw: "takeWhile (is_digit b) (?t @ s) = ?t"
    using digs s by (intro takeWhile_digits) auto
  have dv: "digits_val b ?t = n" using b digits_val_radix [of b n] by auto
  show ?thesis
    unfolding scan_num_def sp sg
    using x tw dv by auto
qed

lemma scan_lx_fmt [simp]:
  "\<not> is_digit 16 c \<Longrightarrow> c \<noteq> CHR ''x'' \<Longrightarrow> c \<noteq> CHR ''X'' \<Longrightarrow>
   scan_lx (fmt_lx w @ c # s) = Some (w, c # s)"
  using u64_less [of w] by (simp add: scan_lx_def fmt_lx_def scan_num_radix)

lemma to_int32_id: "- (2 ^ 31) \<le> i \<Longrightarrow> i < 2 ^ 31 \<Longrightarrow> to_int32 i = i"
  by (simp add: to_int32_def signed_take_bit_int_eq_self)

lemma scan_num_neg_radix:
  assumes "s = [] \<or> (\<not> is_digit 10 (hd s) \<and> hd s \<noteq> CHR ''x'' \<and> hd s \<noteq> CHR ''X'')"
  shows "scan_num 10 (CHR ''-'' # radix 10 n @ s) = Some (True, n, s)"
proof -
  have digs: "\<forall>c \<in> set (radix 10 n). is_digit 10 c" using radix_digits [of 10 n] by auto
  then have tw: "takeWhile (is_digit 10) (radix 10 n @ s) = radix 10 n"
    using assms by (intro takeWhile_digits) auto
  have dw: "dropWhile c_isspace (CHR ''-'' # radix 10 n @ s) = CHR ''-'' # radix 10 n @ s"
    by (simp add: c_isspace_def)
  show ?thesis
    unfolding scan_num_def dw
    by (simp add: scan_sign_def tw digits_val_radix)
qed

lemma scan_d_fmt:
  assumes "- (2 ^ 31) \<le> i" "i < 2 ^ 31"
    and "s = [] \<or> (\<not> is_digit 10 (hd s) \<and> hd s \<noteq> CHR ''x'' \<and> hd s \<noteq> CHR ''X'')"
  shows "scan_d (fmt_d i @ s) = Some (i, s)"
proof (cases "i < 0")
  case True
  have "scan_num 10 (fmt_d i @ s) = Some (True, nat (- i), s)"
    using True scan_num_neg_radix [OF assms(3)] by (simp add: fmt_d_def)
  with True assms show ?thesis by (simp add: scan_d_def clamp64_def to_int32_id)
next
  case False
  have "scan_num 10 (fmt_d i @ s) = Some (False, nat i, s)"
    using False scan_num_radix [of 10 s "nat i"] assms(3) by (simp add: fmt_d_def)
  with False assms show ?thesis by (simp add: scan_d_def clamp64_def to_int32_id)
qed

lemma scan_u_fmt:
  assumes "n < 2 ^ 32"
    and "s = [] \<or> (\<not> is_digit 10 (hd s) \<and> hd s \<noteq> CHR ''x'' \<and> hd s \<noteq> CHR ''X'')"
  shows "scan_u (fmt_u n @ s) = Some (of_nat n, s)"
  using assms scan_num_radix [of 10 s n] by (simp add: scan_u_def fmt_u_def)

end
