(* ===== verification/Bsdtrace_Types.thy ===== *)
theory Bsdtrace_Types
  imports CStdio
begin

text \<open>
  The shared types of \<open>bsdtrace.h\<close>: output formats, the flattened HWT record, the image
  section collected from EXEC and MMAP records, range filters, and the decoder's options.
  C \<open>int\<close> fields are \<open>int\<close>, addresses and sizes are \<open>64 word\<close>, and a fixed \<open>char\<close> array is
  the string it holds.
\<close>

datatype bsdtrace_fmt =
  FMT_TEXT | FMT_JSON | FMT_PROFILE | FMT_TREE | FMT_COLLAPSED | FMT_SPEEDSCOPE | FMT_CALLERS

text \<open>\<open>enum hwt_record_type\<close>; a value the program has no case for carries its number.\<close>

datatype hwt_record_type =
  HWT_RECORD_MMAP | HWT_RECORD_MUNMAP | HWT_RECORD_EXECUTABLE | HWT_RECORD_KERNEL
| HWT_RECORD_THREAD_CREATE | HWT_RECORD_THREAD_SET_NAME | HWT_RECORD_BUFFER
| HWT_RECORD_OVERFLOW | HWT_RECORD_OTHER int

definition MAXPATHLEN :: nat where "MAXPATHLEN = 1024"
definition PAGE_SIZE :: nat where "PAGE_SIZE = 4096"

record bsdtrace_record =
  r_type :: hwt_record_type
  r_fullpath :: string
  r_addr :: u64
  r_baseaddr :: u64
  r_buf_id :: int
  r_curpage :: int
  r_offset :: u64
  r_thread_id :: int

record pt_image_info =
  pi_path :: string
  pi_load_addr :: u64
  pi_base_addr :: u64
  pi_type :: hwt_record_type

datatype range_mode = PT_RANGE_FILTER | PT_RANGE_TRACESTOP

record ip_range =
  ipr_start :: u64
  ipr_end :: u64
  ipr_mode :: range_mode

text \<open>\<open>struct ip_filter\<close>: at most two ranges, each with its mode; \<open>nranges\<close> is the length.\<close>

type_synonym ip_filter = "ip_range list"

text \<open>\<open>struct pt_decode_opts\<close>; \<open>filter_funcs\<close> and \<open>nfilter_funcs\<close> are one list.\<close>

record pt_decode_opts =
  do_tid :: int
  do_mtc_freq :: u8
  do_cyc_thresh :: u8
  do_filter_funcs :: "string list"

text \<open>\<open>enum pt_insn_class\<close> of libipt, in its order: \<open>ptic_unknown\<close> is 0.\<close>

datatype pt_insn_class =
  ptic_unknown | ptic_other | ptic_call | ptic_return | ptic_jump | ptic_cond_jump
| ptic_far_call | ptic_far_return | ptic_far_jump | ptic_ptwrite | ptic_indirect

definition is_call_class :: "pt_insn_class \<Rightarrow> bool" where
  "is_call_class c \<longleftrightarrow> c = ptic_call \<or> c = ptic_far_call"

definition is_return_class :: "pt_insn_class \<Rightarrow> bool" where
  "is_return_class c \<longleftrightarrow> c = ptic_return \<or> c = ptic_far_return"

definition is_branch_class :: "pt_insn_class \<Rightarrow> bool" where
  "is_branch_class c \<longleftrightarrow> c = ptic_jump \<or> c = ptic_cond_jump"

lemma class_disjoint:
  "is_call_class c \<Longrightarrow> \<not> is_return_class c"
  "is_call_class c \<Longrightarrow> \<not> is_branch_class c"
  "is_return_class c \<Longrightarrow> \<not> is_branch_class c"
  by (auto simp: is_call_class_def is_return_class_def is_branch_class_def)

end
