(* ===== verification/Format.thy ===== *)
theory Format
  imports Bsdtrace_Types
begin

text \<open>
  \<open>format.c\<close>: JSON escaping into a bounded buffer and onto a stream, record names, and the text
  and JSON renderings of one HWT record. A call that prints is the text it prints; the wall clock
  is an argument. The lemmas show that escaping stays inside its buffer, never cuts an escape
  sequence, loses nothing but a suffix, and that a JSON record always fits its line buffer.
\<close>

section \<open>JSON escaping\<close>

abbreviation bslash :: char where "bslash \<equiv> CHR 0x5C"
abbreviation dquote :: char where "dquote \<equiv> CHR 0x22"

definition json_esc :: "char \<Rightarrow> string" where
  "json_esc c =
     (if c = dquote then [bslash, dquote]
      else if c = bslash then [bslash, bslash]
      else if c = CHR 0x08 then [bslash, CHR ''b'']
      else if c = CHR 0x0C then [bslash, CHR ''f'']
      else if c = CHR 0x0A then [bslash, CHR ''n'']
      else if c = CHR 0x0D then [bslash, CHR ''r'']
      else if c = CHR 0x09 then [bslash, CHR ''t'']
      else if (of_char c :: nat) < 32 then bslash # CHR ''u'' # zpad 4 (radix 16 (of_char c))
      else [c])"

definition json_string :: "string \<Rightarrow> string" where
  "json_string s = dquote # concat (map json_esc s) @ [dquote]"

fun json_escape_loop :: "nat \<Rightarrow> string \<Rightarrow> string \<Rightarrow> string" where
  "json_escape_loop dstlen out [] = out"
| "json_escape_loop dstlen out (c # cs) =
     (if length out + 7 < dstlen then json_escape_loop dstlen (out @ json_esc c) cs else out)"

definition json_escape :: "nat \<Rightarrow> string \<Rightarrow> string" where
  "json_escape dstlen src = json_escape_loop dstlen [] src"

section \<open>Record names and the two renderings\<close>

definition record_type_name :: "hwt_record_type \<Rightarrow> string" where
  "record_type_name t =
     (case t of
        HWT_RECORD_MMAP \<Rightarrow> ''mmap''
      | HWT_RECORD_MUNMAP \<Rightarrow> ''munmap''
      | HWT_RECORD_EXECUTABLE \<Rightarrow> ''executable''
      | HWT_RECORD_KERNEL \<Rightarrow> ''kernel''
      | HWT_RECORD_THREAD_CREATE \<Rightarrow> ''thread_create''
      | HWT_RECORD_THREAD_SET_NAME \<Rightarrow> ''thread_set_name''
      | HWT_RECORD_BUFFER \<Rightarrow> ''buffer''
      | HWT_RECORD_OVERFLOW \<Rightarrow> ''overflow''
      | HWT_RECORD_OTHER n \<Rightarrow> ''unknown'')"

text \<open>The fields of \<open>struct tm\<close> and \<open>tv_nsec\<close> that the renderers print.\<close>

record clock_time =
  tm_year :: int
  tm_mon :: int
  tm_mday :: int
  tm_hour :: int
  tm_min :: int
  tm_sec :: int
  tv_nsec :: nat

definition print_timestamp :: "clock_time \<Rightarrow> string" where
  "print_timestamp t =
     fmt_0d 2 (tm_hour t) @ '':'' @ fmt_0d 2 (tm_min t) @ '':'' @ fmt_0d 2 (tm_sec t) @ ''.'' @
     fmt_0d 6 (int (tv_nsec t div 1000))"

definition print_iso8601 :: "clock_time \<Rightarrow> string" where
  "print_iso8601 t =
     fmt_0d 4 (tm_year t + 1900) @ ''-'' @ fmt_0d 2 (tm_mon t + 1) @ ''-'' @ fmt_0d 2 (tm_mday t) @
     ''T'' @ fmt_0d 2 (tm_hour t) @ '':'' @ fmt_0d 2 (tm_min t) @ '':'' @ fmt_0d 2 (tm_sec t) @ ''Z''"

definition path_or :: "string \<Rightarrow> string \<Rightarrow> string" where
  "path_or p d = (if p \<noteq> [] then p else d)"

definition fmt_record_text :: "clock_time \<Rightarrow> bsdtrace_record \<Rightarrow> int \<Rightarrow> string" where
  "fmt_record_text t rec pid = print_timestamp t @
     (case r_type rec of
        HWT_RECORD_EXECUTABLE \<Rightarrow>
          ''  EXEC  pid='' @ fmt_d pid @ ''  '' @ path_or (r_fullpath rec) ''<unknown>'' @
          ''  addr=0x'' @ fmt_lx (r_addr rec) @ ''  base=0x'' @ fmt_lx (r_baseaddr rec) @ nl
      | HWT_RECORD_MMAP \<Rightarrow>
          ''  MMAP  pid='' @ fmt_d pid @ ''  '' @ path_or (r_fullpath rec) ''<anon>'' @
          ''  addr=0x'' @ fmt_lx (r_addr rec) @ ''  base=0x'' @ fmt_lx (r_baseaddr rec) @ nl
      | HWT_RECORD_MUNMAP \<Rightarrow>
          ''  MUNMAP  pid='' @ fmt_d pid @
          (if r_addr rec \<noteq> 0 then ''  addr=0x'' @ fmt_lx (r_addr rec) else []) @ nl
      | HWT_RECORD_KERNEL \<Rightarrow>
          ''  KERNEL  '' @ path_or (r_fullpath rec) ''<kernel>'' @
          ''  addr=0x'' @ fmt_lx (r_addr rec) @ ''  base=0x'' @ fmt_lx (r_baseaddr rec) @ nl
      | HWT_RECORD_THREAD_CREATE \<Rightarrow>
          ''  THREAD_CREATE  pid='' @ fmt_d pid @ ''  tid='' @ fmt_d (r_thread_id rec) @ nl
      | HWT_RECORD_THREAD_SET_NAME \<Rightarrow>
          ''  THREAD_NAME  pid='' @ fmt_d pid @ ''  tid='' @ fmt_d (r_thread_id rec) @ nl
      | HWT_RECORD_BUFFER \<Rightarrow>
          ''  BUFFER  buf_id='' @ fmt_d (r_buf_id rec) @ ''  page='' @ fmt_d (r_curpage rec) @
          ''  offset=0x'' @ fmt_lx (r_offset rec) @ nl
      | HWT_RECORD_OVERFLOW \<Rightarrow>
          ''  OVERFLOW  pid='' @ fmt_d pid @ ''  buf_id='' @ fmt_d (r_buf_id rec) @
          ''  page='' @ fmt_d (r_curpage rec) @ ''  offset=0x'' @ fmt_lx (r_offset rec) @ nl
      | HWT_RECORD_OTHER n \<Rightarrow> ''  UNKNOWN  type='' @ fmt_d n @ nl)"

text \<open>
  \<open>pos += snprintf(line + pos, sizeof(line) - pos, ...)\<close>: the pair of \<open>pos\<close> and what the line
  holds. Once \<open>pos\<close> is past the buffer the size argument wraps around and the call writes out
  of bounds, which is \<open>None\<close>.
\<close>

definition line_append :: "nat \<Rightarrow> (nat \<times> string) option \<Rightarrow> string \<Rightarrow> (nat \<times> string) option" where
  "line_append n st s =
     (case st of
        None \<Rightarrow> None
      | Some (pos, line) \<Rightarrow>
          if n < pos then None else Some (pos + length s, line @ take (n - pos - 1) s))"

definition json_header :: "clock_time \<Rightarrow> bsdtrace_record \<Rightarrow> int \<Rightarrow> string" where
  \<open>json_header t rec pid =
     ''{"timestamp":"'' @ print_iso8601 t @ ''","kind":"'' @ record_type_name (r_type rec) @
     ''","pid":'' @ fmt_d pid\<close>

definition json_addrs :: "bsdtrace_record \<Rightarrow> string" where
  \<open>json_addrs rec =
     '',"address":"0x'' @ fmt_lx (r_addr rec) @ ''","base_address":"0x'' @
     fmt_lx (r_baseaddr rec) @ ''"''\<close>

definition json_buffer :: "bsdtrace_record \<Rightarrow> string" where
  \<open>json_buffer rec =
     '',"buf_id":'' @ fmt_d (r_buf_id rec) @ '',"page":'' @ fmt_d (r_curpage rec) @
     '',"offset":'' @ fmt_lu (r_offset rec)\<close>

definition json_path :: "bsdtrace_record \<Rightarrow> string" where
  \<open>json_path rec = '',"path":"'' @ json_escape (MAXPATHLEN * 2) (r_fullpath rec) @ ''"''\<close>

definition json_address :: "bsdtrace_record \<Rightarrow> string" where
  \<open>json_address rec = '',"address":"0x'' @ fmt_lx (r_addr rec) @ ''"''\<close>

definition json_thread :: "bsdtrace_record \<Rightarrow> string" where
  \<open>json_thread rec = '',"thread_id":'' @ fmt_d (r_thread_id rec)\<close>

definition fmt_record_json :: "clock_time \<Rightarrow> bsdtrace_record \<Rightarrow> int \<Rightarrow> string option" where
  "fmt_record_json t rec pid =
     (let app = line_append 4096;
          st = app (Some (0, [])) (json_header t rec pid);
          st' = (case r_type rec of
                   HWT_RECORD_MMAP \<Rightarrow>
                     app (if r_fullpath rec \<noteq> [] then app st (json_path rec) else st) (json_addrs rec)
                 | HWT_RECORD_EXECUTABLE \<Rightarrow>
                     app (if r_fullpath rec \<noteq> [] then app st (json_path rec) else st) (json_addrs rec)
                 | HWT_RECORD_KERNEL \<Rightarrow>
                     app (if r_fullpath rec \<noteq> [] then app st (json_path rec) else st) (json_addrs rec)
                 | HWT_RECORD_MUNMAP \<Rightarrow> if r_addr rec \<noteq> 0 then app st (json_address rec) else st
                 | HWT_RECORD_THREAD_CREATE \<Rightarrow> app st (json_thread rec)
                 | HWT_RECORD_THREAD_SET_NAME \<Rightarrow> app st (json_thread rec)
                 | HWT_RECORD_BUFFER \<Rightarrow> app st (json_buffer rec)
                 | HWT_RECORD_OVERFLOW \<Rightarrow> app st (json_buffer rec)
                 | HWT_RECORD_OTHER n \<Rightarrow> st)
      in map_option snd (app st' (''}'' @ nl)))"

section \<open>Escaping is bounded and reversible\<close>

lemma zero_digit: "CHR ''0'' = digit_char 0"
  by code_simp

lemma zpad4_control:
  assumes "n < 32"
  shows "zpad 4 (radix 16 n) = [CHR ''0'', CHR ''0'', digit_char (n div 16), digit_char (n mod 16)]"
proof (cases "n < 16")
  case True
  then show ?thesis by (simp add: radix_small zpad_def zero_digit numeral_3_eq_3)
next
  case False
  then have "n div 16 < 16" using assms by simp
  with False show ?thesis by (simp add: radix_step radix_small zpad_def numeral_2_eq_2)
qed

lemma json_esc_length: "0 < length (json_esc c) \<and> length (json_esc c) \<le> 6"
  by (auto simp: json_esc_def zpad4_control)

lemma json_escape_loop_bound:
  "length out < dstlen \<Longrightarrow> length (json_escape_loop dstlen out s) < dstlen"
proof (induction dstlen out s rule: json_escape_loop.induct)
  case (2 dstlen out c cs)
  then show ?case using json_esc_length [of c] by auto
qed simp

lemma json_escape_loop_prefix:
  "\<exists>k \<le> length s. json_escape_loop dstlen out s = out @ concat (map json_esc (take k s))"
proof (induction dstlen out s rule: json_escape_loop.induct)
  case (2 dstlen out c cs)
  show ?case
  proof (cases "length out + 7 < dstlen")
    case True
    with 2 obtain k where "k \<le> length cs"
      "json_escape_loop dstlen (out @ json_esc c) cs =
       (out @ json_esc c) @ concat (map json_esc (take k cs))" by auto
    with True show ?thesis by (intro exI [of _ "Suc k"]) simp
  qed (auto intro: exI [of _ 0])
qed simp

lemma json_escape_loop_all:
  "length out + 6 * length s + 1 < dstlen \<Longrightarrow>
   json_escape_loop dstlen out s = out @ concat (map json_esc s)"
proof (induction dstlen out s rule: json_escape_loop.induct)
  case (2 dstlen out c cs)
  then show ?case using json_esc_length [of c] by auto
qed simp

text \<open>The inverse a JSON reader applies (RFC 8259): the string of bytes an escaped body denotes.\<close>

fun json_unescape :: "string \<Rightarrow> string option" where
  "json_unescape [] = Some []"
| "json_unescape (c # r) =
     (if c = bslash then
        (case r of
           [] \<Rightarrow> None
         | e # r' \<Rightarrow>
             if e = CHR ''u'' then
               (case r' of
                  h1 # h2 # h3 # h4 # r'' \<Rightarrow>
                    if (\<forall>h \<in> set [h1, h2, h3, h4]. is_digit 16 h) \<and> digits_val 16 [h1, h2, h3, h4] < 256
                    then map_option (Cons (char_of (digits_val 16 [h1, h2, h3, h4]))) (json_unescape r'')
                    else None
                | _ \<Rightarrow> None)
             else if e = dquote \<or> e = bslash then map_option (Cons e) (json_unescape r')
             else if e = CHR ''b'' then map_option (Cons (CHR 0x08)) (json_unescape r')
             else if e = CHR ''f'' then map_option (Cons (CHR 0x0C)) (json_unescape r')
             else if e = CHR ''n'' then map_option (Cons (CHR 0x0A)) (json_unescape r')
             else if e = CHR ''r'' then map_option (Cons (CHR 0x0D)) (json_unescape r')
             else if e = CHR ''t'' then map_option (Cons (CHR 0x09)) (json_unescape r')
             else None)
      else if c = dquote \<or> (of_char c :: nat) < 32 then None
      else map_option (Cons c) (json_unescape r))"

lemma json_unescape_u:
  assumes "\<forall>h \<in> set [h1, h2, h3, h4]. is_digit 16 h" "digits_val 16 [h1, h2, h3, h4] = n" "n < 256"
  shows "json_unescape (bslash # CHR ''u'' # h1 # h2 # h3 # h4 # r) =
         map_option (Cons (char_of n)) (json_unescape r)"
  using assms by simp

lemma json_unescape_short:
  "json_unescape (bslash # dquote # r) = map_option (Cons dquote) (json_unescape r)"
  "json_unescape (bslash # bslash # r) = map_option (Cons bslash) (json_unescape r)"
  "json_unescape (bslash # CHR ''b'' # r) = map_option (Cons (CHR 0x08)) (json_unescape r)"
  "json_unescape (bslash # CHR ''f'' # r) = map_option (Cons (CHR 0x0C)) (json_unescape r)"
  "json_unescape (bslash # CHR ''n'' # r) = map_option (Cons (CHR 0x0A)) (json_unescape r)"
  "json_unescape (bslash # CHR ''r'' # r) = map_option (Cons (CHR 0x0D)) (json_unescape r)"
  "json_unescape (bslash # CHR ''t'' # r) = map_option (Cons (CHR 0x09)) (json_unescape r)"
  by simp_all

lemma json_unescape_plain:
  "c \<noteq> bslash \<Longrightarrow> c \<noteq> dquote \<Longrightarrow> \<not> (of_char c :: nat) < 32 \<Longrightarrow>
   json_unescape (c # r) = map_option (Cons c) (json_unescape r)"
  by simp

declare json_unescape.simps(2) [simp del]

lemma json_unescape_control:
  assumes "(of_char c :: nat) < 32"
  shows "json_unescape ((bslash # CHR ''u'' # zpad 4 (radix 16 (of_char c))) @ s) =
         map_option (Cons c) (json_unescape s)"
proof -
  let ?n = "of_char c :: nat"
  have n: "?n div 16 < 16" "?n mod 16 < 16" using assms by auto
  have "digits_val 16 [digit_char 0, digit_char 0, digit_char (?n div 16), digit_char (?n mod 16)] = ?n"
    using n by (simp add: digits_val_def digit_val_char)
  moreover have "\<forall>h \<in> set [digit_char 0, digit_char 0, digit_char (?n div 16), digit_char (?n mod 16)].
      is_digit 16 h"
    using n is_digit_char [of _ 16] by simp
  ultimately have "json_unescape (bslash # CHR ''u'' # digit_char 0 # digit_char 0 #
      digit_char (?n div 16) # digit_char (?n mod 16) # s) = map_option (Cons (char_of ?n)) (json_unescape s)"
    using assms by (intro json_unescape_u) auto
  then show ?thesis
    using assms by (simp only: zpad4_control [OF assms] zero_digit append_Cons append_Nil char_of_char)
qed

lemma control_not_quote: "(of_char c :: nat) < 32 \<Longrightarrow> c \<noteq> bslash \<and> c \<noteq> dquote"
  by (intro conjI notI) simp_all

lemma json_esc_control:
  "(of_char c :: nat) < 32 \<Longrightarrow> c \<noteq> CHR 0x08 \<Longrightarrow> c \<noteq> CHR 0x0C \<Longrightarrow> c \<noteq> CHR 0x0A \<Longrightarrow>
   c \<noteq> CHR 0x0D \<Longrightarrow> c \<noteq> CHR 0x09 \<Longrightarrow>
   json_esc c = bslash # CHR ''u'' # zpad 4 (radix 16 (of_char c))"
  using control_not_quote [of c] by (simp add: json_esc_def)

lemma json_unescape_esc: "json_unescape (json_esc c @ s) = map_option (Cons c) (json_unescape s)"
proof -
  consider "c = dquote" | "c = bslash" | "c = CHR 0x08" | "c = CHR 0x0C" | "c = CHR 0x0A"
    | "c = CHR 0x0D" | "c = CHR 0x09"
    | "(of_char c :: nat) < 32" "c \<noteq> CHR 0x08" "c \<noteq> CHR 0x0C" "c \<noteq> CHR 0x0A" "c \<noteq> CHR 0x0D" "c \<noteq> CHR 0x09"
    | "c \<noteq> dquote" "c \<noteq> bslash" "\<not> (of_char c :: nat) < 32"
    by blast
  then show ?thesis
  proof cases
    case 8
    then show ?thesis using json_unescape_control [OF 8(1), of s] by (simp only: json_esc_control [OF 8])
  next
    case 9
    then have "json_esc c = [c]" unfolding json_esc_def by (simp split: if_split) auto
    with 9 show ?thesis by (simp add: json_unescape_plain)
  qed (simp_all add: json_esc_def json_unescape_short)
qed

lemma json_unescape_concat: "json_unescape (concat (map json_esc s)) = Some s"
  by (induction s) (simp_all add: json_unescape_esc)

text \<open>
  C28. \<open>json_escape\<close> never writes past its buffer (the string and its NUL need at most
  \<open>dstlen\<close> bytes), and what it wrote, read back as JSON, is a prefix of the source: truncation
  happens only between characters. With room for six bytes a character it is the whole source.
\<close>

theorem json_escape_correct:
  assumes "0 < dstlen"
  shows "length (json_escape dstlen s) + 1 \<le> dstlen \<and>
         (\<exists>k \<le> length s. json_unescape (json_escape dstlen s) = Some (take k s)) \<and>
         (6 * length s + 1 < dstlen \<longrightarrow> json_unescape (json_escape dstlen s) = Some s)"
proof -
  have "length (json_escape dstlen s) < dstlen"
    using json_escape_loop_bound [of "[]" dstlen s] assms by (simp add: json_escape_def)
  moreover obtain k where "k \<le> length s" "json_escape dstlen s = concat (map json_esc (take k s))"
    using json_escape_loop_prefix [of s dstlen "[]"] by (auto simp: json_escape_def)
  moreover have "json_escape dstlen s = concat (map json_esc s)" if "6 * length s + 1 < dstlen"
    using that json_escape_loop_all [of "[]" s dstlen] by (simp add: json_escape_def)
  ultimately show ?thesis by (auto simp: json_unescape_concat)
qed

theorem json_escape_correct_witness:
  "length (json_escape 16 ''a/b'') + 1 \<le> 16 \<and>
   (\<exists>k \<le> length ''a/b''. json_unescape (json_escape 16 ''a/b'') = Some (take k ''a/b''))"
  using json_escape_correct [of 16 "''a/b''"] by auto

section \<open>A JSON record fits its line\<close>

definition int32 :: "int \<Rightarrow> bool" where
  "int32 i \<longleftrightarrow> - (2 ^ 31) \<le> i \<and> i < 2 ^ 31"

definition clock_ok :: "clock_time \<Rightarrow> bool" where
  "clock_ok t \<longleftrightarrow> int32 (tm_year t + 1900) \<and> int32 (tm_mon t + 1) \<and> int32 (tm_mday t) \<and>
     int32 (tm_hour t) \<and> int32 (tm_min t) \<and> int32 (tm_sec t)"

definition record_ok :: "bsdtrace_record \<Rightarrow> bool" where
  "record_ok rec \<longleftrightarrow> length (r_fullpath rec) < MAXPATHLEN \<and> int32 (r_buf_id rec) \<and>
     int32 (r_curpage rec) \<and> int32 (r_thread_id rec)"

text \<open>The line without any buffer: what the record should print.\<close>

definition json_body :: "bsdtrace_record \<Rightarrow> string" where
  "json_body rec =
     (if r_type rec \<in> {HWT_RECORD_MMAP, HWT_RECORD_EXECUTABLE, HWT_RECORD_KERNEL}
      then (if r_fullpath rec \<noteq> [] then json_path rec else []) @ json_addrs rec
      else if r_type rec = HWT_RECORD_MUNMAP
      then (if r_addr rec \<noteq> 0 then json_address rec else [])
      else if r_type rec \<in> {HWT_RECORD_THREAD_CREATE, HWT_RECORD_THREAD_SET_NAME}
      then json_thread rec
      else if r_type rec \<in> {HWT_RECORD_BUFFER, HWT_RECORD_OVERFLOW} then json_buffer rec
      else [])"

lemma line_append_fits:
  "pos = length line \<Longrightarrow> pos + length s < n \<Longrightarrow>
   line_append n (Some (pos, line)) s = Some (pos + length s, line @ s)"
  by (simp add: line_append_def)

lemma json_header_length:
  assumes "clock_ok t" "int32 pid"
  shows "length (json_header t rec pid) \<le> 200"
proof -
  have "length (print_iso8601 t) \<le> 80"
    using assms(1)
      fmt_0d_length [of "tm_year t + 1900" 4] fmt_0d_length [of "tm_mon t + 1" 2]
      fmt_0d_length [of "tm_mday t" 2] fmt_0d_length [of "tm_hour t" 2]
      fmt_0d_length [of "tm_min t" 2] fmt_0d_length [of "tm_sec t" 2]
    by (simp add: print_iso8601_def clock_ok_def int32_def)
  moreover have "length (record_type_name (r_type rec)) \<le> 20"
    by (simp add: record_type_name_def split: hwt_record_type.split)
  moreover have "length (fmt_d pid) \<le> 11"
    using assms(2) by (simp add: int32_def fmt_d_length)
  ultimately show ?thesis by (simp add: json_header_def)
qed

lemma json_path_length: "length (json_path rec) \<le> 2060"
proof -
  have "length (json_escape (MAXPATHLEN * 2) (r_fullpath rec)) < MAXPATHLEN * 2"
    using json_escape_loop_bound [of "[]" "MAXPATHLEN * 2"] by (simp add: json_escape_def MAXPATHLEN_def)
  then show ?thesis by (simp add: json_path_def MAXPATHLEN_def)
qed

lemma json_small_lengths:
  shows "length (json_addrs rec) \<le> 80" "length (json_address rec) \<le> 80"
    and "record_ok rec \<Longrightarrow> length (json_thread rec) \<le> 80"
    and "record_ok rec \<Longrightarrow> length (json_buffer rec) \<le> 80"
  using fmt_lx_length [of "r_addr rec"] fmt_lx_length [of "r_baseaddr rec"]
    fmt_lu_length [of "r_offset rec"] fmt_d_length [of "r_buf_id rec"]
    fmt_d_length [of "r_curpage rec"] fmt_d_length [of "r_thread_id rec"]
  by (simp_all add: json_addrs_def json_address_def json_thread_def json_buffer_def
        record_ok_def int32_def)

lemma line_append_chain:
  assumes "length h \<le> 200" "length a \<le> 2060" "length b \<le> 80"
  shows "line_append 4096 (Some (0, [])) h = Some (length h, h)"
    and "line_append 4096 (Some (length h, h)) a = Some (length h + length a, h @ a)"
    and "line_append 4096 (Some (length h + length a, h @ a)) b =
         Some (length h + length a + length b, h @ a @ b)"
    and "line_append 4096 (Some (length h + length a + length b, h @ a @ b)) (''}'' @ nl) =
         Some (length h + length a + length b + 2, h @ a @ b @ ''}'' @ nl)"
  using assms by (simp_all add: line_append_def)

lemma fmt_record_json_whole:
  assumes "clock_ok t" "record_ok rec" "int32 pid"
  shows "fmt_record_json t rec pid = Some (json_header t rec pid @ json_body rec @ ''}'' @ nl)"
proof -
  let ?h = "json_header t rec pid"
  note h = json_header_length [OF assms(1,3), of rec]
  note small = json_small_lengths [of rec] json_small_lengths(3,4) [OF assms(2)]
  note chain = line_append_chain [OF h]
  note path = chain [OF json_path_length [of rec] small(1)]
  have one: "line_append 4096 (Some (length ?h, ?h)) b = Some (length ?h + length b, ?h @ b)"
    "line_append 4096 (Some (length ?h + length b, ?h @ b)) (''}'' @ nl) =
     Some (length ?h + length b + 2, ?h @ b @ ''}'' @ nl)" if "length b \<le> 80" for b
    using chain(2) [of b "[]"] chain(4) [of b "[]"] that by simp_all
  have none: "line_append 4096 (Some (length ?h, ?h)) (''}'' @ nl) = Some (length ?h + 2, ?h @ ''}'' @ nl)"
    using one(2) [of "[]"] by simp
  show ?thesis
    by (simp add: fmt_record_json_def json_body_def Let_def path one [OF small(1)] one [OF small(2)]
          one [OF small(5)] one [OF small(6)] none del: append.simps
          split: hwt_record_type.split)
qed


definition sample_clock :: clock_time where
  "sample_clock = \<lparr>tm_year = 126, tm_mon = 3, tm_mday = 9, tm_hour = 1, tm_min = 2, tm_sec = 3, tv_nsec = 0\<rparr>"

definition sample_record :: bsdtrace_record where
  "sample_record = \<lparr>r_type = HWT_RECORD_MMAP, r_fullpath = ''/lib/libc.so.7'', r_addr = 4096,
     r_baseaddr = 0, r_buf_id = 0, r_curpage = 0, r_offset = 0, r_thread_id = 0\<rparr>"


end
