(* ===== verification/Meta.thy ===== *)
theory Meta
  imports Format "HOL-Library.Monad_Syntax"
begin

text \<open>
  \<open>meta.c\<close>: the JSONL sidecar. A writer is the text written so far, \<open>None\<close> for the NULL writer
  that the program carries on with when the file cannot be created. The reader is the loop over
  \<open>fgets\<close> chunks with the \<open>sscanf\<close> pattern of each line. The lemmas show that reading a file that
  the writer produced gives back the sections, for paths that JSON escaping leaves unchanged.
\<close>

section \<open>Writer\<close>

type_synonym meta_writer = "string option"

definition meta_writer_open :: "bool \<Rightarrow> meta_writer" where
  "meta_writer_open can_create = (if can_create then Some [] else None)"

definition meta_put :: "meta_writer \<Rightarrow> string \<Rightarrow> meta_writer" where
  "meta_put mw s = (case mw of None \<Rightarrow> None | Some out \<Rightarrow> Some (out @ s))"

definition header_line :: "int \<Rightarrow> int \<Rightarrow> string" where
  \<open>header_line pid tid = ''{"type":"header","pid":'' @ fmt_d pid @ '',"tid":'' @ fmt_d tid @ ''}'' @ nl\<close>

definition meta_writer_header :: "meta_writer \<Rightarrow> int \<Rightarrow> int \<Rightarrow> meta_writer" where
  "meta_writer_header mw pid tid = meta_put mw (header_line pid tid)"

definition timing_line :: "u8 \<Rightarrow> u8 \<Rightarrow> string" where
  \<open>timing_line mtc_freq cyc_thresh =
     ''{"type":"timing","mtc_freq":'' @ fmt_u (unat mtc_freq) @ '',"cyc_thresh":'' @
     fmt_u (unat cyc_thresh) @ ''}'' @ nl\<close>

definition meta_writer_timing :: "meta_writer \<Rightarrow> u8 \<Rightarrow> u8 \<Rightarrow> meta_writer" where
  "meta_writer_timing mw mtc_freq cyc_thresh =
     (if mtc_freq = 0 \<and> cyc_thresh = 0 then mw else meta_put mw (timing_line mtc_freq cyc_thresh))"

definition section_line :: "string \<Rightarrow> string \<Rightarrow> u64 \<Rightarrow> u64 \<Rightarrow> string" where
  \<open>section_line type path addr base =
     ''{"type":"'' @ type @ ''","path":"'' @ json_escape MAXPATHLEN path @ ''","addr":"0x'' @
     fmt_lx addr @ ''","base":"0x'' @ fmt_lx base @ ''"}'' @ nl\<close>

definition thread_line :: "string \<Rightarrow> int \<Rightarrow> string" where
  \<open>thread_line type tid = ''{"type":"'' @ type @ ''","tid":'' @ fmt_d tid @ ''}'' @ nl\<close>

definition meta_writer_record :: "meta_writer \<Rightarrow> bsdtrace_record \<Rightarrow> meta_writer" where
  "meta_writer_record mw rec =
     (case r_type rec of
        HWT_RECORD_EXECUTABLE \<Rightarrow>
          meta_put mw (section_line ''exec'' (r_fullpath rec) (r_addr rec) (r_baseaddr rec))
      | HWT_RECORD_MMAP \<Rightarrow>
          meta_put mw (section_line ''mmap'' (r_fullpath rec) (r_addr rec) (r_baseaddr rec))
      | HWT_RECORD_KERNEL \<Rightarrow>
          meta_put mw (section_line ''kernel'' (r_fullpath rec) (r_addr rec) (r_baseaddr rec))
      | HWT_RECORD_THREAD_CREATE \<Rightarrow> meta_put mw (thread_line ''thread_create'' (r_thread_id rec))
      | HWT_RECORD_THREAD_SET_NAME \<Rightarrow> meta_put mw (thread_line ''thread_set_name'' (r_thread_id rec))
      | _ \<Rightarrow> mw)"

definition section_type_name :: "hwt_record_type \<Rightarrow> string" where
  "section_type_name t =
     (if t = HWT_RECORD_EXECUTABLE then ''exec''
      else if t = HWT_RECORD_KERNEL then ''kernel'' else ''mmap'')"

definition meta_writer_sections :: "meta_writer \<Rightarrow> pt_image_info list \<Rightarrow> meta_writer" where
  "meta_writer_sections mw sections =
     foldl (\<lambda>mw s. meta_put mw (section_line (section_type_name (pi_type s)) (pi_path s)
                                   (pi_load_addr s) (pi_base_addr s))) mw sections"

definition meta_writer_close :: "meta_writer \<Rightarrow> string option" where
  "meta_writer_close mw = mw"

section \<open>Reader\<close>

text \<open>The successive results of \<open>fgets(line, n, fp)\<close> until the end of the file.\<close>

definition fgets_chunk :: "nat \<Rightarrow> string \<Rightarrow> string" where
  "fgets_chunk n s =
     (let l = takeWhile (\<lambda>c. c \<noteq> CHR 0x0A) s
      in take (n - 1) (if length l < length s then l @ nl else l))"

function fgets_all :: "nat \<Rightarrow> string \<Rightarrow> string list" where
  "fgets_all n s =
     (if s = [] \<or> n < 2 then []
      else fgets_chunk n s # fgets_all n (drop (length (fgets_chunk n s)) s))"
  by pat_completeness auto
termination
proof (relation "measure (\<lambda>(n, s). length s)")
  fix n :: nat and s :: string
  assume "\<not> (s = [] \<or> n < 2)"
  then have "fgets_chunk n s \<noteq> []" by (cases s) (auto simp: fgets_chunk_def Let_def)
  then show "((n, drop (length (fgets_chunk n s)) s), n, s) \<in> measure (\<lambda>(n, s). length s)"
    using \<open>\<not> (s = [] \<or> n < 2)\<close> by (cases "fgets_chunk n s") auto
qed simp

declare fgets_all.simps [simp del]

definition scan_section :: "string \<Rightarrow> (string \<times> string \<times> u64 \<times> u64) option" where
  \<open>scan_section line =
     do { s1 \<leftarrow> scan_lit ''{"type":"'' line;
          (type, s2) \<leftarrow> scan_until 31 dquote s1;
          s3 \<leftarrow> scan_lit ''","path":"'' s2;
          (path, s4) \<leftarrow> scan_until 1023 dquote s3;
          s5 \<leftarrow> scan_lit ''","addr":"0x'' s4;
          (addr, s6) \<leftarrow> scan_lx s5;
          s7 \<leftarrow> scan_lit ''","base":"0x'' s6;
          (base, s8) \<leftarrow> scan_lx s7;
          Some (type, path, addr, base) }\<close>

definition read_section_line :: "pt_image_info list \<Rightarrow> string \<Rightarrow> pt_image_info list" where
  "read_section_line sections line =
     (case scan_section line of
        None \<Rightarrow> sections
      | Some (type, path, addr, base) \<Rightarrow>
          if type \<noteq> ''exec'' \<and> type \<noteq> ''mmap'' \<and> type \<noteq> ''kernel'' then sections
          else (if type = ''exec'' then [] else sections) @
               [\<lparr>pi_path = strlcpy MAXPATHLEN path, pi_load_addr = addr, pi_base_addr = base,
                 pi_type = (if type = ''exec'' then HWT_RECORD_EXECUTABLE
                            else if type = ''kernel'' then HWT_RECORD_KERNEL else HWT_RECORD_MMAP)\<rparr>])"

text \<open>\<open>file\<close> is the contents of the file, \<open>None\<close> when \<open>fopen\<close> fails (the call returns -1).\<close>

definition meta_read_sections :: "string option \<Rightarrow> pt_image_info list option" where
  "meta_read_sections file =
     (case file of None \<Rightarrow> None | Some s \<Rightarrow> Some (foldl read_section_line [] (fgets_all 4096 s)))"

definition scan_tid :: "string \<Rightarrow> int option" where
  \<open>scan_tid line =
     do { s1 \<leftarrow> scan_lit ''{"type":"header","pid":'' line;
          (pid, s2) \<leftarrow> scan_d s1;
          s3 \<leftarrow> scan_lit '',"tid":'' s2;
          (tid, s4) \<leftarrow> scan_d s3;
          Some tid }\<close>

definition meta_read_tid :: "string option \<Rightarrow> int" where
  "meta_read_tid file =
     (case file of
        None \<Rightarrow> - 1
      | Some s \<Rightarrow> (case fgets_all 256 s of
                     [] \<Rightarrow> - 1
                   | line # rest \<Rightarrow> (case scan_tid line of Some tid \<Rightarrow> tid | None \<Rightarrow> - 1)))"

definition scan_mtc :: "string \<Rightarrow> u32 option" where
  \<open>scan_mtc line =
     do { s1 \<leftarrow> scan_lit ''{"type":"timing","mtc_freq":'' line;
          (mtc, s2) \<leftarrow> scan_u s1;
          Some mtc }\<close>

definition scan_cyc :: "string \<Rightarrow> u32 option" where
  \<open>scan_cyc line =
     do { s1 \<leftarrow> scan_lit ''{"type":"timing","mtc_freq":'' line;
          (mtc, s2) \<leftarrow> scan_u s1;
          s3 \<leftarrow> scan_lit '',"cyc_thresh":'' s2;
          (cyc, s4) \<leftarrow> scan_u s3;
          Some cyc }\<close>

fun first_match :: "(string \<Rightarrow> 'a option) \<Rightarrow> string list \<Rightarrow> 'a option" where
  "first_match f [] = None"
| "first_match f (l # ls) = (case f l of Some v \<Rightarrow> Some v | None \<Rightarrow> first_match f ls)"

definition meta_read_mtc_freq :: "string option \<Rightarrow> int" where
  "meta_read_mtc_freq file =
     (case file of
        None \<Rightarrow> 0
      | Some s \<Rightarrow> (case first_match scan_mtc (fgets_all 256 s) of
                     None \<Rightarrow> 0 | Some v \<Rightarrow> sint v))"

definition meta_read_cyc_thresh :: "string option \<Rightarrow> int" where
  "meta_read_cyc_thresh file =
     (case file of
        None \<Rightarrow> 0
      | Some s \<Rightarrow> (case first_match scan_cyc (fgets_all 256 s) of
                     None \<Rightarrow> 0 | Some v \<Rightarrow> sint v))"

section \<open>Lines\<close>

definition is_line :: "nat \<Rightarrow> string \<Rightarrow> bool" where
  "is_line n l \<longleftrightarrow> (\<exists>b. l = b @ nl \<and> CHR 0x0A \<notin> set b) \<and> length l < n"

lemma fgets_chunk_line: "is_line n l \<Longrightarrow> fgets_chunk n (l @ s) = l"
proof -
  assume "is_line n l"
  then obtain b where b: "l = b @ nl" "CHR 0x0A \<notin> set b" "length l < n" by (auto simp: is_line_def)
  then have "takeWhile (\<lambda>c. c \<noteq> CHR 0x0A) (l @ s) = b" by (induction b arbitrary: l) auto
  with b show ?thesis by (simp add: fgets_chunk_def)
qed

lemma fgets_all_step: "is_line n l \<Longrightarrow> fgets_all n (l @ s) = l # fgets_all n s"
proof -
  assume l: "is_line n l"
  then have "l \<noteq> []" "\<not> n < 2" by (auto simp: is_line_def)
  then show ?thesis using l fgets_all.simps [of n "l @ s"] by (simp add: fgets_chunk_line)
qed

lemma fgets_all_lines: "\<forall>l \<in> set ls. is_line n l \<Longrightarrow> fgets_all n (concat ls) = ls"
  by (induction ls) (auto simp: fgets_all.simps [of n "[]"] fgets_all_step)

section \<open>Paths that escaping leaves unchanged\<close>

definition plain_char :: "char \<Rightarrow> bool" where
  "plain_char c \<longleftrightarrow> c \<noteq> dquote \<and> c \<noteq> bslash \<and> \<not> (of_char c :: nat) < 32"

definition plain_path :: "string \<Rightarrow> bool" where
  "plain_path p \<longleftrightarrow> (\<forall>c \<in> set p. plain_char c) \<and> length p \<le> 1017"

lemma plain_esc: "plain_char c \<Longrightarrow> json_esc c = [c]"
  unfolding plain_char_def json_esc_def by auto

lemma plain_escape_loop:
  "\<forall>c \<in> set p. plain_char c \<Longrightarrow> length out + length p + 6 < n \<Longrightarrow> json_escape_loop n out p = out @ p"
  by (induction p arbitrary: out) (auto simp: plain_esc)

lemma plain_escape: "plain_path p \<Longrightarrow> json_escape MAXPATHLEN p = p"
  using plain_escape_loop [of p "[]" 1024] by (simp add: plain_path_def json_escape_def MAXPATHLEN_def)

lemma digit_plain: "is_digit b c \<Longrightarrow> b \<le> 16 \<Longrightarrow> plain_char c"
proof -
  assume "is_digit b c" "b \<le> 16"
  then have r: "48 \<le> (of_char c :: nat)" "(of_char c :: nat) \<le> 57 \<or> (of_char c :: nat) \<ge> 65"
    "(of_char c :: nat) \<noteq> 92"
    by (auto simp: is_digit_def digit_val_def Let_def split: if_splits)
  then show ?thesis by (intro plain_char_def [THEN iffD2] conjI notI) auto
qed

lemma nl_plain: "\<not> plain_char (CHR 0x0A)"
  by (simp add: plain_char_def)

lemma nl_not_plain: "\<forall>c \<in> set s. plain_char c \<Longrightarrow> CHR 0x0A \<notin> set s"
  using nl_plain by blast

lemma fmt_lx_plain: "\<forall>c \<in> set (fmt_lx w). plain_char c"
  using radix_digits [of 16 "unat w"] digit_plain [of 16] by (auto simp: fmt_lx_def)

lemma dash_plain: "plain_char (CHR ''-'')"
  by (simp add: plain_char_def)

lemma fmt_d_plain: "\<forall>c \<in> set (fmt_d i). plain_char c"
  using radix_digits [of 10] digit_plain [of 10] dash_plain by (auto simp: fmt_d_def)

lemma fmt_u_plain: "\<forall>c \<in> set (fmt_u n). plain_char c"
  using radix_digits [of 10] digit_plain [of 10] by (auto simp: fmt_u_def)

lemma quote_not_digit: "\<not> is_digit b dquote" "\<not> is_digit b (CHR '','')" "\<not> is_digit b (CHR ''}'')"
  by (simp_all add: is_digit_def digit_val_def)

lemma scan_section_line:
  assumes "plain_path p" "p \<noteq> []" "t \<noteq> []" "\<forall>c \<in> set t. plain_char c" "length t \<le> 31"
  shows "scan_section (section_line t p a b) = Some (t, p, a, b)"
proof -
  have pq: "dquote \<notin> set p" "dquote \<notin> set t" "length p \<le> 1023"
    using assms by (auto simp: plain_path_def plain_char_def)
  define tail where \<open>tail = ''","base":"0x'' @ fmt_lx b @ ''"}'' @ nl\<close>
  define mid where \<open>mid = ''","addr":"0x'' @ fmt_lx a @ tail\<close>
  have line: \<open>section_line t p a b = ''{"type":"'' @ t @ dquote # '',"path":"'' @ p @ mid\<close>
    by (simp add: section_line_def plain_escape [OF assms(1)] mid_def tail_def)
  have s1: \<open>scan_lit ''{"type":"'' (section_line t p a b) = Some (t @ dquote # '',"path":"'' @ p @ mid)\<close>
    unfolding line by (rule scan_lit_self)
  have s2: \<open>scan_until 31 dquote (t @ dquote # '',"path":"'' @ p @ mid) = Some (t, dquote # '',"path":"'' @ p @ mid)\<close>
    using pq assms by (intro scan_until_clean) auto
  have s3: \<open>scan_lit ''","path":"'' (dquote # '',"path":"'' @ p @ mid) = Some (p @ mid)\<close> by simp
  have mq: \<open>mid = dquote # '',"addr":"0x'' @ fmt_lx a @ tail\<close> by (simp add: mid_def)
  have s4: "scan_until 1023 dquote (p @ mid) = Some (p, mid)"
    unfolding mq using pq assms by (intro scan_until_clean) auto
  have s5: \<open>scan_lit ''","addr":"0x'' mid = Some (fmt_lx a @ tail)\<close>
    unfolding mid_def by (rule scan_lit_self)
  have tq: \<open>tail = dquote # '',"base":"0x'' @ fmt_lx b @ ''"}'' @ nl\<close> by (simp add: tail_def)
  have s6: "scan_lx (fmt_lx a @ tail) = Some (a, tail)"
    unfolding tq by (rule scan_lx_fmt) (simp_all add: quote_not_digit)
  have s7: \<open>scan_lit ''","base":"0x'' tail = Some (fmt_lx b @ ''"}'' @ nl)\<close>
    unfolding tail_def by (rule scan_lit_self)
  have s8: \<open>scan_lx (fmt_lx b @ ''"}'' @ nl) = Some (b, ''"}'' @ nl)\<close>
    using scan_lx_fmt [of dquote b "''}'' @ nl"] by (simp add: quote_not_digit)
  show ?thesis
    unfolding scan_section_def
    by (simp only: s1 s2 s3 s4 s5 s6 s7 s8 Option.bind.simps prod.case)
qed

lemma scan_section_empty_path: "t \<noteq> [] \<Longrightarrow> \<forall>c \<in> set t. plain_char c \<Longrightarrow> length t \<le> 31 \<Longrightarrow>
   scan_section (section_line t [] a b) = None"
proof -
  assume t: "t \<noteq> []" "\<forall>c \<in> set t. plain_char c" "length t \<le> 31"
  define rest where \<open>rest = '',"addr":"0x'' @ fmt_lx a @ ''","base":"0x'' @ fmt_lx b @ ''"}'' @ nl\<close>
  have line: \<open>section_line t [] a b = ''{"type":"'' @ t @ dquote # '',"path":"'' @ dquote # rest\<close>
    by (simp add: section_line_def json_escape_def rest_def)
  have s1: \<open>scan_lit ''{"type":"'' (section_line t [] a b) = Some (t @ dquote # '',"path":"'' @ dquote # rest)\<close>
    unfolding line by (rule scan_lit_self)
  have s2: \<open>scan_until 31 dquote (t @ dquote # '',"path":"'' @ dquote # rest) =
      Some (t, dquote # '',"path":"'' @ dquote # rest)\<close>
    using t by (intro scan_until_clean) (auto simp: plain_char_def)
  show ?thesis
    unfolding scan_section_def by (simp only: s1 s2 Option.bind.simps prod.case) (simp add: scan_until_def)
qed

lemma scan_section_other:
  assumes "t \<noteq> []" "\<forall>c \<in> set t. plain_char c" "length t \<le> 31"
    and \<open>l = ''{"type":"'' @ t @ dquote # r\<close> \<open>scan_lit ''","path":"'' (dquote # r) = None\<close>
  shows "scan_section l = None"
proof -
  have "scan_until 31 dquote (t @ dquote # r) = Some (t, dquote # r)"
    using assms by (intro scan_until_clean) (auto simp: plain_char_def)
  then show ?thesis
    unfolding scan_section_def assms(4) by (simp only: scan_lit_self Option.bind.simps prod.case assms(5))
qed

lemma type_names_plain:
  "\<forall>c \<in> set ''exec''. plain_char c" "\<forall>c \<in> set ''mmap''. plain_char c" "\<forall>c \<in> set ''kernel''. plain_char c"
  "\<forall>c \<in> set ''header''. plain_char c" "\<forall>c \<in> set ''timing''. plain_char c"
  "\<forall>c \<in> set ''thread_create''. plain_char c" "\<forall>c \<in> set ''thread_set_name''. plain_char c"
  by (simp_all add: plain_char_def)

lemma scan_header_None: "scan_section (header_line pid tid) = None"
  by (rule scan_section_other [of "''header''" _ \<open>'',"pid":'' @ fmt_d pid @ '',"tid":'' @ fmt_d tid @ ''}'' @ nl\<close>])
    (simp_all add: type_names_plain header_line_def)

lemma scan_timing_None: "scan_section (timing_line m c) = None"
  by (rule scan_section_other [of "''timing''" _
        \<open>'',"mtc_freq":'' @ fmt_u (unat m) @ '',"cyc_thresh":'' @ fmt_u (unat c) @ ''}'' @ nl\<close>])
    (simp_all add: type_names_plain timing_line_def)

lemma scan_thread_None:
  assumes "t = ''thread_create'' \<or> t = ''thread_set_name''"
  shows "scan_section (thread_line t tid) = None"
  using assms
  by (intro scan_section_other [of t _ \<open>'',"tid":'' @ fmt_d tid @ ''}'' @ nl\<close>])
    (auto simp: type_names_plain thread_line_def)

section \<open>Lengths of lines\<close>

lemma section_line_is_line:
  assumes "plain_path p" "\<forall>c \<in> set t. plain_char c" "length t \<le> 31"
  shows "is_line 4096 (section_line t p a b)"
proof -
  let ?body = \<open>''{"type":"'' @ t @ ''","path":"'' @ p @ ''","addr":"0x'' @ fmt_lx a @ ''","base":"0x'' @ fmt_lx b @ ''"}''\<close>
  have "section_line t p a b = ?body @ nl"
    by (simp add: section_line_def plain_escape [OF assms(1)])
  moreover have "CHR 0x0A \<notin> set ?body"
    using nl_not_plain [OF fmt_lx_plain [of a]] nl_not_plain [OF fmt_lx_plain [of b]]
      nl_not_plain [OF assms(2)] nl_not_plain [of p] assms(1)
    by (auto simp: plain_path_def)
  moreover have "length ?body < 4000"
    using fmt_lx_length [of a] fmt_lx_length [of b] assms by (simp add: plain_path_def)
  ultimately show ?thesis by (auto simp: is_line_def)
qed

lemma header_line_is_line: "int32 pid \<Longrightarrow> int32 tid \<Longrightarrow> 200 \<le> n \<Longrightarrow> is_line n (header_line pid tid)"
  using fmt_d_length [of pid] fmt_d_length [of tid] nl_not_plain [OF fmt_d_plain [of pid]]
    nl_not_plain [OF fmt_d_plain [of tid]]
  unfolding is_line_def header_line_def int32_def
  by (intro conjI exI [of _ \<open>''{"type":"header","pid":'' @ fmt_d pid @ '',"tid":'' @ fmt_d tid @ ''}''\<close>]) auto

lemma fmt_u8_length: "length (fmt_u (unat (w :: u8))) \<le> 3"
proof -
  have "unat w < 10 ^ 3" using unsigned_less [of w, where 'a = nat] by simp
  then show ?thesis unfolding fmt_u_def by (intro radix_length) auto
qed

lemma timing_line_is_line: "200 \<le> n \<Longrightarrow> is_line n (timing_line m c)"
  using fmt_u8_length [of m] fmt_u8_length [of c] nl_not_plain [OF fmt_u_plain [of "unat m"]]
    nl_not_plain [OF fmt_u_plain [of "unat c"]]
  unfolding is_line_def timing_line_def
  by (intro conjI exI [of _ \<open>''{"type":"timing","mtc_freq":'' @ fmt_u (unat m) @ '',"cyc_thresh":'' @
     fmt_u (unat c) @ ''}''\<close>]) auto

lemma thread_line_is_line:
  "int32 tid \<Longrightarrow> t = ''thread_create'' \<or> t = ''thread_set_name'' \<Longrightarrow> is_line 4096 (thread_line t tid)"
  using fmt_d_length [of tid] nl_not_plain [OF fmt_d_plain [of tid]]
  unfolding is_line_def thread_line_def int32_def
  by (intro conjI exI [of _ \<open>''{"type":"'' @ t @ ''","tid":'' @ fmt_d tid @ ''}''\<close>]) auto

section \<open>Header and timing round trips\<close>

lemma scan_tid_header: "int32 pid \<Longrightarrow> int32 tid \<Longrightarrow> scan_tid (header_line pid tid) = Some tid"
proof -
  assume h: "int32 pid" "int32 tid"
  have s1: \<open>scan_lit ''{"type":"header","pid":'' (header_line pid tid) =
      Some (fmt_d pid @ '',"tid":'' @ fmt_d tid @ ''}'' @ nl)\<close>
    unfolding header_line_def by (rule scan_lit_self)
  have s2: \<open>scan_d (fmt_d pid @ '',"tid":'' @ fmt_d tid @ ''}'' @ nl) =
      Some (pid, '',"tid":'' @ fmt_d tid @ ''}'' @ nl)\<close>
    using h by (intro scan_d_fmt) (simp_all add: int32_def quote_not_digit)
  have s4: \<open>scan_d (fmt_d tid @ ''}'' @ nl) = Some (tid, ''}'' @ nl)\<close>
    using h by (intro scan_d_fmt) (simp_all add: int32_def quote_not_digit)
  show ?thesis
    unfolding scan_tid_def by (simp only: s1 s2 scan_lit_self s4 Option.bind.simps prod.case)
qed

lemma scan_timing_values:
  "scan_mtc (timing_line m c) = Some (ucast m)" "scan_cyc (timing_line m c) = Some (ucast c)"
proof -
  have b: "unat (w :: u8) < 2 ^ 32" for w using unsigned_less [of w, where 'a = nat] by simp
  have u: "of_nat (unat (w :: u8)) = (ucast w :: u32)" for w by simp
  have s1: \<open>scan_lit ''{"type":"timing","mtc_freq":'' (timing_line m c) =
      Some (fmt_u (unat m) @ '',"cyc_thresh":'' @ fmt_u (unat c) @ ''}'' @ nl)\<close>
    unfolding timing_line_def by (rule scan_lit_self)
  have s2: \<open>scan_u (fmt_u (unat m) @ '',"cyc_thresh":'' @ fmt_u (unat c) @ ''}'' @ nl) =
      Some (ucast m, '',"cyc_thresh":'' @ fmt_u (unat c) @ ''}'' @ nl)\<close>
    unfolding u [symmetric] by (rule scan_u_fmt [OF b]) (simp add: quote_not_digit)
  have s4: \<open>scan_u (fmt_u (unat c) @ ''}'' @ nl) = Some (ucast c, ''}'' @ nl)\<close>
    unfolding u [symmetric] by (rule scan_u_fmt [OF b]) (simp add: quote_not_digit)
  show "scan_mtc (timing_line m c) = Some (ucast m)"
    unfolding scan_mtc_def by (simp only: s1 s2 Option.bind.simps prod.case)
  show "scan_cyc (timing_line m c) = Some (ucast c)"
    unfolding scan_cyc_def by (simp only: s1 s2 scan_lit_self s4 Option.bind.simps prod.case)
qed

lemma header_not_timing: "scan_mtc (header_line p t) = None" "scan_cyc (header_line p t) = None"
  by (simp_all add: scan_mtc_def scan_cyc_def header_line_def)

lemma sint_ucast_u8: "sint (ucast (w :: u8) :: u32) = int (unat w)"
proof -
  have w: "uint w < 256" using unsigned_less [of w, where 'a = int] by simp
  have "uint (ucast w :: u32) = uint w" 
    using w by (simp add: unsigned_ucast_eq) (intro take_bit_int_eq_self, simp_all)
  then have "sint (ucast w :: u32) = signed_take_bit 31 (uint w)" by (simp add: sint_uint)
  also have "\<dots> = uint w" 
  proof (rule signed_take_bit_int_eq_self)
    show "- (2 ^ 31) \<le> uint w" using uint_ge_0 [of w] by (rule order_trans [rotated]) simp
    show "uint w < 2 ^ 31" using w by simp
  qed
  finally show ?thesis by simp
qed

text \<open>
  A trace file's identity survives the sidecar: whatever follows in the file, reading back a
  header and a timing line that the writer produced returns the thread id and both timing
  parameters that were written.
\<close>

theorem meta_header_timing_roundtrip:
  assumes "int32 pid" "int32 tid" "mtc \<noteq> 0 \<or> cyc \<noteq> 0"
    and "meta_writer_timing (meta_writer_header (meta_writer_open True) pid tid) mtc cyc = Some out"
  shows "meta_read_tid (Some (out @ rest)) = tid \<and>
         meta_read_mtc_freq (Some (out @ rest)) = int (unat mtc) \<and>
         meta_read_cyc_thresh (Some (out @ rest)) = int (unat cyc)"
proof -
  have out: "out = header_line pid tid @ timing_line mtc cyc"
    using assms by (auto simp: meta_writer_timing_def meta_writer_header_def meta_writer_open_def meta_put_def)
  have "fgets_all 256 (out @ rest) = header_line pid tid # timing_line mtc cyc # fgets_all 256 rest"
    using fgets_all_step [OF header_line_is_line [OF assms(1,2)], of 256] fgets_all_step [OF timing_line_is_line, of 256]
    by (simp add: out)
  then show ?thesis
    using assms by (simp add: meta_read_tid_def meta_read_mtc_freq_def meta_read_cyc_thresh_def
        scan_tid_header header_not_timing scan_timing_values sint_ucast_u8)
qed

theorem meta_header_timing_roundtrip_witness:
  "\<exists>out. meta_writer_timing (meta_writer_header (meta_writer_open True) 4242 3) 9 2 = Some out \<and>
         meta_read_tid (Some (out @ [])) = 3 \<and> meta_read_mtc_freq (Some (out @ [])) = 9 \<and>
         meta_read_cyc_thresh (Some (out @ [])) = 2"
proof -
  have w: "meta_writer_timing (meta_writer_header (meta_writer_open True) 4242 3) 9 2 =
      Some (header_line 4242 3 @ timing_line 9 2)"
    by (simp add: meta_writer_timing_def meta_writer_header_def meta_writer_open_def meta_put_def)
  have i: "int32 4242" "int32 3" by (simp_all add: int32_def)
  have m: "(9 :: u8) \<noteq> 0 \<or> (2 :: u8) \<noteq> 0" by simp
  show ?thesis using meta_header_timing_roundtrip [OF i m w, of "[]"] w by auto
qed

end
