(* ===== verification/Procmap.thy ===== *)
theory Procmap
  imports Bsdtrace_Types
begin

text \<open>
  The process introspection of \<open>resolve.c\<close>: the walks over the kernel's \<open>KERN_PROC_VMMAP\<close> answer
  that find an executable's load address and that list the executable mappings of a running
  process. The kernel's answers are parameters.
\<close>

section \<open>The kernel's answer\<close>

datatype kve_type = KVME_TYPE_VNODE | KVME_TYPE_OTHER int

record kinfo_vmentry =
  kve_structsize :: nat
  kve_vtype :: kve_type
  kve_prot_exec :: bool
  kve_path :: string
  kve_start :: u64

text \<open>
  What the outside answers to one introspection: the size query, the allocation of the buffer, the
  second \<open>sysctl\<close> with the entries it stored, and for each growth of the result array whether
  \<open>realloc\<close> to that many elements succeeds.
\<close>

record vmmap_env =
  vm_size_ok :: bool
  vm_malloc_ok :: bool
  vm_entries :: "kinfo_vmentry list option"
  vm_realloc_ok :: "nat \<Rightarrow> bool"

definition process_exe_fullpath :: "nat \<Rightarrow> string option \<Rightarrow> string option" where
  "process_exe_fullpath bufsz answer =
     (case answer of None \<Rightarrow> None | Some p \<Rightarrow> if length p < bufsz then Some p else None)"

section \<open>Walks\<close>

definition vmmap_fetch :: "vmmap_env \<Rightarrow> kinfo_vmentry list option" where
  "vmmap_fetch env =
     (if \<not> vm_size_ok env then None
      else if \<not> vm_malloc_ok env then None
      else vm_entries env)"

fun load_addr_loop :: "string \<Rightarrow> kinfo_vmentry list \<Rightarrow> u64 option" where
  "load_addr_loop exe_path [] = None"
| "load_addr_loop exe_path (kve # rest) =
     (if kve_structsize kve = 0 then None
      else if kve_vtype kve = KVME_TYPE_VNODE \<and> kve_prot_exec kve \<and> kve_path kve \<noteq> [] \<and>
              kve_path kve = exe_path then Some (kve_start kve)
      else load_addr_loop exe_path rest)"

definition process_load_addr :: "vmmap_env \<Rightarrow> string \<Rightarrow> u64 option" where
  "process_load_addr env exe_path =
     (case vmmap_fetch env of None \<Rightarrow> None | Some es \<Rightarrow> load_addr_loop exe_path es)"

definition mmap_section :: "kinfo_vmentry \<Rightarrow> pt_image_info" where
  "mmap_section kve =
     \<lparr>pi_path = strlcpy MAXPATHLEN (kve_path kve), pi_load_addr = kve_start kve, pi_base_addr = 0,
      pi_type = HWT_RECORD_MMAP\<rparr>"

fun exec_mmaps_loop ::
  "(nat \<Rightarrow> bool) \<Rightarrow> nat \<Rightarrow> pt_image_info list \<Rightarrow> kinfo_vmentry list \<Rightarrow> pt_image_info list option" where
  "exec_mmaps_loop realloc_ok capacity sections [] = Some sections"
| "exec_mmaps_loop realloc_ok capacity sections (kve # rest) =
     (if kve_structsize kve = 0 then Some sections
      else if kve_vtype kve = KVME_TYPE_VNODE \<and> kve_prot_exec kve \<and> kve_path kve \<noteq> [] then
        (let newcap = (if length sections \<ge> capacity
                       then (if capacity = 0 then 16 else capacity * 2) else capacity)
         in if length sections \<ge> capacity \<and> \<not> realloc_ok newcap then None
            else exec_mmaps_loop realloc_ok newcap (sections @ [mmap_section kve]) rest)
      else exec_mmaps_loop realloc_ok capacity sections rest)"

definition process_exec_mmaps :: "vmmap_env \<Rightarrow> pt_image_info list option" where
  "process_exec_mmaps env =
     (case vmmap_fetch env of
        None \<Rightarrow> None
      | Some es \<Rightarrow> exec_mmaps_loop (vm_realloc_ok env) 0 [] es)"

section \<open>What the walks return\<close>

definition vm_visible :: "kinfo_vmentry list \<Rightarrow> kinfo_vmentry list" where
  "vm_visible es = takeWhile (\<lambda>k. kve_structsize k \<noteq> 0) es"

definition kve_exec :: "kinfo_vmentry \<Rightarrow> bool" where
  "kve_exec k \<longleftrightarrow> kve_vtype k = KVME_TYPE_VNODE \<and> kve_prot_exec k \<and> kve_path k \<noteq> []"

lemma load_addr_loop_eq:
  "load_addr_loop p es =
   map_option kve_start (find (\<lambda>k. kve_exec k \<and> kve_path k = p) (vm_visible es))"
  by (induction es) (auto simp: vm_visible_def kve_exec_def)

lemma exec_mmaps_loop_ok:
  "\<forall>n. realloc_ok n \<Longrightarrow>
   exec_mmaps_loop realloc_ok cap secs es = Some (secs @ map mmap_section (filter kve_exec (vm_visible es)))"
  by (induction es arbitrary: cap secs) (auto simp: vm_visible_def kve_exec_def Let_def)

lemma exec_mmaps_loop_Some:
  "exec_mmaps_loop realloc_ok cap secs es = Some out \<Longrightarrow>
   out = secs @ map mmap_section (filter kve_exec (vm_visible es))"
proof (induction es arbitrary: cap secs)
  case (Cons k es)
  from Cons.prems show ?case
    by (auto simp: vm_visible_def kve_exec_def Let_def split: if_splits
        dest!: Cons.IH [unfolded vm_visible_def])
qed (simp add: vm_visible_def)

lemma process_exec_mmaps_Some:
  "process_exec_mmaps env = Some out \<Longrightarrow>
   \<exists>es. vm_entries env = Some es \<and> out = map mmap_section (filter kve_exec (vm_visible es))"
  by (auto simp: process_exec_mmaps_def vmmap_fetch_def split: option.splits if_splits
      dest: exec_mmaps_loop_Some)

lemma vm_visible_subset: "set (vm_visible es) \<subseteq> set es"
  by (auto simp: vm_visible_def dest: set_takeWhileD)

end
