(* ===== verification/Trace_State.thy ===== *)
theory Trace_State
  imports Meta Procmap
begin

text \<open>
  \<open>trace.c\<close>, the accumulator of the polling loops: the image sections seen so far, the extent of
  the trace buffer as BUFFER records report it, the overflow count, and the sidecar that is
  written alongside. The main result is that the sidecar always describes the sections that the
  live state holds, so that decoding the saved trace later uses the same image.
\<close>

section \<open>State and operations\<close>

record trace_state =
  ts_sections :: "pt_image_info list"
  ts_sections_cap :: nat
  ts_meta :: meta_writer
  ts_last_buf_page :: int
  ts_max_buf_page :: int
  ts_last_buf_offset :: u64
  ts_buf_wrapped :: bool
  ts_overflow_count :: nat

text \<open>\<open>ok\<close> is whether \<open>realloc\<close> succeeds, if it is called.\<close>

definition trace_state_add_section ::
  "bool \<Rightarrow> trace_state \<Rightarrow> string \<Rightarrow> u64 \<Rightarrow> u64 \<Rightarrow> hwt_record_type \<Rightarrow> int \<times> trace_state" where
  "trace_state_add_section ok ts path load_addr base_addr type =
     (if path = [] then (- 1, ts)
      else (case vec_reserve 32 ok (length (ts_sections ts)) (ts_sections_cap ts) of
              None \<Rightarrow> (- 1, ts)
            | Some cap \<Rightarrow>
                (0, ts\<lparr>ts_sections := ts_sections ts @
                         [\<lparr>pi_path = strlcpy MAXPATHLEN path, pi_load_addr = load_addr,
                           pi_base_addr = base_addr, pi_type = type\<rparr>],
                       ts_sections_cap := cap\<rparr>)))"

definition trace_state_reset_sections :: "trace_state \<Rightarrow> trace_state" where
  "trace_state_reset_sections ts = ts\<lparr>ts_sections := [], ts_sections_cap := 0\<rparr>"

definition trace_state_init :: "meta_writer \<Rightarrow> trace_state" where
  "trace_state_init meta =
     \<lparr>ts_sections = [], ts_sections_cap = 0, ts_meta = meta, ts_last_buf_page = - 1,
      ts_max_buf_page = - 1, ts_last_buf_offset = 0, ts_buf_wrapped = False, ts_overflow_count = 0\<rparr>"

definition process_buffer :: "bsdtrace_record \<Rightarrow> trace_state \<Rightarrow> trace_state" where
  "process_buffer rec ts =
     ts\<lparr>ts_buf_wrapped := (ts_buf_wrapped ts \<or>
                            (0 \<le> ts_max_buf_page ts \<and> r_curpage rec < ts_max_buf_page ts)),
        ts_max_buf_page := (if r_curpage rec > ts_max_buf_page ts then r_curpage rec
                            else ts_max_buf_page ts),
        ts_last_buf_page := r_curpage rec,
        ts_last_buf_offset := r_offset rec\<rparr>"

definition is_image_record :: "bsdtrace_record \<Rightarrow> bool" where
  "is_image_record rec \<longleftrightarrow>
     (r_type rec = HWT_RECORD_EXECUTABLE \<or> r_type rec = HWT_RECORD_MMAP \<or>
      r_type rec = HWT_RECORD_KERNEL) \<and> r_fullpath rec \<noteq> []"

definition process_image :: "bool \<Rightarrow> bsdtrace_record \<Rightarrow> trace_state \<Rightarrow> trace_state" where
  "process_image ok rec ts =
     (if is_image_record rec then
        snd (trace_state_add_section ok
               (if r_type rec = HWT_RECORD_EXECUTABLE then trace_state_reset_sections ts else ts)
               (r_fullpath rec) (r_addr rec) (r_baseaddr rec) (r_type rec))
      else ts)"

definition trace_state_process :: "bool \<Rightarrow> trace_state \<Rightarrow> bsdtrace_record \<Rightarrow> trace_state" where
  "trace_state_process ok ts rec =
     (let ts1 = ts\<lparr>ts_meta := meta_writer_record (ts_meta ts) rec\<rparr>;
          ts2 = (if r_type rec = HWT_RECORD_BUFFER then process_buffer rec ts1 else ts1);
          ts3 = (if r_type rec = HWT_RECORD_OVERFLOW
                 then ts2\<lparr>ts_overflow_count := ts_overflow_count ts2 + 1\<rparr> else ts2)
      in process_image ok rec ts3)"

definition seed_section :: "bool \<Rightarrow> trace_state \<Rightarrow> pt_image_info \<Rightarrow> trace_state" where
  "seed_section ok ts s =
     snd (trace_state_add_section ok ts (pi_path s) (pi_load_addr s) (pi_base_addr s) (pi_type s))"

definition trace_state_seed_process_mmaps :: "bool \<Rightarrow> vmmap_env \<Rightarrow> trace_state \<Rightarrow> int \<times> trace_state" where
  "trace_state_seed_process_mmaps ok env ts =
     (case process_exec_mmaps env of
        None \<Rightarrow> (- 1, ts)
      | Some sections \<Rightarrow>
          if sections = [] then (0, ts)
          else (0, foldl (seed_section ok) (ts\<lparr>ts_meta := meta_writer_sections (ts_meta ts) sections\<rparr>)
                     sections))"

definition trace_state_free :: "trace_state \<Rightarrow> trace_state" where
  "trace_state_free ts = trace_state_reset_sections ts"

definition POST_STOP_EMPTY_POLLS :: nat where "POST_STOP_EMPTY_POLLS = 40"
definition POST_STOP_MAX_RECORDS :: nat where "POST_STOP_MAX_RECORDS = 256"

text \<open>
  The drain after HWT_IOC_STOP. \<open>poll k\<close> is the answer of the \<open>k\<close>-th call of
  \<open>hwt_ctx_poll_records\<close>, \<open>None\<close> when it reports an error. The loop runs for as long as records
  keep coming, so not returning is \<open>None\<close>; the result is the number of records and the state.
\<close>

partial_function (option) drain_loop ::
  "(nat \<Rightarrow> bsdtrace_record list option) \<Rightarrow> nat \<Rightarrow> nat \<Rightarrow> nat \<Rightarrow> trace_state \<Rightarrow> (nat \<times> trace_state) option" where
  "drain_loop poll k empty_polls ntotal ts =
     (if \<not> empty_polls < POST_STOP_EMPTY_POLLS then Some (ntotal, ts)
      else case poll k of
             None \<Rightarrow> Some (ntotal, ts)
           | Some recs \<Rightarrow>
               if recs = [] then drain_loop poll (k + 1) (empty_polls + 1) ntotal ts
               else drain_loop poll (k + 1) 0 (ntotal + length recs)
                      (foldl (trace_state_process True) ts recs))"

definition trace_state_drain_post_stop ::
  "(nat \<Rightarrow> bsdtrace_record list option) \<Rightarrow> trace_state \<Rightarrow> (nat \<times> trace_state) option" where
  "trace_state_drain_post_stop poll ts = drain_loop poll 0 0 0 ts"

section \<open>Fields\<close>

definition section_cell :: "trace_state \<Rightarrow> pt_image_info \<Rightarrow> pt_image_info" where
  "section_cell ts s = s\<lparr>pi_path := strlcpy MAXPATHLEN (pi_path s)\<rparr>"

interpretation secvec: append_vec ts_sections ts_sections_cap seed_section "\<lambda>s. pi_path s \<noteq> []" section_cell
proof unfold_locales
  fix x :: pt_image_info and s :: trace_state and ok
  show "pi_path x \<noteq> [] \<Longrightarrow> ts_sections (seed_section True s x) = ts_sections s @ [section_cell s x]"
    by (cases x) (auto simp: seed_section_def trace_state_add_section_def section_cell_def vec_reserve_def)
  show "\<not> pi_path x \<noteq> [] \<Longrightarrow> seed_section ok s x = s"
    by (simp add: seed_section_def trace_state_add_section_def)
  show "ts_sections (seed_section ok s x) = ts_sections s \<or>
        ts_sections (seed_section ok s x) = ts_sections s @ [section_cell s x]"
    by (cases x) (auto simp: seed_section_def trace_state_add_section_def section_cell_def split: option.splits)
  assume "length (ts_sections s) \<le> ts_sections_cap s"
  then show "length (ts_sections (seed_section ok s x)) \<le> ts_sections_cap (seed_section ok s x)"
    using vec_reserve_room [of 32 "length (ts_sections s)" "ts_sections_cap s" ok]
    by (auto simp: seed_section_def trace_state_add_section_def split: option.splits)
qed

lemma add_section_fields [simp]:
  "ts_meta (snd (trace_state_add_section ok ts p a b t)) = ts_meta ts"
  "ts_last_buf_page (snd (trace_state_add_section ok ts p a b t)) = ts_last_buf_page ts"
  "ts_max_buf_page (snd (trace_state_add_section ok ts p a b t)) = ts_max_buf_page ts"
  "ts_last_buf_offset (snd (trace_state_add_section ok ts p a b t)) = ts_last_buf_offset ts"
  "ts_buf_wrapped (snd (trace_state_add_section ok ts p a b t)) = ts_buf_wrapped ts"
  "ts_overflow_count (snd (trace_state_add_section ok ts p a b t)) = ts_overflow_count ts"
  by (simp_all add: trace_state_add_section_def split: option.splits)

lemma reset_sections_fields [simp]:
  "ts_meta (trace_state_reset_sections ts) = ts_meta ts"
  "ts_last_buf_page (trace_state_reset_sections ts) = ts_last_buf_page ts"
  "ts_max_buf_page (trace_state_reset_sections ts) = ts_max_buf_page ts"
  "ts_last_buf_offset (trace_state_reset_sections ts) = ts_last_buf_offset ts"
  "ts_buf_wrapped (trace_state_reset_sections ts) = ts_buf_wrapped ts"
  "ts_overflow_count (trace_state_reset_sections ts) = ts_overflow_count ts"
  "ts_sections (trace_state_reset_sections ts) = []"
  by (simp_all add: trace_state_reset_sections_def)

lemma process_image_fields [simp]:
  "ts_meta (process_image ok rec ts) = ts_meta ts"
  "ts_last_buf_page (process_image ok rec ts) = ts_last_buf_page ts"
  "ts_max_buf_page (process_image ok rec ts) = ts_max_buf_page ts"
  "ts_last_buf_offset (process_image ok rec ts) = ts_last_buf_offset ts"
  "ts_buf_wrapped (process_image ok rec ts) = ts_buf_wrapped ts"
  "ts_overflow_count (process_image ok rec ts) = ts_overflow_count ts"
  by (simp_all add: process_image_def)

lemma process_buffer_fields [simp]:
  "ts_meta (process_buffer rec ts) = ts_meta ts"
  "ts_sections (process_buffer rec ts) = ts_sections ts"
  "ts_overflow_count (process_buffer rec ts) = ts_overflow_count ts"
  by (simp_all add: process_buffer_def)

lemma process_meta [simp]:
  "ts_meta (trace_state_process ok ts rec) = meta_writer_record (ts_meta ts) rec"
  by (simp add: trace_state_process_def Let_def)

definition record_section :: "bsdtrace_record \<Rightarrow> pt_image_info" where
  "record_section rec =
     \<lparr>pi_path = strlcpy MAXPATHLEN (r_fullpath rec), pi_load_addr = r_addr rec,
      pi_base_addr = r_baseaddr rec, pi_type = r_type rec\<rparr>"

lemma add_section_True:
  "p \<noteq> [] \<Longrightarrow> ts_sections (snd (trace_state_add_section True ts p a b t)) =
     ts_sections ts @ [\<lparr>pi_path = strlcpy MAXPATHLEN p, pi_load_addr = a, pi_base_addr = b, pi_type = t\<rparr>]"
  by (auto simp: trace_state_add_section_def vec_reserve_def)

lemma process_sections:
  "ts_sections (trace_state_process True ts rec) =
     (if is_image_record rec
      then (if r_type rec = HWT_RECORD_EXECUTABLE then [] else ts_sections ts) @ [record_section rec]
      else ts_sections ts)"
  by (auto simp: trace_state_process_def Let_def process_image_def add_section_True record_section_def
      is_image_record_def)

section \<open>The buffer's extent\<close>

lemma process_extent:
  "ts_buf_wrapped (trace_state_process ok ts rec) =
     (ts_buf_wrapped ts \<or> (r_type rec = HWT_RECORD_BUFFER \<and> 0 \<le> ts_max_buf_page ts \<and>
                           r_curpage rec < ts_max_buf_page ts))"
  "ts_max_buf_page (trace_state_process ok ts rec) =
     (if r_type rec = HWT_RECORD_BUFFER then max (ts_max_buf_page ts) (r_curpage rec)
      else ts_max_buf_page ts)"
  "ts_last_buf_page (trace_state_process ok ts rec) =
     (if r_type rec = HWT_RECORD_BUFFER then r_curpage rec else ts_last_buf_page ts)"
  "ts_last_buf_offset (trace_state_process ok ts rec) =
     (if r_type rec = HWT_RECORD_BUFFER then r_offset rec else ts_last_buf_offset ts)"
  "ts_overflow_count (trace_state_process ok ts rec) =
     ts_overflow_count ts + (if r_type rec = HWT_RECORD_OVERFLOW then 1 else 0)"
  by (auto simp: trace_state_process_def Let_def process_buffer_def)

definition buffer_pages :: "bsdtrace_record list \<Rightarrow> int list" where
  "buffer_pages recs = map r_curpage (filter (\<lambda>r. r_type r = HWT_RECORD_BUFFER) recs)"

lemma buffer_pages_simps [simp]:
  "buffer_pages [] = []"
  "buffer_pages (recs @ [r]) =
     buffer_pages recs @ (if r_type r = HWT_RECORD_BUFFER then [r_curpage r] else [])"
  by (simp_all add: buffer_pages_def)

lemma Max_snoc: "Max (insert (- 1) (set (xs @ [x :: int]))) = max (Max (insert (- 1) (set xs))) x"
proof -
  have "insert (- 1) (set (xs @ [x])) = insert x (insert (- 1) (set xs))" by auto
  then show ?thesis by (simp only: Max_insert finite_insert finite_set insert_not_empty) (simp add: max.commute)
qed

lemma extent_of_records:
  assumes "\<forall>p \<in> set (buffer_pages recs). 0 \<le> p"
    and ts: "ts = foldl (trace_state_process ok) (trace_state_init mw) recs"
  shows "ts_max_buf_page ts = Max (insert (- 1) (set (buffer_pages recs)))"
    and "ts_buf_wrapped ts \<longleftrightarrow> \<not> sorted (buffer_pages recs)"
    and "ts_last_buf_page ts = (if buffer_pages recs = [] then - 1 else last (buffer_pages recs))"
    and "ts_overflow_count ts = length (filter (\<lambda>r. r_type r = HWT_RECORD_OVERFLOW) recs)"
proof -
  let ?st = "\<lambda>rs. foldl (trace_state_process ok) (trace_state_init mw) rs"
  have "(\<forall>p \<in> set (buffer_pages recs). 0 \<le> p) \<longrightarrow>
     ts_max_buf_page (?st recs) = Max (insert (- 1) (set (buffer_pages recs))) \<and>
     (ts_buf_wrapped (?st recs) \<longleftrightarrow> \<not> sorted (buffer_pages recs)) \<and>
     ts_last_buf_page (?st recs) = (if buffer_pages recs = [] then - 1 else last (buffer_pages recs)) \<and>
     ts_overflow_count (?st recs) = length (filter (\<lambda>r. r_type r = HWT_RECORD_OVERFLOW) recs)"
  proof (induction recs rule: rev_induct)
    case Nil
    show ?case by (simp add: trace_state_init_def)
  next
    case (snoc r recs)
    show ?case
    proof (cases "r_type r = HWT_RECORD_BUFFER")
      case False
      with snoc show ?thesis by (auto simp: process_extent)
    next
      case True
      let ?m = "Max (insert (- 1) (set (buffer_pages recs)))"
      have "r_curpage r < ?m \<and> 0 \<le> ?m \<longleftrightarrow> \<not> (\<forall>p \<in> set (buffer_pages recs). p \<le> r_curpage r)"
        if "0 \<le> r_curpage r"
      proof -
        have "r_curpage r < ?m \<and> 0 \<le> ?m \<longleftrightarrow> r_curpage r < ?m" using that by linarith
        then show ?thesis using that by (auto simp: Max_gr_iff not_le)
      qed
      with True snoc show ?thesis
        by (auto simp: process_extent sorted_append Max_snoc [simplified])
    qed
  qed
  then show "ts_max_buf_page ts = Max (insert (- 1) (set (buffer_pages recs)))"
    "ts_buf_wrapped ts \<longleftrightarrow> \<not> sorted (buffer_pages recs)"
    "ts_last_buf_page ts = (if buffer_pages recs = [] then - 1 else last (buffer_pages recs))"
    "ts_overflow_count ts = length (filter (\<lambda>r. r_type r = HWT_RECORD_OVERFLOW) recs)"
    using assms by auto
qed

section \<open>The sidecar describes the live sections\<close>

text \<open>
  \<open>mirrors ts\<close>: the sidecar is a sequence of complete lines, and the reader's loop over them ends
  with the sections of \<open>ts\<close>.
\<close>

definition mirrors :: "trace_state \<Rightarrow> bool" where
  "mirrors ts \<longleftrightarrow>
     (\<exists>lines. ts_meta ts = Some (concat lines) \<and> (\<forall>l \<in> set lines. is_line 4096 l) \<and>
              foldl read_section_line [] lines = ts_sections ts)"

lemma mirrors_read: "mirrors ts \<Longrightarrow> meta_read_sections (ts_meta ts) = Some (ts_sections ts)"
  by (auto simp: mirrors_def meta_read_sections_def fgets_all_lines)

lemma mirrors_line:
  assumes "mirrors ts" "ts_meta ts' = meta_put (ts_meta ts) l" "is_line 4096 l"
    and "ts_sections ts' = read_section_line (ts_sections ts) l"
  shows "mirrors ts'"
proof -
  obtain lines where "ts_meta ts = Some (concat lines)" "\<forall>l \<in> set lines. is_line 4096 l"
    "foldl read_section_line [] lines = ts_sections ts"
    using assms(1) by (auto simp: mirrors_def)
  then show ?thesis using assms(2-) unfolding mirrors_def
    by (intro exI [of _ "lines @ [l]"]) (auto simp: meta_put_def)
qed

lemma mirrors_same: "mirrors ts \<Longrightarrow> ts_meta ts' = ts_meta ts \<Longrightarrow> ts_sections ts' = ts_sections ts \<Longrightarrow> mirrors ts'"
  by (simp add: mirrors_def)

lemma plain_path_strlcpy: "plain_path p \<Longrightarrow> strlcpy MAXPATHLEN p = p"
  by (simp add: plain_path_def MAXPATHLEN_def)

definition section_type_of :: "string \<Rightarrow> hwt_record_type" where
  "section_type_of t = (if t = ''exec'' then HWT_RECORD_EXECUTABLE
                        else if t = ''kernel'' then HWT_RECORD_KERNEL else HWT_RECORD_MMAP)"

lemma read_section_line_section:
  assumes "plain_path p" "t \<in> {''exec'', ''mmap'', ''kernel''}"
  shows "read_section_line secs (section_line t p a b) =
     (if p = [] then secs
      else (if t = ''exec'' then [] else secs) @
           [\<lparr>pi_path = p, pi_load_addr = a, pi_base_addr = b, pi_type = section_type_of t\<rparr>])"
proof (cases "p = []")
  case True
  have "scan_section (section_line t [] a b) = None"
    using assms(2) by (intro scan_section_empty_path) (auto simp: type_names_plain)
  with True show ?thesis by (simp add: read_section_line_def)
next
  case False
  have "scan_section (section_line t p a b) = Some (t, p, a, b)"
    using assms False by (intro scan_section_line) (auto simp: type_names_plain)
  moreover have "strlcpy MAXPATHLEN p = p" using assms by (simp add: plain_path_strlcpy)
  ultimately show ?thesis using False assms(2) by (auto simp: read_section_line_def section_type_of_def)
qed

lemma section_line_is_line3:
  "plain_path p \<Longrightarrow> t \<in> {''exec'', ''mmap'', ''kernel''} \<Longrightarrow> is_line 4096 (section_line t p a b)"
  by (rule section_line_is_line) (auto simp: type_names_plain)

lemma read_section_line_other:
  "read_section_line secs (header_line pid tid) = secs"
  "read_section_line secs (timing_line m c) = secs"
  "t = ''thread_create'' \<or> t = ''thread_set_name'' \<Longrightarrow> read_section_line secs (thread_line t tid) = secs"
  by (auto simp: read_section_line_def scan_header_None scan_timing_None scan_thread_None)

definition plain_record :: "bsdtrace_record \<Rightarrow> bool" where
  "plain_record rec \<longleftrightarrow> plain_path (r_fullpath rec) \<and> int32 (r_thread_id rec)"

definition section_record_name :: "hwt_record_type \<Rightarrow> string option" where
  "section_record_name t =
     (case t of HWT_RECORD_EXECUTABLE \<Rightarrow> Some ''exec'' | HWT_RECORD_MMAP \<Rightarrow> Some ''mmap''
      | HWT_RECORD_KERNEL \<Rightarrow> Some ''kernel'' | _ \<Rightarrow> None)"

lemma section_record_nameD:
  "section_record_name ty = Some t \<Longrightarrow>
   t \<in> {''exec'', ''mmap'', ''kernel''} \<and> section_type_of t = ty \<and> (t = ''exec'' \<longleftrightarrow> ty = HWT_RECORD_EXECUTABLE)"
  by (auto simp: section_record_name_def section_type_of_def split: hwt_record_type.splits)

lemma process_mirrors:
  assumes "mirrors ts" "plain_record rec"
  shows "mirrors (trace_state_process True ts rec)"
proof -
  have p: "plain_path (r_fullpath rec)" "int32 (r_thread_id rec)"
    "strlcpy MAXPATHLEN (r_fullpath rec) = r_fullpath rec"
    using assms(2) by (auto simp: plain_record_def plain_path_def MAXPATHLEN_def)
  consider (sec) t where "section_record_name (r_type rec) = Some t"
    | (thr) t where "t = ''thread_create'' \<or> t = ''thread_set_name''"
        "meta_writer_record (ts_meta ts) rec = meta_put (ts_meta ts) (thread_line t (r_thread_id rec))"
        "\<not> is_image_record rec"
    | (none) "meta_writer_record (ts_meta ts) rec = ts_meta ts" "\<not> is_image_record rec"
    by (cases "r_type rec") (auto simp: section_record_name_def meta_writer_record_def is_image_record_def)
  then show ?thesis
  proof cases
    case sec
    have t: "t \<in> {''exec'', ''mmap'', ''kernel''}" "section_type_of t = r_type rec"
      "t = ''exec'' \<longleftrightarrow> r_type rec = HWT_RECORD_EXECUTABLE"
      using section_record_nameD [OF sec] by blast+
    have "meta_writer_record (ts_meta ts) rec =
        meta_put (ts_meta ts) (section_line t (r_fullpath rec) (r_addr rec) (r_baseaddr rec))"
      using sec by (auto simp: section_record_name_def meta_writer_record_def split: hwt_record_type.splits)
    moreover have "is_image_record rec \<longleftrightarrow> r_fullpath rec \<noteq> []"
      using sec by (auto simp: is_image_record_def section_record_name_def split: hwt_record_type.splits)
    ultimately show ?thesis
      using t(2,3) p
      by (intro mirrors_line [OF assms(1) _ section_line_is_line3
              [OF p(1) t(1), of "r_addr rec" "r_baseaddr rec"]])
        (simp_all add: process_sections read_section_line_section [OF p(1) t(1)] record_section_def)
  next
    case thr
    then show ?thesis using p
      by (intro mirrors_line [OF assms(1) _ thread_line_is_line]) (auto simp: process_sections read_section_line_other)
  next
    case none
    then show ?thesis by (intro mirrors_same [OF assms(1)]) (auto simp: process_sections)
  qed
qed

lemma process_all_mirrors:
  "mirrors ts \<Longrightarrow> \<forall>r \<in> set recs. plain_record r \<Longrightarrow> mirrors (foldl (trace_state_process True) ts recs)"
  by (induction recs arbitrary: ts) (simp_all add: process_mirrors)

lemma seed_one_mirrors:
  assumes "mirrors ts" "plain_path (pi_path s)" "pi_type s = HWT_RECORD_MMAP"
    and "ts_meta ts' = meta_put (ts_meta ts) (section_line (section_type_name (pi_type s)) (pi_path s)
                         (pi_load_addr s) (pi_base_addr s))"
    and "ts_sections ts' = ts_sections (seed_section True ts s)"
  shows "mirrors ts'"
proof -
  have p: "strlcpy MAXPATHLEN (pi_path s) = pi_path s"
    using assms(2) by (rule plain_path_strlcpy)
  have t: "section_type_name (pi_type s) = ''mmap''" using assms(3) by (simp add: section_type_name_def)
  have "ts_sections (seed_section True ts s) = read_section_line (ts_sections ts)
      (section_line ''mmap'' (pi_path s) (pi_load_addr s) (pi_base_addr s))"
  proof (cases "pi_path s = []")
    case True
    then show ?thesis using secvec.push_reject assms(2) by (simp add: read_section_line_section)
  next
    case False
    then show ?thesis using secvec.push_accept [of s ts] p assms(2,3)
      by (cases s) (simp add: read_section_line_section section_cell_def section_type_of_def)
  qed
  then show ?thesis using assms p t
    by (intro mirrors_line [OF assms(1) assms(4)]) (auto simp: section_line_is_line3)
qed

lemma seed_section_meta [simp]: "ts_meta (seed_section ok ts s) = ts_meta ts"
  by (simp add: seed_section_def)

lemma seed_section_swap:
  "seed_section ok (ts\<lparr>ts_meta := mw\<rparr>) s = (seed_section ok ts s)\<lparr>ts_meta := mw\<rparr>"
  by (auto simp: seed_section_def trace_state_add_section_def split: option.splits)

lemma seed_sections_mirrors:
  "mirrors ts \<Longrightarrow> \<forall>s \<in> set secs. plain_path (pi_path s) \<and> pi_type s = HWT_RECORD_MMAP \<Longrightarrow>
   mirrors (foldl (seed_section True) (ts\<lparr>ts_meta := meta_writer_sections (ts_meta ts) secs\<rparr>) secs)"
proof (induction secs arbitrary: ts)
  case (Cons s secs)
  let ?mw = "meta_put (ts_meta ts) (section_line (section_type_name (pi_type s)) (pi_path s)
                (pi_load_addr s) (pi_base_addr s))"
  let ?ts = "(seed_section True ts s)\<lparr>ts_meta := ?mw\<rparr>"
  have s: "plain_path (pi_path s)" "pi_type s = HWT_RECORD_MMAP" using Cons.prems by simp_all
  have "mirrors ?ts" by (rule seed_one_mirrors [OF Cons.prems(1) s]) simp_all
  from Cons.IH [OF this] Cons.prems
  have "mirrors (foldl (seed_section True) (?ts\<lparr>ts_meta := meta_writer_sections ?mw secs\<rparr>) secs)"
    by simp
  moreover have "meta_writer_sections (ts_meta ts) (s # secs) = meta_writer_sections ?mw secs"
    by (simp only: meta_writer_sections_def foldl_Cons)
  ultimately show ?case by (simp add: seed_section_swap)
qed (simp add: meta_writer_sections_def mirrors_def)

definition plain_vmmap :: "vmmap_env \<Rightarrow> bool" where
  "plain_vmmap env \<longleftrightarrow> (\<forall>es. vm_entries env = Some es \<longrightarrow> (\<forall>k \<in> set es. plain_path (kve_path k)))"

lemma plain_seed:
  assumes "plain_vmmap env" "process_exec_mmaps env = Some secs"
  shows "\<forall>s \<in> set secs. plain_path (pi_path s) \<and> pi_type s = HWT_RECORD_MMAP"
proof -
  obtain es where es: "vm_entries env = Some es"
    "secs = map mmap_section (filter kve_exec (vm_visible es))"
    using process_exec_mmaps_Some assms(2) by blast
  then show ?thesis using assms(1) vm_visible_subset [of es]
    by (auto simp: plain_vmmap_def mmap_section_def plain_path_strlcpy)
qed

lemma seed_mirrors:
  assumes "mirrors ts" "plain_vmmap env"
  shows "mirrors (snd (trace_state_seed_process_mmaps True env ts))"
proof (cases "process_exec_mmaps env")
  case None
  with assms show ?thesis by (simp add: trace_state_seed_process_mmaps_def)
next
  case (Some secs)
  note plain_seed [OF assms(2) Some]
  with seed_sections_mirrors [OF assms(1)] Some assms(1) show ?thesis
    by (auto simp: trace_state_seed_process_mmaps_def)
qed

text \<open>
  What the exec and trace commands do to the state between opening the sidecar and closing it:
  process records, and seed the mappings of an already running process.
\<close>

datatype trace_event = Ev_records "bsdtrace_record list" | Ev_seed vmmap_env

fun trace_event_step :: "trace_state \<Rightarrow> trace_event \<Rightarrow> trace_state" where
  "trace_event_step ts (Ev_records recs) = foldl (trace_state_process True) ts recs"
| "trace_event_step ts (Ev_seed env) = snd (trace_state_seed_process_mmaps True env ts)"

fun plain_event :: "trace_event \<Rightarrow> bool" where
  "plain_event (Ev_records recs) \<longleftrightarrow> (\<forall>r \<in> set recs. plain_record r)"
| "plain_event (Ev_seed env) \<longleftrightarrow> plain_vmmap env"

lemma events_mirrors:
  "mirrors ts \<Longrightarrow> \<forall>e \<in> set evs. plain_event e \<Longrightarrow> mirrors (foldl trace_event_step ts evs)"
proof (induction evs arbitrary: ts)
  case (Cons e evs)
  then show ?case by (cases e) (simp_all add: process_all_mirrors seed_mirrors)
qed simp

definition start_meta :: "int \<Rightarrow> int \<Rightarrow> u8 \<Rightarrow> u8 \<Rightarrow> meta_writer" where
  "start_meta pid tid mtc cyc =
     meta_writer_timing (meta_writer_header (meta_writer_open True) pid tid) mtc cyc"

lemma start_mirrors:
  assumes "int32 pid" "int32 tid"
  shows "mirrors (trace_state_init (start_meta pid tid mtc cyc))"
proof -
  let ?ls = "header_line pid tid # (if mtc = 0 \<and> cyc = 0 then [] else [timing_line mtc cyc])"
  have "ts_meta (trace_state_init (start_meta pid tid mtc cyc)) = Some (concat ?ls)"
    by (simp add: trace_state_init_def start_meta_def meta_writer_timing_def meta_writer_header_def
        meta_writer_open_def meta_put_def)
  then show ?thesis unfolding mirrors_def
    by (intro exI [of _ ?ls]) (simp add: trace_state_init_def read_section_line_other header_line_is_line
        assms timing_line_is_line)
qed

text \<open>
  C6. The sidecar describes exactly the sections the live decoder uses. Whatever sequence of record
  batches and process-mapping seeds a session sees after it wrote the header (and timing line), reading the
  sidecar back gives the section list held in memory, resets by EXECUTABLE records included, for
  paths that need no JSON escape and fit the reader's line buffer, and when no allocation fails.
\<close>

theorem sidecar_describes_live_sections:
  assumes "int32 pid" "int32 tid" "\<forall>e \<in> set evs. plain_event e"
    and "ts = foldl trace_event_step (trace_state_init (start_meta pid tid mtc cyc)) evs"
  shows "meta_read_sections (meta_writer_close (ts_meta ts)) = Some (ts_sections ts)"
  using events_mirrors [OF start_mirrors [OF assms(1,2)] assms(3)] assms(4)
  by (simp add: mirrors_read meta_writer_close_def)

definition sample_exec :: bsdtrace_record where
  "sample_exec = \<lparr>r_type = HWT_RECORD_EXECUTABLE, r_fullpath = ''/bin/ls'', r_addr = 0x200000,
     r_baseaddr = 0, r_buf_id = 0, r_curpage = 0, r_offset = 0, r_thread_id = 0\<rparr>"

definition sample_vmmap :: vmmap_env where
  "sample_vmmap = \<lparr>vm_size_ok = True, vm_malloc_ok = True,
     vm_entries = Some [\<lparr>kve_structsize = 1, kve_vtype = KVME_TYPE_VNODE, kve_prot_exec = True,
                         kve_path = ''/lib/libc.so.7'', kve_start = 0x800000\<rparr>],
     vm_realloc_ok = (\<lambda>_. True)\<rparr>"

lemma sample_paths_plain: "plain_path ''/bin/ls''" "plain_path ''/lib/libc.so.7''"
  by (simp_all add: plain_path_def plain_char_def)

theorem sidecar_describes_live_sections_witness:
  "let ts = foldl trace_event_step (trace_state_init (start_meta 42 7 9 0))
              [Ev_seed sample_vmmap, Ev_records [sample_exec, sample_exec\<lparr>r_type := HWT_RECORD_MMAP\<rparr>]]
   in length (ts_sections ts) = 2 \<and>
      meta_read_sections (meta_writer_close (ts_meta ts)) = Some (ts_sections ts)"
proof -
  let ?evs = "[Ev_seed sample_vmmap, Ev_records [sample_exec, sample_exec\<lparr>r_type := HWT_RECORD_MMAP\<rparr>]]"
  let ?ts = "foldl trace_event_step (trace_state_init (start_meta 42 7 9 0)) ?evs"
  have "\<forall>e \<in> set ?evs. plain_event e"
    by (simp add: plain_record_def sample_exec_def plain_vmmap_def sample_vmmap_def sample_paths_plain int32_def)
  moreover have "int32 42" "int32 7" by (simp_all add: int32_def)
  ultimately have "meta_read_sections (meta_writer_close (ts_meta ?ts)) = Some (ts_sections ?ts)"
    using sidecar_describes_live_sections [of 42 7 ?evs ?ts 9 0] by blast
  moreover have "length (ts_sections ?ts) = 2"
    by (simp add: process_sections sample_exec_def is_image_record_def)
  ultimately show ?thesis by (simp only: Let_def simp_thms)
qed

text \<open>
  The buffer extent that the BUFFER records leave behind: the wrap flag is set exactly when some
  page number came after a larger one, the highest and the last page are those of the records, and
  every OVERFLOW record is counted, whatever other records come between.
\<close>

theorem buffer_extent_of_records:
  assumes "\<forall>p \<in> set (buffer_pages recs). 0 \<le> p"
    and "ts = foldl (trace_state_process ok) (trace_state_init mw) recs"
  shows "(ts_buf_wrapped ts \<longleftrightarrow> \<not> sorted (buffer_pages recs)) \<and>
         ts_max_buf_page ts = Max (insert (- 1) (set (buffer_pages recs))) \<and>
         ts_last_buf_page ts = (if buffer_pages recs = [] then - 1 else last (buffer_pages recs)) \<and>
         ts_overflow_count ts = length (filter (\<lambda>r. r_type r = HWT_RECORD_OVERFLOW) recs)"
  using extent_of_records [OF assms] by blast

definition sample_buffer :: "int \<Rightarrow> bsdtrace_record" where
  "sample_buffer p = sample_exec\<lparr>r_type := HWT_RECORD_BUFFER, r_curpage := p\<rparr>"

theorem buffer_extent_of_records_witness:
  "let ts = foldl (trace_state_process True) (trace_state_init None)
              [sample_buffer 0, sample_exec, sample_buffer 3, sample_buffer 1]
   in ts_buf_wrapped ts \<and> ts_max_buf_page ts = 3 \<and> ts_last_buf_page ts = 1 \<and> ts_overflow_count ts = 0"
proof -
  let ?recs = "[sample_buffer 0, sample_exec, sample_buffer 3, sample_buffer 1]"
  have p: "buffer_pages ?recs = [0, 3, 1]"
    by (simp add: buffer_pages_def sample_buffer_def sample_exec_def)
  have "filter (\<lambda>r. r_type r = HWT_RECORD_OVERFLOW) ?recs = []"
    by (simp add: sample_buffer_def sample_exec_def)
  then show ?thesis
    using buffer_extent_of_records [of ?recs _ True None, OF _ refl] unfolding p Let_def by simp
qed

section \<open>Draining after the stop\<close>

definition delivered :: "(nat \<Rightarrow> bsdtrace_record list option) \<Rightarrow> nat \<Rightarrow> nat \<Rightarrow> bsdtrace_record list" where
  "delivered poll i j = concat (map (\<lambda>k. case poll k of Some r \<Rightarrow> r | None \<Rightarrow> []) [i ..< j])"

lemma delivered_step: "i < j \<Longrightarrow> poll i = Some r \<Longrightarrow> delivered poll i j = r @ delivered poll (Suc i) j"
  by (simp add: delivered_def upt_conv_Cons)

lemma delivered_empty [simp]: "delivered poll i i = []"
  by (simp add: delivered_def)

definition quiet_end :: "(nat \<Rightarrow> bsdtrace_record list option) \<Rightarrow> nat \<Rightarrow> nat \<Rightarrow> nat \<Rightarrow> bool" where
  "quiet_end poll e i j \<longleftrightarrow>
     poll j = None \<or>
     (POST_STOP_EMPTY_POLLS \<le> e + (j - i) \<and>
      (\<forall>k. i \<le> k \<and> k < j \<and> j \<le> k + POST_STOP_EMPTY_POLLS \<longrightarrow> poll k = Some []))"

lemma quiet_end_step:
  assumes "quiet_end poll e' (k + 1) j" "e' = (if recs = [] then e + 1 else 0)" "k + 1 \<le> j"
    and r: "poll k = Some recs"
  shows "quiet_end poll e k j"
proof (cases "poll j = None")
  case False
  have quiet: "POST_STOP_EMPTY_POLLS \<le> e' + (j - (k + 1))"
    "\<forall>i. k + 1 \<le> i \<and> i < j \<and> j \<le> i + POST_STOP_EMPTY_POLLS \<longrightarrow> poll i = Some []"
    using False assms(1) by (auto simp: quiet_end_def)
  have "POST_STOP_EMPTY_POLLS \<le> e + (j - k)"
    using quiet(1) assms(3) by (simp add: assms(2) split: if_splits)
  moreover have "poll i = Some []" if i: "k \<le> i" "i < j" "j \<le> i + POST_STOP_EMPTY_POLLS" for i
  proof (cases "i = k")
    case True
    then show ?thesis using quiet(1) i(3) assms(3) r by (cases "recs = []") (simp_all add: assms(2))
  next
    case False
    then show ?thesis using quiet(2) i by simp
  qed
  ultimately show ?thesis by (simp add: quiet_end_def)
qed (simp add: quiet_end_def)

lemma drain_loop_returns:
  assumes "\<forall>k \<ge> K. poll k = Some [] \<or> poll k = None" "e \<le> POST_STOP_EMPTY_POLLS"
  shows "\<exists>j \<ge> k. drain_loop poll k e n ts =
           Some (n + length (delivered poll k j), foldl (trace_state_process True) ts (delivered poll k j)) \<and>
         (\<forall>i. k \<le> i \<and> i < j \<longrightarrow> poll i \<noteq> None) \<and> quiet_end poll e k j"
  using assms(2)
proof (induction "(K - k) * (POST_STOP_EMPTY_POLLS + 1) + (POST_STOP_EMPTY_POLLS - e)"
    arbitrary: k e n ts rule: less_induct)
  case less
  note unfold_step = drain_loop.simps [of poll k e n ts]
  show ?case
  proof (cases "e < POST_STOP_EMPTY_POLLS \<and> poll k \<noteq> None")
    case False
    then show ?thesis using less.prems unfold_step
      by (intro exI [of _ k]) (auto simp: quiet_end_def)
  next
    case True
    then obtain recs where r: "poll k = Some recs" by blast
    define e' n' ts' where "e' = (if recs = [] then e + 1 else 0)" "n' = n + length recs"
      "ts' = foldl (trace_state_process True) ts recs"
    have step: "drain_loop poll k e n ts = drain_loop poll (k + 1) e' n' ts'"
      using True r unfold_step by (simp add: e'_n'_ts'_def)
    have "(K - (k + 1)) * (POST_STOP_EMPTY_POLLS + 1) + (POST_STOP_EMPTY_POLLS - e') <
          (K - k) * (POST_STOP_EMPTY_POLLS + 1) + (POST_STOP_EMPTY_POLLS - e)"
    proof (cases "recs = []")
      case True
      then have "POST_STOP_EMPTY_POLLS - e' < POST_STOP_EMPTY_POLLS - e"
        using \<open>e < POST_STOP_EMPTY_POLLS \<and> poll k \<noteq> None\<close> by (simp add: e'_n'_ts'_def diff_less_mono2)
      then show ?thesis by (intro add_le_less_mono mult_right_mono) auto
    next
      case False
      then have "K - k = Suc (K - (k + 1))" using assms(1) r by (cases "K \<le> k") auto
      then show ?thesis using False by (simp add: e'_n'_ts'_def)
    qed
    moreover have "e' \<le> POST_STOP_EMPTY_POLLS" using True by (simp add: e'_n'_ts'_def)
    ultimately obtain j where j: "k + 1 \<le> j"
      "drain_loop poll (k + 1) e' n' ts' = Some (n' + length (delivered poll (k + 1) j),
         foldl (trace_state_process True) ts' (delivered poll (k + 1) j))"
      "\<forall>i. k + 1 \<le> i \<and> i < j \<longrightarrow> poll i \<noteq> None" "quiet_end poll e' (k + 1) j"
      using less.hyps [of "k + 1" e' n' ts'] by blast
    have q: "quiet_end poll e k j"
      using quiet_end_step [OF j(4) e'_n'_ts'_def(1) j(1) r] .
    have d: "delivered poll k j = recs @ delivered poll (k + 1) j"
      using delivered_step [of k j poll recs] j(1) r by simp
    have "poll i \<noteq> None" if "k \<le> i \<and> i < j" for i
      using that j(3) r by (cases "i = k") simp_all
    then show ?thesis
      using j(1,2) q by (intro exI [of _ j] conjI) (simp_all add: step d e'_n'_ts'_def)
  qed
qed

text \<open>
  C15. The drain after the stop ends and loses nothing: once deliveries cease, the loop returns; it
  has processed every record of every poll it made, in order, and counted them; and it only gave up
  after an error of the poll or after forty empty polls in a row.
\<close>

theorem drain_post_stop_complete:
  assumes "\<forall>k \<ge> K. poll k = Some [] \<or> poll k = None"
  shows "\<exists>j. trace_state_drain_post_stop poll ts =
           Some (length (delivered poll 0 j), foldl (trace_state_process True) ts (delivered poll 0 j)) \<and>
         (\<forall>i < j. poll i \<noteq> None) \<and>
         (poll j = None \<or> (40 \<le> j \<and> (\<forall>i. i < j \<and> j \<le> i + 40 \<longrightarrow> poll i = Some [])))"
  using drain_loop_returns [OF assms, of 0 0 0 ts]
  by (auto simp: trace_state_drain_post_stop_def quiet_end_def POST_STOP_EMPTY_POLLS_def)

definition sample_poll :: "nat \<Rightarrow> bsdtrace_record list option" where
  "sample_poll k = (if k = 2 then Some [sample_buffer 5] else Some [])"

theorem drain_post_stop_complete_witness:
  "\<exists>n ts. trace_state_drain_post_stop sample_poll (trace_state_init None) = Some (n, ts)"
proof -
  have "\<forall>k \<ge> 3. sample_poll k = Some [] \<or> sample_poll k = None" by (simp add: sample_poll_def)
  from drain_post_stop_complete [OF this, of "trace_state_init None"] show ?thesis by blast
qed

end
