(* ===== verification/Elf.thy ===== *)
theory Elf
  imports Bsdtrace_Types
begin

text \<open>
  \<open>elf.c\<close>: the address arithmetic that turns HWT records and program headers into runtime
  addresses, the choice of which recorded section describes a binary, the executable segments
  handed to libipt, the interpreter lookup and the table of binary ranges.

  libelf and the file system are not part of the sources: a value of \<open>elf_env\<close> holds what they
  answer (whether \<open>elf_version\<close> accepts the library, and for a path that can be opened and begun,
  the program headers, sections and bytes that the \<open>gelf\<close> calls return, with \<open>None\<close> for a call
  that fails). \<open>pt_image_add_file\<close> of libipt is the argument \<open>add_ok\<close>.
\<close>

section \<open>What libelf answers\<close>

datatype phdr_type = PT_LOAD | PT_INTERP | PT_OTHER
datatype sh_type = SHT_NULL | SHT_SYMTAB | SHT_DYNSYM | SHT_OTHER

record gelf_phdr =
  p_type :: phdr_type
  p_flags :: u32
  p_offset :: u64
  p_vaddr :: u64
  p_filesz :: u64

record gelf_sym =
  st_is_func :: bool
  st_value :: u64
  st_size :: u64
  st_name :: "string option"

text \<open>One \<open>Elf_Data\<close>: its \<open>d_size\<close> and \<open>gelf_getsym\<close>.\<close>

type_synonym elf_data = "nat \<times> (nat \<Rightarrow> gelf_sym option)"

record elf_scn =
  sh_type :: sh_type
  sh_entsize :: nat
  scn_data :: "elf_data list"

record elf_file =
  e_phdrs :: "gelf_phdr option list option"
  e_scns :: "elf_scn option list"
  e_is_dyn :: "bool option"
  e_read :: "u64 \<Rightarrow> u64 \<Rightarrow> string option"

record elf_env =
  elf_version_ok :: bool
  open_elf :: "string \<Rightarrow> elf_file option"

definition PF_X :: u32 where "PF_X = 1"

section \<open>Address helpers\<close>

definition is_user_addr :: "u64 \<Rightarrow> bool" where
  "is_user_addr addr =
     (if addr = 0 then False else if addr \<ge> 0x0000800000000000 then False else True)"

text \<open>\<open>trunc_page\<close> of \<open>sys/param.h\<close> for 4 KB pages.\<close>

definition trunc_page :: "u64 \<Rightarrow> u64" where
  "trunc_page x = x AND NOT 0xfff"

fun first_load :: "gelf_phdr option list \<Rightarrow> u64 option" where
  "first_load [] = None"
| "first_load (None # ps) = first_load ps"
| "first_load (Some ph # ps) = (if p_type ph = PT_LOAD then Some (p_vaddr ph) else first_load ps)"

definition elf_base_vaddr :: "elf_file \<Rightarrow> u64 option" where
  "elf_base_vaddr elf = (case e_phdrs elf of None \<Rightarrow> None | Some ps \<Rightarrow> first_load ps)"

text \<open>The guard the loops over executable segments share: \<open>PT_LOAD\<close>, \<open>PF_X\<close>, a file size.\<close>

definition is_exec_seg :: "gelf_phdr \<Rightarrow> bool" where
  "is_exec_seg ph \<longleftrightarrow> p_type ph = PT_LOAD \<and> p_flags ph AND PF_X \<noteq> 0 \<and> p_filesz ph \<noteq> 0"

fun exec_map_loop :: "u64 option \<Rightarrow> gelf_phdr option list \<Rightarrow> u64 option" where
  "exec_map_loop best [] = best"
| "exec_map_loop best (None # ps) = exec_map_loop best ps"
| "exec_map_loop best (Some ph # ps) =
     (if p_type ph \<noteq> PT_LOAD then exec_map_loop best ps
      else if p_flags ph AND PF_X = 0 then exec_map_loop best ps
      else if p_filesz ph = 0 then exec_map_loop best ps
      else (case best of
              None \<Rightarrow> exec_map_loop (Some (trunc_page (p_vaddr ph))) ps
            | Some b \<Rightarrow>
                if trunc_page (p_vaddr ph) < b then exec_map_loop (Some (trunc_page (p_vaddr ph))) ps
                else exec_map_loop best ps))"

definition elf_exec_map_vaddr :: "elf_file \<Rightarrow> u64 option" where
  "elf_exec_map_vaddr elf = (case e_phdrs elf of None \<Rightarrow> None | Some ps \<Rightarrow> exec_map_loop None ps)"

fun preferred_loop :: "sh_type \<Rightarrow> elf_scn option list \<Rightarrow> sh_type" where
  "preferred_loop have_dynsym [] = have_dynsym"
| "preferred_loop have_dynsym (None # ss) = preferred_loop have_dynsym ss"
| "preferred_loop have_dynsym (Some s # ss) =
     (if sh_type s = SHT_SYMTAB then SHT_SYMTAB
      else preferred_loop (if sh_type s = SHT_DYNSYM then SHT_DYNSYM else have_dynsym) ss)"

definition elf_preferred_symtab_type :: "elf_file \<Rightarrow> sh_type" where
  "elf_preferred_symtab_type elf = preferred_loop SHT_NULL (e_scns elf)"

definition elf_effective_load_addr :: "elf_file \<Rightarrow> hwt_record_type \<Rightarrow> u64 \<Rightarrow> u64 option" where
  "elf_effective_load_addr elf type record_addr =
     (case elf_base_vaddr elf of
        None \<Rightarrow> None
      | Some base_vaddr \<Rightarrow>
          (case type of
             HWT_RECORD_EXECUTABLE \<Rightarrow>
               (if record_addr = 0 then Some base_vaddr else Some (base_vaddr + record_addr))
           | HWT_RECORD_MMAP \<Rightarrow>
               (case elf_exec_map_vaddr elf of
                  None \<Rightarrow> None
                | Some exec_map_vaddr \<Rightarrow>
                    if record_addr < exec_map_vaddr then None
                    else Some (base_vaddr + (record_addr - exec_map_vaddr)))
           | _ \<Rightarrow> Some record_addr))"

section \<open>Which recorded section describes a binary\<close>

definition section_should_use :: "pt_image_info list \<Rightarrow> nat \<Rightarrow> bool" where
  "section_should_use sections idx =
     (let sec = sections ! idx
      in if pi_path sec = [] then False
         else (case pi_type sec of
             HWT_RECORD_EXECUTABLE \<Rightarrow>
               \<not> list_ex (\<lambda>s. pi_type s = HWT_RECORD_EXECUTABLE \<and> pi_path s = pi_path sec)
                   (take idx sections)
           | HWT_RECORD_MMAP \<Rightarrow>
               \<not> list_ex (\<lambda>s. pi_type s = HWT_RECORD_EXECUTABLE \<and> pi_path s = pi_path sec) sections \<and>
               \<not> list_ex (\<lambda>i. i \<noteq> idx \<and> pi_type (sections ! i) = HWT_RECORD_MMAP \<and>
                              pi_path (sections ! i) = pi_path sec \<and>
                              (pi_load_addr (sections ! i) < pi_load_addr sec \<or>
                               pi_load_addr (sections ! i) = pi_load_addr sec \<and> i < idx))
                   [0..<length sections]
           | _ \<Rightarrow> True))"

section \<open>Executable segments for libipt\<close>

record image_seg =
  is_path :: string
  is_offset :: u64
  is_filesz :: u64
  is_vaddr :: u64

type_synonym add_result = "image_seg list \<Rightarrow> image_seg \<Rightarrow> bool"

fun add_segs_loop ::
    "add_result \<Rightarrow> string \<Rightarrow> u64 \<Rightarrow> image_seg list \<Rightarrow> nat \<Rightarrow> gelf_phdr option list \<Rightarrow> image_seg list \<times> nat" where
  "add_segs_loop add_ok path slide img added [] = (img, added)"
| "add_segs_loop add_ok path slide img added (None # ps) = add_segs_loop add_ok path slide img added ps"
| "add_segs_loop add_ok path slide img added (Some ph # ps) =
     (if \<not> is_exec_seg ph then add_segs_loop add_ok path slide img added ps
      else let seg = \<lparr>is_path = path, is_offset = p_offset ph, is_filesz = p_filesz ph,
                      is_vaddr = p_vaddr ph + slide\<rparr>
           in if add_ok img seg then add_segs_loop add_ok path slide (img @ [seg]) (added + 1) ps
              else add_segs_loop add_ok path slide img added ps)"

definition add_elf_to_image ::
    "elf_env \<Rightarrow> add_result \<Rightarrow> image_seg list \<Rightarrow> string \<Rightarrow> u64 \<Rightarrow> image_seg list \<times> nat" where
  "add_elf_to_image env add_ok img path load_addr =
     (if \<not> elf_version_ok env then (img, 0)
      else (case open_elf env path of
              None \<Rightarrow> (img, 0)
            | Some elf \<Rightarrow>
                (case elf_base_vaddr elf of
                   None \<Rightarrow> (img, 0)
                 | Some base_vaddr \<Rightarrow>
                     (case e_phdrs elf of
                        None \<Rightarrow> (img, 0)
                      | Some ps \<Rightarrow> add_segs_loop add_ok path (load_addr - base_vaddr) img 0 ps))))"

section \<open>The interpreter\<close>

fun interp_loop :: "elf_file \<Rightarrow> nat \<Rightarrow> gelf_phdr option list \<Rightarrow> string option" where
  "interp_loop elf interpsz [] = None"
| "interp_loop elf interpsz (None # ps) = interp_loop elf interpsz ps"
| "interp_loop elf interpsz (Some ph # ps) =
     (if p_type ph \<noteq> PT_INTERP then interp_loop elf interpsz ps
      else if p_filesz ph = 0 \<or> unat (p_filesz ph) \<ge> interpsz then None
      else (case e_read elf (p_offset ph) (p_filesz ph) of
              None \<Rightarrow> None
            | Some bytes \<Rightarrow>
                if length bytes \<noteq> unat (p_filesz ph) then None
                else Some (takeWhile (\<lambda>c. c \<noteq> CHR 0x00) bytes)))"

definition elf_get_interp :: "elf_env \<Rightarrow> string \<Rightarrow> nat \<Rightarrow> string option" where
  "elf_get_interp env path interpsz =
     (if \<not> elf_version_ok env then None
      else (case open_elf env path of
              None \<Rightarrow> None
            | Some elf \<Rightarrow> (case e_phdrs elf of None \<Rightarrow> None | Some ps \<Rightarrow> interp_loop elf interpsz ps)))"

text \<open>
  The block \<open>build_pt_image\<close> and \<open>build_bin_ranges\<close> share: the interpreter an EXEC section needs
  on top of its own segments, unless the interpreter has an MMAP section itself.
\<close>

definition section_interp :: "elf_env \<Rightarrow> pt_image_info list \<Rightarrow> nat \<Rightarrow> u64 \<Rightarrow> string option" where
  "section_interp env sections i load_addr =
     (let sec = sections ! i
      in if pi_type sec = HWT_RECORD_EXECUTABLE \<and> is_user_addr (pi_base_addr sec) \<and>
            pi_base_addr sec \<noteq> load_addr
         then (case elf_get_interp env (pi_path sec) MAXPATHLEN of
                 None \<Rightarrow> None
               | Some interp \<Rightarrow>
                   if list_ex (\<lambda>s. pi_type s = HWT_RECORD_MMAP \<and> pi_path s = interp) sections
                   then None else Some interp)
         else None)"

section \<open>Binary ranges\<close>

definition MAX_BIN_RANGES :: nat where "MAX_BIN_RANGES = 256"

record bin_range =
  br_name :: string
  br_lo :: u64
  br_hi :: u64
  br_base :: u64

fun range_loop ::
    "nat \<Rightarrow> string \<Rightarrow> u64 \<Rightarrow> u64 \<Rightarrow> bin_range list \<Rightarrow> gelf_phdr option list \<Rightarrow> bin_range list" where
  "range_loop maxranges name slide base ranges [] = ranges"
| "range_loop maxranges name slide base ranges (p # ps) =
     (if length ranges \<ge> maxranges then ranges
      else (case p of
              None \<Rightarrow> range_loop maxranges name slide base ranges ps
            | Some ph \<Rightarrow>
                if \<not> is_exec_seg ph then range_loop maxranges name slide base ranges ps
                else range_loop maxranges name slide base
                       (ranges @ [\<lparr>br_name = strlcpy 64 name, br_lo = p_vaddr ph + slide,
                                   br_hi = p_vaddr ph + slide + p_filesz ph, br_base = base\<rparr>]) ps))"

definition interp_ranges :: "elf_env \<Rightarrow> nat \<Rightarrow> string \<Rightarrow> u64 \<Rightarrow> bin_range list \<Rightarrow> bin_range list" where
  "interp_ranges env maxranges interp base_addr ranges =
     (case open_elf env interp of
        None \<Rightarrow> ranges
      | Some elf2 \<Rightarrow>
          (case elf_base_vaddr elf2 of
             None \<Rightarrow> ranges
           | Some interp_base \<Rightarrow>
               (case e_phdrs elf2 of
                  None \<Rightarrow> ranges
                | Some ps \<Rightarrow>
                    range_loop maxranges ''ld-elf.so.1'' (base_addr - interp_base) base_addr ranges ps)))"

definition bin_range_step :: "elf_env \<Rightarrow> pt_image_info list \<Rightarrow> nat \<Rightarrow> nat \<Rightarrow> bin_range list \<Rightarrow> bin_range list" where
  "bin_range_step env sections maxranges i ranges =
     (if \<not> section_should_use sections i then ranges
      else (case open_elf env (pi_path (sections ! i)) of
          None \<Rightarrow> ranges
        | Some elf \<Rightarrow>
            (case elf_base_vaddr elf of
               None \<Rightarrow> ranges
             | Some base_vaddr \<Rightarrow>
                 (case elf_effective_load_addr elf (pi_type (sections ! i)) (pi_load_addr (sections ! i)) of
                    None \<Rightarrow> ranges
                  | Some load_addr \<Rightarrow>
                      let ranges1 =
                            (case e_phdrs elf of
                               None \<Rightarrow> ranges
                             | Some ps \<Rightarrow>
                                 range_loop maxranges (c_basename (pi_path (sections ! i)))
                                   (load_addr - base_vaddr) load_addr ranges ps)
                      in (case section_interp env sections i load_addr of
                            None \<Rightarrow> ranges1
                          | Some interp \<Rightarrow>
                              interp_ranges env maxranges interp (pi_base_addr (sections ! i)) ranges1)))))"

fun bin_ranges_loop :: "elf_env \<Rightarrow> pt_image_info list \<Rightarrow> nat \<Rightarrow> bin_range list \<Rightarrow> nat list \<Rightarrow> bin_range list" where
  "bin_ranges_loop env sections maxranges ranges [] = ranges"
| "bin_ranges_loop env sections maxranges ranges (i # is) =
     (if length ranges \<ge> maxranges then ranges
      else bin_ranges_loop env sections maxranges (bin_range_step env sections maxranges i ranges) is)"

definition build_bin_ranges :: "elf_env \<Rightarrow> pt_image_info list \<Rightarrow> nat \<Rightarrow> bin_range list" where
  "build_bin_ranges env sections maxranges =
     (if \<not> elf_version_ok env then []
      else bin_ranges_loop env sections maxranges [] [0..<length sections])"

fun find_binary_for_ip :: "bin_range list \<Rightarrow> u64 \<Rightarrow> (string \<times> u64) option" where
  "find_binary_for_ip [] ip = None"
| "find_binary_for_ip (r # rs) ip =
     (if ip \<ge> br_lo r \<and> ip < br_hi r then Some (br_name r, ip - br_lo r)
      else find_binary_for_ip rs ip)"

section \<open>Lemmas\<close>

definition exec_segs :: "gelf_phdr option list \<Rightarrow> gelf_phdr list" where
  "exec_segs ps = filter is_exec_seg (map the (filter (\<lambda>p. p \<noteq> None) ps))"

lemma exec_segs_simps [simp]:
  "exec_segs [] = []"
  "exec_segs (None # ps) = exec_segs ps"
  "exec_segs (Some ph # ps) = (if is_exec_seg ph then ph # exec_segs ps else exec_segs ps)"
  by (simp_all add: exec_segs_def)

abbreviation seg_pages :: "gelf_phdr option list \<Rightarrow> u64 set" where
  "seg_pages ps \<equiv> (\<lambda>ph. trunc_page (p_vaddr ph)) ` set (exec_segs ps)"

lemma exec_map_loop_Some:
  "exec_map_loop (Some b) ps = Some (Min (insert b (seg_pages ps)))"
proof (induction "Some b :: u64 option" ps arbitrary: b rule: exec_map_loop.induct)
  case (3 ph ps)
  show ?case
  proof (cases "is_exec_seg ph")
    case True
    then have g: "p_type ph = PT_LOAD" "p_flags ph AND PF_X \<noteq> 0" "p_filesz ph \<noteq> 0"
      by (auto simp: is_exec_seg_def)
    let ?v = "trunc_page (p_vaddr ph)"
    have "Min (insert b (insert ?v (seg_pages ps))) = Min (insert (if ?v < b then ?v else b) (seg_pages ps))"
      by (cases "seg_pages ps = {}") (auto simp: min_def)
    with 3 g True show ?thesis by (auto simp: insert_commute)
  next
    case False
    then show ?thesis using 3 by (auto simp: is_exec_seg_def)
  qed
qed auto

lemma exec_map_loop_None:
  "exec_map_loop None ps = (if exec_segs ps = [] then None else Some (Min (seg_pages ps)))"
proof (induction ps)
  case (Cons p ps)
  then show ?case
    by (cases p) (auto simp: is_exec_seg_def exec_map_loop_Some)
qed simp

text \<open>
  \<open>elf_exec_map_vaddr\<close> finds exactly the lowest page of an executable segment: it succeeds
  when there is an executable \<open>PT_LOAD\<close> with contents, and then returns the minimum of their
  page-truncated addresses, whatever the order of the program headers.
\<close>

theorem elf_exec_map_vaddr_lowest:
  "elf_exec_map_vaddr elf =
     (case e_phdrs elf of
        None \<Rightarrow> None
      | Some ps \<Rightarrow> if exec_segs ps = [] then None else Some (Min (seg_pages ps)))"
  by (simp add: elf_exec_map_vaddr_def exec_map_loop_None split: option.split)

text \<open>
  The runtime slide recovered from a record is the right one: with the load address
  \<open>elf_effective_load_addr\<close> returns, the slide \<open>load_addr - base_vaddr\<close> that every consumer
  computes moves the lowest executable page onto the address an MMAP record reports, and equals
  the reported relocation for an EXEC record. An MMAP address below that page is refused.
\<close>

theorem elf_effective_load_addr_slide:
  assumes "elf_base_vaddr elf = Some base" "elf_effective_load_addr elf type rec_addr = Some load"
  shows "(type = HWT_RECORD_MMAP \<longrightarrow>
            (\<exists>m. elf_exec_map_vaddr elf = Some m \<and> m \<le> rec_addr \<and> m + (load - base) = rec_addr)) \<and>
         (type = HWT_RECORD_EXECUTABLE \<longrightarrow> load - base = rec_addr)"
  using assms
  by (auto simp: elf_effective_load_addr_def not_less split: if_splits option.splits hwt_record_type.splits)

definition lld_phdrs :: "gelf_phdr option list" where
  "lld_phdrs =
     [Some \<lparr>p_type = PT_LOAD, p_flags = 4, p_offset = 0, p_vaddr = 0x200000, p_filesz = 0x1000\<rparr>,
      Some \<lparr>p_type = PT_LOAD, p_flags = 5, p_offset = 0x1000, p_vaddr = 0x202440, p_filesz = 0x800\<rparr>]"

definition lld_elf :: elf_file where
  "lld_elf = \<lparr>e_phdrs = Some lld_phdrs, e_scns = [], e_is_dyn = Some False, e_read = (\<lambda>_ _. None)\<rparr>"

theorem elf_effective_load_addr_slide_witness:
  "elf_base_vaddr lld_elf = Some 0x200000 \<and>
   elf_effective_load_addr lld_elf HWT_RECORD_MMAP 0x202000 = Some 0x200000 \<and>
   (\<exists>m. elf_exec_map_vaddr lld_elf = Some m \<and> m + (0x200000 - 0x200000) = 0x202000)"
proof -
  have h: "elf_base_vaddr lld_elf = Some 0x200000"
    "elf_effective_load_addr lld_elf HWT_RECORD_MMAP 0x202000 = Some 0x200000"
    by (simp_all add: lld_elf_def lld_phdrs_def elf_base_vaddr_def elf_effective_load_addr_def
          elf_exec_map_vaddr_def PF_X_def trunc_page_def)
  show ?thesis using h elf_effective_load_addr_slide [OF h] by auto
qed

section \<open>One section per binary\<close>

lemma ex_flip:
  "(\<And>i. i \<noteq> k \<Longrightarrow> \<not> A i \<longleftrightarrow> B i) \<Longrightarrow>
   (\<exists>i < n. i \<noteq> k \<and> P i \<and> A i) \<longleftrightarrow> \<not> (\<forall>i < n. i \<noteq> k \<and> P i \<longrightarrow> B i)"
  by blast

lemma lex_flip:
  fixes a b :: u64 and i j :: nat
  shows "i \<noteq> j \<Longrightarrow> \<not> (a < b \<or> a = b \<and> i < j) \<longleftrightarrow> b < a \<or> b = a \<and> j < i"
  by auto

lemma section_should_use_mmap:
  assumes "idx < length sections" "pi_type (sections ! idx) = HWT_RECORD_MMAP"
  shows "section_should_use sections idx \<longleftrightarrow>
    pi_path (sections ! idx) \<noteq> [] \<and>
    (\<forall>s \<in> set sections. pi_path s = pi_path (sections ! idx) \<longrightarrow> pi_type s \<noteq> HWT_RECORD_EXECUTABLE) \<and>
    (\<forall>i < length sections. i \<noteq> idx \<and> pi_type (sections ! i) = HWT_RECORD_MMAP \<and>
        pi_path (sections ! i) = pi_path (sections ! idx) \<longrightarrow>
        pi_load_addr (sections ! idx) < pi_load_addr (sections ! i) \<or>
        pi_load_addr (sections ! idx) = pi_load_addr (sections ! i) \<and> idx < i)"
proof -
  let ?f = "\<lambda>i. pi_load_addr (sections ! i)"
  let ?P = "\<lambda>i. pi_type (sections ! i) = HWT_RECORD_MMAP \<and> pi_path (sections ! i) = pi_path (sections ! idx)"
  have "(\<exists>i < length sections. i \<noteq> idx \<and> ?P i \<and> (?f i < ?f idx \<or> ?f i = ?f idx \<and> i < idx)) \<longleftrightarrow>
        \<not> (\<forall>i < length sections. i \<noteq> idx \<and> ?P i \<longrightarrow> ?f idx < ?f i \<or> ?f idx = ?f i \<and> idx < i)"
    by (rule ex_flip) (rule lex_flip)
  moreover have "list_ex (\<lambda>i. i \<noteq> idx \<and> pi_type (sections ! i) = HWT_RECORD_MMAP \<and>
      pi_path (sections ! i) = pi_path (sections ! idx) \<and> (?f i < ?f idx \<or> ?f i = ?f idx \<and> i < idx))
      [0..<length sections] \<longleftrightarrow>
      (\<exists>i < length sections. i \<noteq> idx \<and> ?P i \<and> (?f i < ?f idx \<or> ?f i = ?f idx \<and> i < idx))"
    by (simp only: list_ex_iff set_upt Bex_def atLeastLessThan_iff conj_assoc le0 simp_thms)
  ultimately have use: "section_should_use sections idx \<longleftrightarrow> pi_path (sections ! idx) \<noteq> [] \<and>
     \<not> list_ex (\<lambda>s. pi_type s = HWT_RECORD_EXECUTABLE \<and> pi_path s = pi_path (sections ! idx)) sections \<and>
     (\<forall>i < length sections. i \<noteq> idx \<and> ?P i \<longrightarrow> ?f idx < ?f i \<or> ?f idx = ?f i \<and> idx < i)"
    using assms(2) by (simp only: section_should_use_def Let_def hwt_record_type.case simp_thms if_False if_True split: if_split) blast
  show ?thesis unfolding use by (simp only: list_ex_iff) blast
qed

lemma least_mapping_exists:
  fixes f :: "nat \<Rightarrow> u64"
  assumes "finite I" "I \<noteq> {}"
  shows "\<exists>i \<in> I. \<forall>j \<in> I. j \<noteq> i \<longrightarrow> f i < f j \<or> f i = f j \<and> i < j"
proof -
  let ?J = "{i \<in> I. f i = Min (f ` I)}"
  have J: "finite ?J" "?J \<noteq> {}"
    using assms Min_in [of "f ` I"] by (auto simp: image_iff)
  then have i: "Min ?J \<in> ?J" by (rule Min_in)
  have "f (Min ?J) < f j \<or> f (Min ?J) = f j \<and> Min ?J < j" if "j \<in> I" "j \<noteq> Min ?J" for j
  proof (cases "f j = Min (f ` I)")
    case True
    with that J have "Min ?J \<le> j" by (intro Min_le) auto
    with True that i show ?thesis by auto
  next
    case False
    have "Min (f ` I) \<le> f j" using assms(1) that(1) by (intro Min_le) auto
    with False i show ?thesis by auto
  qed
  with i show ?thesis by blast
qed


definition two_maps :: "pt_image_info list" where
  "two_maps =
     [\<lparr>pi_path = ''/lib/libc.so.7'', pi_load_addr = 0x9000, pi_base_addr = 0, pi_type = HWT_RECORD_MMAP\<rparr>,
      \<lparr>pi_path = ''/lib/libc.so.7'', pi_load_addr = 0x5000, pi_base_addr = 0, pi_type = HWT_RECORD_MMAP\<rparr>]"


section \<open>Ranges\<close>

lemma range_loop_eq:
  "length ranges \<le> maxranges \<Longrightarrow>
   range_loop maxranges name slide base ranges ps =
   take maxranges (ranges @ map (\<lambda>ph. \<lparr>br_name = strlcpy 64 name, br_lo = p_vaddr ph + slide,
      br_hi = p_vaddr ph + slide + p_filesz ph, br_base = base\<rparr>) (exec_segs ps))"
proof (induction maxranges name slide base ranges ps rule: range_loop.induct)
  case (2 maxranges name slide base ranges p ps)
  show ?case
  proof (cases "length ranges \<ge> maxranges")
    case False
    then show ?thesis using 2 by (cases p) auto
  qed (use 2 in auto)
qed simp

lemma find_binary_for_ip_Some:
  "find_binary_for_ip rs ip = Some (n, off) \<Longrightarrow>
   \<exists>r \<in> set rs. br_name r = n \<and> br_lo r \<le> ip \<and> ip < br_hi r \<and> off = ip - br_lo r"
  by (induction rs) (auto split: if_splits)

lemma find_binary_for_ip_None:
  "find_binary_for_ip rs ip = None \<longleftrightarrow> (\<forall>r \<in> set rs. \<not> (br_lo r \<le> ip \<and> ip < br_hi r))"
  by (induction rs) auto

end
