(* ===== verification/Symbols.thy ===== *)
theory Symbols
  imports Elf
begin

text \<open>
  \<open>symbols.c\<close>: the table that maps runtime addresses to function names, its construction from an
  ELF symbol section, its sort and the binary search that every decoder mode uses.
  \<open>st_next\<close> stands for the C heap: the next address \<open>strdup\<close> returns, so that two strings with
  equal text have different addresses, as the pointer comparisons of \<open>decode.c\<close> require.
  The lemmas show that the search never reads outside of the table, that on a sorted table it is
  the linear specification \<open>lookup_ref\<close>, and that a symbol which is not overlapped is found.
\<close>

section \<open>Model\<close>

definition SYM_INIT_CAP :: nat where "SYM_INIT_CAP = 256"

record sym_entry =
  sy_addr :: u64
  sy_size :: u64
  sy_slide :: u64
  sy_name :: cstr
  sy_binary :: cstr

record sym_table =
  st_entries :: "sym_entry list"
  st_capacity :: nat
  st_next :: nat

definition sym_table_init :: "nat \<Rightarrow> sym_table" where
  "sym_table_init heap = \<lparr>st_entries = [], st_capacity = 0, st_next = heap\<rparr>"

text \<open>\<open>ok_mem\<close> and \<open>ok_dup\<close>: whether \<open>realloc\<close> and the two \<open>strdup\<close> calls succeed.\<close>

definition sym_table_add ::
    "bool \<Rightarrow> bool \<Rightarrow> sym_table \<Rightarrow> u64 \<Rightarrow> u64 \<Rightarrow> string option \<Rightarrow> string \<Rightarrow> u64 \<Rightarrow> sym_table" where
  "sym_table_add ok_mem ok_dup st addr sz name binary slide =
     (case name of
        None \<Rightarrow> st
      | Some nm \<Rightarrow>
          if nm = [] then st
          else (case vec_reserve SYM_INIT_CAP ok_mem (length (st_entries st)) (st_capacity st) of
                  None \<Rightarrow> st
                | Some cap \<Rightarrow>
                    if ok_dup
                    then st\<lparr>st_entries := st_entries st @
                              [\<lparr>sy_addr = addr, sy_size = sz, sy_slide = slide,
                                sy_name = (st_next st, nm), sy_binary = (st_next st + 1, binary)\<rparr>],
                            st_capacity := cap, st_next := st_next st + 2\<rparr>
                    else st\<lparr>st_capacity := cap\<rparr>))"

fun add_syms_loop :: "sym_table \<Rightarrow> string \<Rightarrow> u64 \<Rightarrow> gelf_sym option list \<Rightarrow> sym_table" where
  "add_syms_loop st bn slide [] = st"
| "add_syms_loop st bn slide (None # ss) = add_syms_loop st bn slide ss"
| "add_syms_loop st bn slide (Some s # ss) =
     (if \<not> st_is_func s then add_syms_loop st bn slide ss
      else if st_value s = 0 then add_syms_loop st bn slide ss
      else add_syms_loop
             (sym_table_add True True st (st_value s + slide) (st_size s) (st_name s) bn slide)
             bn slide ss)"

definition data_syms :: "nat \<Rightarrow> elf_data \<Rightarrow> gelf_sym option list" where
  "data_syms entsize d = map (snd d) [0..<fst d div entsize]"

fun add_scns_loop :: "sh_type \<Rightarrow> sym_table \<Rightarrow> string \<Rightarrow> u64 \<Rightarrow> elf_scn option list \<Rightarrow> sym_table" where
  "add_scns_loop symtab_type st bn slide [] = st"
| "add_scns_loop symtab_type st bn slide (None # ss) = add_scns_loop symtab_type st bn slide ss"
| "add_scns_loop symtab_type st bn slide (Some s # ss) =
     (if sh_type s \<noteq> symtab_type then add_scns_loop symtab_type st bn slide ss
      else if sh_entsize s = 0 then add_scns_loop symtab_type st bn slide ss
      else add_scns_loop symtab_type
             (add_syms_loop st bn slide (concat (map (data_syms (sh_entsize s)) (scn_data s))))
             bn slide ss)"

definition sym_table_add_elf :: "elf_env \<Rightarrow> sym_table \<Rightarrow> string \<Rightarrow> u64 \<Rightarrow> sym_table" where
  "sym_table_add_elf env st path slide =
     (if \<not> elf_version_ok env then st
      else (case open_elf env path of
              None \<Rightarrow> st
            | Some elf \<Rightarrow>
                add_scns_loop (elf_preferred_symtab_type elf) st (c_basename path) slide (e_scns elf)))"

definition sym_entry_cmp :: "sym_entry \<Rightarrow> sym_entry \<Rightarrow> int" where
  "sym_entry_cmp sa sb =
     (if sy_addr sa < sy_addr sb then - 1 else if sy_addr sa > sy_addr sb then 1 else 0)"

definition sym_table_sort :: "sym_table \<Rightarrow> sym_table" where
  "sym_table_sort st =
     (if length (st_entries st) > 1 then st\<lparr>st_entries := qsort sym_entry_cmp (st_entries st)\<rparr> else st)"

text \<open>The loop of \<open>sym_table_lookup\<close>; \<open>None\<close> is a read outside of \<open>entries\<close>.\<close>

function lookup_loop :: "sym_entry list \<Rightarrow> u64 \<Rightarrow> int \<Rightarrow> int \<Rightarrow> int \<Rightarrow> int option" where
  "lookup_loop entries ip lo hi best =
     (if lo \<le> hi
      then (let mid = lo + (hi - lo) div 2
            in case arr_get entries mid of
                 None \<Rightarrow> None
               | Some e \<Rightarrow>
                   if sy_addr e \<le> ip then lookup_loop entries ip (mid + 1) hi mid
                   else lookup_loop entries ip lo (mid - 1) best)
      else Some best)"
  by pat_completeness auto
termination
  by (relation "measure (\<lambda>(entries, ip, lo, hi, best). nat (hi - lo + 1))") auto

declare lookup_loop.simps [simp del]

definition sym_covers :: "sym_entry \<Rightarrow> u64 \<Rightarrow> bool" where
  "sym_covers e ip =
     (if sy_size e > 0 then \<not> ip \<ge> sy_addr e + sy_size e else \<not> ip - sy_addr e > 4096)"

definition sym_table_lookup :: "sym_table \<Rightarrow> u64 \<Rightarrow> sym_entry option" where
  "sym_table_lookup st ip =
     (if st_entries st = [] then None
      else (case lookup_loop (st_entries st) ip 0 (int (length (st_entries st)) - 1) (- 1) of
              None \<Rightarrow> None
            | Some best \<Rightarrow>
                if best < 0 then None
                else (case arr_get (st_entries st) best of
                        None \<Rightarrow> None
                      | Some e \<Rightarrow> if sym_covers e ip then Some e else None)))"

definition sym_table_free :: "sym_table \<Rightarrow> sym_table" where
  "sym_table_free st = st\<lparr>st_entries := [], st_capacity := 0\<rparr>"

section \<open>The table as a growing array\<close>

definition push_sym :: "bool \<Rightarrow> sym_table \<Rightarrow> u64 \<times> u64 \<times> string option \<times> string \<times> u64 \<Rightarrow> sym_table" where
  "push_sym ok st = (\<lambda>(addr, sz, name, binary, slide). sym_table_add ok ok st addr sz name binary slide)"

definition sym_cell :: "sym_table \<Rightarrow> u64 \<times> u64 \<times> string option \<times> string \<times> u64 \<Rightarrow> sym_entry" where
  "sym_cell st = (\<lambda>(addr, sz, name, binary, slide).
     \<lparr>sy_addr = addr, sy_size = sz, sy_slide = slide,
      sy_name = (st_next st, the name), sy_binary = (st_next st + 1, binary)\<rparr>)"

definition sym_accept :: "u64 \<times> u64 \<times> string option \<times> string \<times> u64 \<Rightarrow> bool" where
  "sym_accept = (\<lambda>(addr, sz, name, binary, slide). name \<noteq> None \<and> name \<noteq> Some [])"

interpretation symvec: append_vec st_entries st_capacity push_sym sym_accept sym_cell
proof unfold_locales
  fix x :: "u64 \<times> u64 \<times> string option \<times> string \<times> u64" and s :: sym_table and ok :: bool
  obtain a z n b l where x: "x = (a, z, n, b, l)" by (cases x) auto
  show "st_entries (push_sym True s x) = st_entries s @ [sym_cell s x]" if "sym_accept x"
    using that unfolding x
    by (cases n) (auto simp: push_sym_def sym_accept_def sym_cell_def sym_table_add_def vec_reserve_def)
  show "push_sym ok s x = s" if "\<not> sym_accept x"
    using that unfolding x by (auto simp: push_sym_def sym_accept_def sym_table_add_def split: option.splits)
  show "st_entries (push_sym ok s x) = st_entries s \<or>
        st_entries (push_sym ok s x) = st_entries s @ [sym_cell s x]"
    unfolding x by (auto simp: push_sym_def sym_cell_def sym_table_add_def split: option.splits)
  show "length (st_entries (push_sym ok s x)) \<le> st_capacity (push_sym ok s x)"
    if "length (st_entries s) \<le> st_capacity s"
    using that unfolding x
    by (auto simp: push_sym_def sym_table_add_def SYM_INIT_CAP_def vec_reserve_def Suc_le_eq
          split: option.splits if_splits)
qed

section \<open>Sorting\<close>

interpretation symcmp: preorder_cmp sym_entry_cmp
  by unfold_locales (auto simp: sym_entry_cmp_def split: if_splits)

definition sym_sorted :: "sym_entry list \<Rightarrow> bool" where
  "sym_sorted es \<longleftrightarrow> sorted_wrt (\<lambda>a b. sy_addr a \<le> sy_addr b) es"

lemma sym_entry_cmp_le: "sym_entry_cmp a b \<le> 0 \<longleftrightarrow> sy_addr a \<le> sy_addr b"
  by (auto simp: sym_entry_cmp_def)

lemma sym_table_sort_sorted: "sym_sorted (st_entries (sym_table_sort st))"
proof (cases "length (st_entries st) > 1")
  case True
  then show ?thesis
    using symcmp.sorted_qsort [of "st_entries st"]
    by (simp add: sym_table_sort_def sym_sorted_def sym_entry_cmp_le)
next
  case False
  then show ?thesis by (cases "st_entries st") (auto simp: sym_table_sort_def sym_sorted_def)
qed

lemma sym_table_sort_mset: "mset (st_entries (sym_table_sort st)) = mset (st_entries st)"
  by (simp add: sym_table_sort_def)

lemma sym_table_sort_set: "set (st_entries (sym_table_sort st)) = set (st_entries st)"
  by (simp add: sym_table_sort_def)

section \<open>The search\<close>

lemma lookup_loop_safe:
  "0 \<le> lo \<Longrightarrow> hi < int (length es) \<Longrightarrow> - 1 \<le> best \<Longrightarrow> best < int (length es) \<Longrightarrow>
   best = - 1 \<or> sy_addr (es ! nat best) \<le> ip \<Longrightarrow>
   \<exists>b. lookup_loop es ip lo hi best = Some b \<and> - 1 \<le> b \<and> b < int (length es) \<and>
       (b = - 1 \<or> sy_addr (es ! nat b) \<le> ip)"
proof (induction es ip lo hi best rule: lookup_loop.induct)
  case (1 es ip lo hi best)
  show ?case
  proof (cases "lo \<le> hi")
    case True
    let ?mid = "lo + (hi - lo) div 2"
    have mid: "lo \<le> ?mid" "?mid \<le> hi" using True by auto
    then have get: "arr_get es ?mid = Some (es ! nat ?mid)" using 1 by simp
    show ?thesis
    proof (cases "sy_addr (es ! nat ?mid) \<le> ip")
      case c: True
      have "\<exists>b. lookup_loop es ip (?mid + 1) hi ?mid = Some b \<and> - 1 \<le> b \<and> b < int (length es) \<and>
          (b = - 1 \<or> sy_addr (es ! nat b) \<le> ip)"
        using "1.IH"(1) [OF True refl get c] "1.prems" mid c by simp
      then show ?thesis using True c get by (simp add: lookup_loop.simps [of es ip lo hi] Let_def)
    next
      case c: False
      have "\<exists>b. lookup_loop es ip lo (?mid - 1) best = Some b \<and> - 1 \<le> b \<and> b < int (length es) \<and>
          (b = - 1 \<or> sy_addr (es ! nat b) \<le> ip)"
        using "1.IH"(2) [OF True refl get c] "1.prems" mid by simp
      then show ?thesis using True c get by (simp add: lookup_loop.simps [of es ip lo hi] Let_def)
    qed
  next
    case False
    then show ?thesis using 1 by (simp add: lookup_loop.simps)
  qed
qed

text \<open>
  The binary search of \<open>sym_table_lookup\<close> is memory safe on every non-empty table, sorted or
  not: each probe is inside of \<open>entries\<close>, and the index it ends with is \<open>-1\<close> or the index of an
  entry that starts at or below the address.
\<close>

theorem sym_table_lookup_in_bounds:
  "\<exists>b. lookup_loop (st_entries st) ip 0 (int (length (st_entries st)) - 1) (- 1) = Some b \<and>
       - 1 \<le> b \<and> b < int (length (st_entries st)) \<and>
       (b = - 1 \<or> sy_addr (st_entries st ! nat b) \<le> ip)"
  by (rule lookup_loop_safe) (auto simp: not_le)

lemma sym_sorted_nth: "sym_sorted es \<Longrightarrow> i \<le> j \<Longrightarrow> j < length es \<Longrightarrow> sy_addr (es ! i) \<le> sy_addr (es ! j)"
  unfolding sym_sorted_def by (metis le_neq_implies_less order_refl sorted_wrt_nth_less)

text \<open>The split point: every entry before \<open>k\<close> starts at or below \<open>ip\<close>, every later one above.\<close>

definition split_at :: "sym_entry list \<Rightarrow> u64 \<Rightarrow> nat \<Rightarrow> bool" where
  "split_at es ip k \<longleftrightarrow> k \<le> length es \<and> (\<forall>i < k. sy_addr (es ! i) \<le> ip) \<and>
     (\<forall>i < length es. k \<le> i \<longrightarrow> ip < sy_addr (es ! i))"

lemma lookup_loop_sorted:
  "sym_sorted es \<Longrightarrow> 0 \<le> lo \<Longrightarrow> lo \<le> hi + 1 \<Longrightarrow> hi < int (length es) \<Longrightarrow> best = lo - 1 \<Longrightarrow>
   (\<forall>i < nat lo. sy_addr (es ! i) \<le> ip) \<Longrightarrow>
   (\<forall>i < length es. hi < int i \<longrightarrow> ip < sy_addr (es ! i)) \<Longrightarrow>
   \<exists>k. lookup_loop es ip lo hi best = Some (int k - 1) \<and> split_at es ip k"
proof (induction es ip lo hi best rule: lookup_loop.induct)
  case (1 es ip lo hi best)
  show ?case
  proof (cases "lo \<le> hi")
    case True
    let ?mid = "lo + (hi - lo) div 2"
    have mid: "lo \<le> ?mid" "?mid \<le> hi" using True by auto
    then have nm: "nat ?mid < length es" and get: "arr_get es ?mid = Some (es ! nat ?mid)"
      using "1.prems" by auto
    note mono = sym_sorted_nth [OF "1.prems"(1)]
    show ?thesis
    proof (cases "sy_addr (es ! nat ?mid) \<le> ip")
      case c: True
      have "\<forall>i < nat (?mid + 1). sy_addr (es ! i) \<le> ip"
      proof (intro allI impI)
        fix i assume "i < nat (?mid + 1)"
        then have "i \<le> nat ?mid" using mid "1.prems"(2) by linarith
        then show "sy_addr (es ! i) \<le> ip" using mono [OF _ nm, of i] c by simp
      qed
      then have "\<exists>k. lookup_loop es ip (?mid + 1) hi ?mid = Some (int k - 1) \<and> split_at es ip k"
        using "1.IH"(1) [OF True refl get c] "1.prems" mid by simp
      then show ?thesis using True c get by (simp add: lookup_loop.simps [of es ip lo hi] Let_def)
    next
      case c: False
      have "\<forall>i < length es. ?mid - 1 < int i \<longrightarrow> ip < sy_addr (es ! i)"
      proof (intro allI impI)
        fix i assume i: "i < length es" "?mid - 1 < int i"
        then have "nat ?mid \<le> i" by linarith
        then show "ip < sy_addr (es ! i)" using mono [of "nat ?mid" i] c i(1) by (simp add: not_le)
      qed
      then have "\<exists>k. lookup_loop es ip lo (?mid - 1) best = Some (int k - 1) \<and> split_at es ip k"
        using "1.IH"(2) [OF True refl get c] "1.prems" mid by simp
      then show ?thesis using True c get by (simp add: lookup_loop.simps [of es ip lo hi] Let_def)
    qed
  next
    case False
    then have "split_at es ip (nat lo)" using "1.prems" by (auto simp: split_at_def)
    then show ?thesis using "1.prems" False
      by (intro exI [of _ "nat lo"]) (simp add: lookup_loop.simps)
  qed
qed

lemma split_at_filter: "split_at es ip k \<Longrightarrow> filter (\<lambda>e. sy_addr e \<le> ip) es = take k es"
proof -
  assume k: "split_at es ip k"
  have "filter (\<lambda>e. sy_addr e \<le> ip) (take k es) = take k es"
    using k by (auto simp: split_at_def filter_id_conv in_set_conv_nth)
  moreover have "filter (\<lambda>e. sy_addr e \<le> ip) (drop k es) = []"
    using k by (auto simp: split_at_def filter_empty_conv in_set_conv_nth not_le)
  ultimately show ?thesis by (metis append_Nil2 append_take_drop_id filter_append)
qed

text \<open>The reference: the last entry at or below the address, if it covers the address.\<close>

definition lookup_ref :: "sym_entry list \<Rightarrow> u64 \<Rightarrow> sym_entry option" where
  "lookup_ref es ip =
     (let below = filter (\<lambda>e. sy_addr e \<le> ip) es
      in if below = [] then None
         else if sym_covers (last below) ip then Some (last below) else None)"

lemma sym_table_lookup_eq_ref:
  assumes "sym_sorted (st_entries st)"
  shows "sym_table_lookup st ip = lookup_ref (st_entries st) ip"
proof (cases "st_entries st = []")
  case True
  then show ?thesis by (simp add: sym_table_lookup_def lookup_ref_def)
next
  case False
  let ?es = "st_entries st"
  obtain k where k: "lookup_loop ?es ip 0 (int (length ?es) - 1) (- 1) = Some (int k - 1)" "split_at ?es ip k"
    using lookup_loop_sorted [OF assms, where lo = 0 and hi = "int (length ?es) - 1" and best = "- 1" and ip = ip]
    by fastforce
  show ?thesis
  proof (cases k)
    case 0
    then show ?thesis using False k split_at_filter [OF k(2)]
      by (simp add: sym_table_lookup_def lookup_ref_def)
  next
    case (Suc j)
    then have j: "j < length ?es" using k(2) by (simp add: split_at_def)
    then have "last (take k ?es) = ?es ! j" "take k ?es \<noteq> []"
      using Suc False by (auto simp: take_Suc_conv_app_nth)
    then show ?thesis using False k(1) Suc j split_at_filter [OF k(2)]
      by (simp add: sym_table_lookup_def lookup_ref_def)
  qed
qed

text \<open>
  C12. On a sorted table the binary search computes the same answer as a linear scan for the last
  symbol at or below the address, followed by the size check.
\<close>

theorem sym_table_lookup_eq_linear:
  assumes "sym_sorted (st_entries st)"
  shows "sym_table_lookup st ip = lookup_ref (st_entries st) ip"
  using assms by (rule sym_table_lookup_eq_ref)

definition two_syms :: sym_table where
  "two_syms = sym_table_add True True
     (sym_table_add True True (sym_table_init 1) 0x2000 0x40 (Some ''main'') ''prog'' 0)
     0x1000 0x20 (Some ''start'') ''prog'' 0"

lemma two_syms_sorted_eval:
  "st_entries (sym_table_sort two_syms) =
     [\<lparr>sy_addr = 0x1000, sy_size = 0x20, sy_slide = 0, sy_name = (3, ''start''), sy_binary = (4, ''prog'')\<rparr>,
      \<lparr>sy_addr = 0x2000, sy_size = 0x40, sy_slide = 0, sy_name = (1, ''main''), sy_binary = (2, ''prog'')\<rparr>]"
  by (simp add: two_syms_def sym_table_add_def sym_table_init_def vec_reserve_def SYM_INIT_CAP_def
        sym_table_sort_def qsort_def sym_entry_cmp_def)

theorem sym_table_lookup_eq_linear_witness:
  "sym_sorted (st_entries (sym_table_sort two_syms)) \<and>
   sym_table_lookup (sym_table_sort two_syms) 0x2004 = lookup_ref (st_entries (sym_table_sort two_syms)) 0x2004"
  using sym_table_sort_sorted [of two_syms]
    sym_table_lookup_eq_linear [OF sym_table_sort_sorted [of two_syms], where ip = "0x2004"] by blast

lemma sym_table_lookup_SomeD:
  assumes "sym_table_lookup st ip = Some e"
  shows "e \<in> set (st_entries st) \<and> sy_addr e \<le> ip \<and> sym_covers e ip"
proof -
  obtain b where "lookup_loop (st_entries st) ip 0 (int (length (st_entries st)) - 1) (- 1) = Some b"
    "- 1 \<le> b" "b < int (length (st_entries st))" "b = - 1 \<or> sy_addr (st_entries st ! nat b) \<le> ip"
    using lookup_loop_safe [where lo = 0 and hi = "int (length (st_entries st)) - 1" and es = "st_entries st"
        and best = "- 1" and ip = ip] assms
    by (force simp: sym_table_lookup_def split: if_splits)
  with assms show ?thesis
    by (auto simp: sym_table_lookup_def split: if_splits)
qed

lemma last_filter_split:
  "x \<in> set xs \<Longrightarrow> P x \<Longrightarrow> (\<And>y. y \<in> set xs \<Longrightarrow> P y \<Longrightarrow> y \<noteq> x \<Longrightarrow> R y x \<and> \<not> R x y) \<Longrightarrow> sorted_wrt R xs \<Longrightarrow>
   filter P xs \<noteq> [] \<and> last (filter P xs) = x"
proof (induction xs)
  case (Cons z zs)
  show ?case
  proof (cases "x \<in> set zs")
    case True
    with Cons have "filter P zs \<noteq> [] \<and> last (filter P zs) = x" by auto
    then show ?thesis by auto
  next
    case False
    then have "z = x" using Cons.prems by auto
    have "\<not> P y" if "y \<in> set zs" for y
      using Cons.prems that \<open>z = x\<close> False by (metis list.set_intros(2) sorted_wrt.simps(2))
    then have "filter P zs = []" by (simp add: filter_empty_conv)
    then show ?thesis using \<open>z = x\<close> Cons.prems by simp
  qed
qed simp

text \<open>
  Insert and lookup agree: after the table is sorted, an address inside of a symbol whose
  extent no later symbol interrupts resolves to exactly that symbol, whatever the insertion order.
\<close>

theorem sym_table_finds_symbol:
  assumes "e \<in> set (st_entries st)" "sy_addr e \<le> ip" "ip < sy_addr e + sy_size e" "0 < sy_size e"
    and "\<forall>e' \<in> set (st_entries st). e' \<noteq> e \<longrightarrow> sy_addr e' < sy_addr e \<or> ip < sy_addr e'"
  shows "sym_table_lookup (sym_table_sort st) ip = Some e"
proof -
  let ?es = "st_entries (sym_table_sort st)"
  have "filter (\<lambda>e. sy_addr e \<le> ip) ?es \<noteq> [] \<and> last (filter (\<lambda>e. sy_addr e \<le> ip) ?es) = e"
  proof (rule last_filter_split [where R = "\<lambda>a b. sy_addr a \<le> sy_addr b"])
    show "sorted_wrt (\<lambda>a b. sy_addr a \<le> sy_addr b) ?es"
      using sym_table_sort_sorted [of st] by (simp add: sym_sorted_def)
    show "e \<in> set ?es" using assms(1) by (simp add: sym_table_sort_set)
  qed (use assms in \<open>auto simp: sym_table_sort_set not_le\<close>)
  moreover have "sym_covers e ip" using assms by (simp add: sym_covers_def not_le)
  ultimately have "lookup_ref ?es ip = Some e"
    by (simp add: lookup_ref_def)
  then show ?thesis
    using sym_table_lookup_eq_ref [OF sym_table_sort_sorted] by simp
qed

theorem sym_table_finds_symbol_witness:
  "\<exists>e. sym_table_lookup (sym_table_sort two_syms) 0x2004 = Some e \<and> text_of (sy_name e) = ''main''"
proof -
  let ?e = "\<lparr>sy_addr = 0x2000, sy_size = 0x40, sy_slide = 0, sy_name = (1, ''main''), sy_binary = (2, ''prog'')\<rparr>"
  have "sym_table_lookup (sym_table_sort two_syms) 0x2004 = Some ?e"
    by (rule sym_table_finds_symbol)
      (auto simp: two_syms_def sym_table_add_def sym_table_init_def vec_reserve_def SYM_INIT_CAP_def)
  then show ?thesis by auto
qed

section \<open>What the decoder relies on\<close>

text \<open>
  The contract between the table and the consumers of decoded instructions: a lookup answers with
  an entry of the table that starts at or below the address. The names a consumer borrows
  therefore live as long as the table.
\<close>

locale symbolizer =
  fixes lookup :: "'t \<Rightarrow> u64 \<Rightarrow> sym_entry option"
    and entries :: "'t \<Rightarrow> sym_entry list"
  assumes lookup_member: "lookup t ip = Some e \<Longrightarrow> e \<in> set (entries t)"
    and lookup_below: "lookup t ip = Some e \<Longrightarrow> sy_addr e \<le> ip"
begin

definition owned_names :: "'t \<Rightarrow> cstr set" where
  "owned_names t = (sy_name ` set (entries t)) \<union> (sy_binary ` set (entries t))"

lemma lookup_borrows:
  "lookup t ip = Some e \<Longrightarrow> sy_name e \<in> owned_names t \<and> sy_binary e \<in> owned_names t"
  using lookup_member by (auto simp: owned_names_def)

lemma lookup_offset: "lookup t ip = Some e \<Longrightarrow> unat (sy_addr e) + unat (ip - sy_addr e) = unat ip"
  using lookup_below by (simp add: unat_sub word_le_nat_alt)

end

interpretation symtab: symbolizer sym_table_lookup st_entries
  by unfold_locales (auto dest: sym_table_lookup_SomeD)

end
