(* ===== verification/Image.thy ===== *)
theory Image
  imports Symbols
begin

text \<open>
  \<open>decode.c\<close>, \<open>build_pt_image\<close>: every section of the trace that is to be used is loaded into libipt's
  image and into the symbol table, an EXEC section together with its interpreter. \<open>pt_image_alloc\<close> and
  \<open>pt_image_add_file\<close> are parameters (\<open>alloc_ok\<close>, \<open>add_ok\<close>), the diagnostics on standard error are left
  out. The lemmas describe image, symbol table and binary ranges by one list, the \<open>load_plan\<close>: which
  file is loaded at which address. The three are then shown to agree.
\<close>

section \<open>Model\<close>

text \<open>Opening \<open>path\<close> for its base address and adding its symbols at the slide.\<close>

definition load_symbols :: "elf_env \<Rightarrow> string \<Rightarrow> u64 \<Rightarrow> sym_table \<Rightarrow> sym_table" where
  "load_symbols env path load_addr st =
     (case open_elf env path of
        None \<Rightarrow> st
      | Some elf \<Rightarrow>
          (case elf_base_vaddr elf of
             None \<Rightarrow> st
           | Some base_vaddr \<Rightarrow> sym_table_add_elf env st path (load_addr - base_vaddr)))"

type_synonym build_state = "image_seg list \<times> nat \<times> sym_table"

definition load_file :: "elf_env \<Rightarrow> add_result \<Rightarrow> string \<Rightarrow> u64 \<Rightarrow> build_state \<Rightarrow> build_state" where
  "load_file env add_ok path load_addr = (\<lambda>(img, tot, st).
     case add_elf_to_image env add_ok img path load_addr of
       (img', segs) \<Rightarrow> (img', tot + segs, load_symbols env path load_addr st))"

definition image_step :: "elf_env \<Rightarrow> add_result \<Rightarrow> pt_image_info list \<Rightarrow> build_state \<Rightarrow> nat \<Rightarrow> build_state" where
  "image_step env add_ok sections bs i =
     (if \<not> section_should_use sections i then bs
      else (case open_elf env (pi_path (sections ! i)) of
              None \<Rightarrow> bs
            | Some elf \<Rightarrow>
                (case elf_effective_load_addr elf (pi_type (sections ! i)) (pi_load_addr (sections ! i)) of
                   None \<Rightarrow> bs
                 | Some load_addr \<Rightarrow>
                     let bs1 = load_file env add_ok (pi_path (sections ! i)) load_addr bs
                     in (case section_interp env sections i load_addr of
                           None \<Rightarrow> bs1
                         | Some interp \<Rightarrow> load_file env add_ok interp (pi_base_addr (sections ! i)) bs1))))"

definition build_pt_image ::
  "elf_env \<Rightarrow> bool \<Rightarrow> add_result \<Rightarrow> pt_image_info list \<Rightarrow> sym_table \<Rightarrow> image_seg list option \<times> sym_table" where
  "build_pt_image env alloc_ok add_ok sections st =
     (if \<not> elf_version_ok env then (None, st)
      else if \<not> alloc_ok then (None, st)
      else (case foldl (image_step env add_ok sections) ([], 0, st) [0..<length sections] of
              (img, tot, st1) \<Rightarrow>
                if tot = 0 then (None, sym_table_sort st1) else (Some img, sym_table_sort st1)))"

section \<open>The load plan\<close>

definition section_loads :: "elf_env \<Rightarrow> pt_image_info list \<Rightarrow> nat \<Rightarrow> (string \<times> u64) list" where
  "section_loads env sections i =
     (if \<not> section_should_use sections i then []
      else (case open_elf env (pi_path (sections ! i)) of
              None \<Rightarrow> []
            | Some elf \<Rightarrow>
                (case elf_effective_load_addr elf (pi_type (sections ! i)) (pi_load_addr (sections ! i)) of
                   None \<Rightarrow> []
                 | Some load_addr \<Rightarrow>
                     (pi_path (sections ! i), load_addr) #
                     (case section_interp env sections i load_addr of
                        None \<Rightarrow> [] | Some interp \<Rightarrow> [(interp, pi_base_addr (sections ! i))]))))"

definition load_plan :: "elf_env \<Rightarrow> pt_image_info list \<Rightarrow> (string \<times> u64) list" where
  "load_plan env sections = concat (map (section_loads env sections) [0..<length sections])"

text \<open>The executable segments of a file at a load address.\<close>

definition plan_segs :: "elf_env \<Rightarrow> string \<times> u64 \<Rightarrow> image_seg list" where
  "plan_segs env pl =
     (case open_elf env (fst pl) of
        None \<Rightarrow> []
      | Some elf \<Rightarrow>
          (case elf_base_vaddr elf of
             None \<Rightarrow> []
           | Some base \<Rightarrow>
               (case e_phdrs elf of
                  None \<Rightarrow> []
                | Some ps \<Rightarrow>
                    map (\<lambda>ph. \<lparr>is_path = fst pl, is_offset = p_offset ph, is_filesz = p_filesz ph,
                               is_vaddr = p_vaddr ph + (snd pl - base)\<rparr>) (exec_segs ps))))"

lemma image_step_loads:
  "image_step env add_ok sections bs i =
   foldl (\<lambda>b (path, la). load_file env add_ok path la b) bs (section_loads env sections i)"
  by (simp add: image_step_def section_loads_def Let_def split: option.splits)

lemma foldl_concat_map: "foldl (\<lambda>s x. foldl f s (g x)) s xs = foldl f s (concat (map g xs))"
  by (induction xs arbitrary: s) auto

lemma image_fold_plan:
  "foldl (image_step env add_ok sections) bs [0..<length sections] =
   foldl (\<lambda>b (path, la). load_file env add_ok path la b) bs (load_plan env sections)"
  unfolding load_plan_def foldl_concat_map [symmetric] image_step_loads [abs_def] ..

lemma add_segs_loop_all:
  "add_segs_loop (\<lambda>_ _. True) path slide img n ps =
   (img @ map (\<lambda>ph. \<lparr>is_path = path, is_offset = p_offset ph, is_filesz = p_filesz ph,
                     is_vaddr = p_vaddr ph + slide\<rparr>) (exec_segs ps), n + length (exec_segs ps))"
proof (induction ps arbitrary: img n)
  case (Cons p ps)
  then show ?case by (cases p) (auto simp: exec_segs_def Let_def)
qed (simp add: exec_segs_def)

lemma add_elf_plan:
  assumes "elf_version_ok env"
  shows "add_elf_to_image env (\<lambda>_ _. True) img path la =
    (img @ plan_segs env (path, la), length (plan_segs env (path, la)))"
  using assms by (simp add: add_elf_to_image_def plan_segs_def add_segs_loop_all split: option.split)

lemma load_files_plan:
  assumes "elf_version_ok env"
  shows "foldl (\<lambda>b (path, la). load_file env (\<lambda>_ _. True) path la b) (img, n, st) pls =
    (img @ concat (map (plan_segs env) pls), n + length (concat (map (plan_segs env) pls)),
     foldl (\<lambda>t (path, la). load_symbols env path la t) st pls)"
proof (induction pls arbitrary: img n st)
  case (Cons pl pls)
  then show ?case by (cases pl) (simp add: load_file_def add_elf_plan [OF assms])
qed simp

lemma build_pt_image_plan:
  assumes "build_pt_image env True (\<lambda>_ _. True) sections st = (Some img, st')"
  shows "elf_version_ok env" "img = concat (map (plan_segs env) (load_plan env sections))"
    "st' = sym_table_sort (foldl (\<lambda>t (path, la). load_symbols env path la t) st (load_plan env sections))"
proof -
  show ok: "elf_version_ok env" using assms by (auto simp: build_pt_image_def split: if_splits)
  show "img = concat (map (plan_segs env) (load_plan env sections))"
    "st' = sym_table_sort (foldl (\<lambda>t (path, la). load_symbols env path la t) st (load_plan env sections))"
    using assms ok
    by (auto simp: build_pt_image_def image_fold_plan load_files_plan [OF ok] split: if_splits)
qed

section \<open>Binary ranges and image\<close>

abbreviation seg_bounds :: "image_seg \<Rightarrow> u64 \<times> u64" where
  "seg_bounds s \<equiv> (is_vaddr s, is_vaddr s + is_filesz s)"

abbreviation range_bounds :: "bin_range \<Rightarrow> u64 \<times> u64" where
  "range_bounds r \<equiv> (br_lo r, br_hi r)"

lemma effective_base: "elf_effective_load_addr elf t a = Some la \<Longrightarrow> \<exists>b. elf_base_vaddr elf = Some b"
  by (auto simp: elf_effective_load_addr_def split: option.splits)

lemma range_loop_bounds:
  assumes "length ranges \<le> maxr"
  shows "map range_bounds (range_loop maxr name slide base ranges ps) =
    take maxr (map range_bounds ranges @ map (\<lambda>ph. (p_vaddr ph + slide, p_vaddr ph + slide + p_filesz ph)) (exec_segs ps))"
  unfolding range_loop_eq [OF assms] by (simp add: take_map [symmetric] comp_def)

lemma range_loop_length: "length ranges \<le> maxr \<Longrightarrow> length (range_loop maxr name slide base ranges ps) \<le> maxr"
  by (simp add: range_loop_eq)

lemma interp_ranges_bounds:
  assumes "length ranges \<le> maxr"
  shows "map range_bounds (interp_ranges env maxr interp la ranges) =
    take maxr (map range_bounds ranges @ map seg_bounds (plan_segs env (interp, la)))"
  using assms by (auto simp: interp_ranges_def plan_segs_def range_loop_bounds comp_def split: option.split)

lemma take_take_append: "take n (take n xs @ ys) = take n (xs @ ys)"
  by (cases "n \<le> length xs") auto

lemma bin_range_step_bounds:
  assumes "length ranges \<le> maxr"
  shows "map range_bounds (bin_range_step env sections maxr i ranges) =
    take maxr (map range_bounds ranges @ map seg_bounds (concat (map (plan_segs env) (section_loads env sections i))))"
proof (cases "section_loads env sections i")
  case Nil
  then show ?thesis using assms
    by (auto simp: bin_range_step_def section_loads_def split: if_splits option.splits)
next
  case (Cons pl pls)
  then obtain elf la where e: "section_should_use sections i" "open_elf env (pi_path (sections ! i)) = Some elf"
    "elf_effective_load_addr elf (pi_type (sections ! i)) (pi_load_addr (sections ! i)) = Some la"
    "pl = (pi_path (sections ! i), la)"
    "pls = (case section_interp env sections i la of None \<Rightarrow> [] | Some p \<Rightarrow> [(p, pi_base_addr (sections ! i))])"
    by (auto simp: section_loads_def split: if_splits option.splits)
  obtain b where b: "elf_base_vaddr elf = Some b" using effective_base [OF e(3)] by auto
  define r1 where "r1 = (case e_phdrs elf of None \<Rightarrow> ranges
    | Some ps \<Rightarrow> range_loop maxr (c_basename (pi_path (sections ! i))) (la - b) la ranges ps)"
  have r1: "map range_bounds r1 = take maxr (map range_bounds ranges @ map seg_bounds (plan_segs env pl))"
    "length r1 \<le> maxr"
    using assms e(2) b
    by (auto simp: r1_def e(4) plan_segs_def range_loop_bounds range_loop_length comp_def split: option.split)
  have st: "bin_range_step env sections maxr i ranges =
      (case section_interp env sections i la of None \<Rightarrow> r1
       | Some p \<Rightarrow> interp_ranges env maxr p (pi_base_addr (sections ! i)) r1)"
    using e b by (simp add: bin_range_step_def r1_def Let_def cong: option.case_cong)
  show ?thesis
    using r1 by (cases "section_interp env sections i la")
      (auto simp: st Cons e(5) interp_ranges_bounds take_take_append simp del: take_append)
qed

lemma bin_ranges_loop_bounds:
  assumes "length ranges \<le> maxr"
  shows "map range_bounds (bin_ranges_loop env sections maxr ranges is) =
    take maxr (map range_bounds ranges @
      map seg_bounds (concat (map (plan_segs env) (concat (map (section_loads env sections) is)))))"
  using assms
proof (induction "is" arbitrary: ranges)
  case (Cons i js)
  have st: "map range_bounds (bin_range_step env sections maxr i ranges) =
    take maxr (map range_bounds ranges @ map seg_bounds (concat (map (plan_segs env) (section_loads env sections i))))"
    using bin_range_step_bounds [OF Cons.prems] .
  have "length (bin_range_step env sections maxr i ranges) \<le> maxr"
    using arg_cong [OF st, of length] by simp
  note ih = Cons.IH [OF this]
  show ?case
  proof (cases "length ranges \<ge> maxr")
    case True
    then show ?thesis using Cons.prems by simp
  next
    case False
    then show ?thesis using ih by (simp add: st take_take_append del: take_append)
  qed
qed simp

lemma build_bin_ranges_bounds:
  assumes "elf_version_ok env"
  shows "map range_bounds (build_bin_ranges env sections maxr) =
    take maxr (map seg_bounds (concat (map (plan_segs env) (load_plan env sections))))"
  using assms bin_ranges_loop_bounds [of "[]" maxr env sections "[0..<length sections]"]
  by (simp add: build_bin_ranges_def load_plan_def)

text \<open>
  C21. The two address maps of the decoder agree. \<open>build_pt_image\<close> and \<open>build_bin_ranges\<close> walk the
  sections independently, yet when libipt accepts the segments the ranges are, in order, exactly the
  first 256 segments of the image; so unless there are more, an address without a symbol is
  attributed to a binary exactly when libipt has an executable segment there.
\<close>

theorem image_and_ranges_agree:
  assumes "build_pt_image env True (\<lambda>_ _. True) sections st = (Some img, st')"
  shows "map (\<lambda>r. (br_lo r, br_hi r)) (build_bin_ranges env sections MAX_BIN_RANGES) =
           take 256 (map (\<lambda>s. (is_vaddr s, is_vaddr s + is_filesz s)) img) \<and>
         (length img \<le> 256 \<longrightarrow>
           (find_binary_for_ip (build_bin_ranges env sections MAX_BIN_RANGES) ip \<noteq> None) =
           list_ex (\<lambda>s. is_vaddr s \<le> ip \<and> ip < is_vaddr s + is_filesz s) img)"
proof -
  note p = build_pt_image_plan [OF assms]
  let ?rs = "build_bin_ranges env sections MAX_BIN_RANGES"
  have m: "map range_bounds ?rs = take 256 (map seg_bounds img)"
    using build_bin_ranges_bounds [OF p(1)] p(2) by (simp add: MAX_BIN_RANGES_def)
  have "(find_binary_for_ip ?rs ip \<noteq> None) = list_ex (\<lambda>(lo, hi). lo \<le> ip \<and> ip < hi) (map range_bounds ?rs)"
    unfolding find_binary_for_ip_None by (auto simp: list_ex_iff)
  then have "(find_binary_for_ip ?rs ip \<noteq> None) = list_ex (\<lambda>(lo, hi). lo \<le> ip \<and> ip < hi) (map seg_bounds img)"
    if "length img \<le> 256" using that m by simp
  then show ?thesis using m by (auto simp: list_ex_iff)
qed

text \<open>A program of one segment without an interpreter.\<close>

definition one_elf :: elf_file where
  "one_elf = \<lparr>e_phdrs = Some [Some \<lparr>p_type = PT_LOAD, p_flags = 5, p_offset = 0, p_vaddr = 0x1000, p_filesz = 0x100\<rparr>],
     e_scns = [], e_is_dyn = Some True, e_read = (\<lambda>_ _. None)\<rparr>"

definition one_env :: elf_env where
  "one_env = \<lparr>elf_version_ok = True, open_elf = (\<lambda>p. if p = ''/bin/a'' then Some one_elf else None)\<rparr>"

definition one_section :: "pt_image_info list" where
  "one_section = [\<lparr>pi_path = ''/bin/a'', pi_load_addr = 0x20000, pi_base_addr = 0, pi_type = HWT_RECORD_EXECUTABLE\<rparr>]"

lemma one_build:
  "build_pt_image one_env True (\<lambda>_ _. True) one_section (sym_table_init 0) =
   (Some [\<lparr>is_path = ''/bin/a'', is_offset = 0, is_filesz = 0x100, is_vaddr = 0x21000\<rparr>], sym_table_init 0)"
  by (simp add: build_pt_image_def image_step_def one_env_def one_section_def one_elf_def section_should_use_def
      elf_effective_load_addr_def elf_base_vaddr_def load_file_def add_elf_to_image_def is_exec_seg_def
      load_symbols_def sym_table_add_elf_def section_interp_def PF_X_def sym_table_sort_def sym_table_init_def
      is_user_addr_def Let_def)

theorem image_and_ranges_agree_witness:
  "map (\<lambda>r. (br_lo r, br_hi r)) (build_bin_ranges one_env one_section MAX_BIN_RANGES) = [(0x21000, 0x21100)]"
  using image_and_ranges_agree [OF one_build, of 0] by simp

section \<open>Symbols and image\<close>

text \<open>\<open>e\<close> is the table entry of the function symbol \<open>s\<close> of the file \<open>path\<close>, moved by \<open>slide\<close>.\<close>

definition entry_of :: "string \<Rightarrow> u64 \<Rightarrow> gelf_sym \<Rightarrow> sym_entry \<Rightarrow> bool" where
  "entry_of path slide s e \<longleftrightarrow>
     st_is_func s \<and> st_value s \<noteq> 0 \<and> sy_addr e = st_value s + slide \<and> sy_size e = st_size s \<and>
     sy_slide e = slide \<and> st_name s = Some (text_of (sy_name e)) \<and> text_of (sy_binary e) = c_basename path"

definition scn_symbols :: "elf_scn \<Rightarrow> gelf_sym option list" where
  "scn_symbols sc = concat (map (data_syms (sh_entsize sc)) (scn_data sc))"

definition elf_symbols :: "elf_file \<Rightarrow> gelf_sym list" where
  "elf_symbols elf =
     List.map_filter id (concat (map scn_symbols
       (filter (\<lambda>sc. sh_type sc = elf_preferred_symtab_type elf) (List.map_filter id (e_scns elf)))))"

lemma set_map_filter_id: "s \<in> set (List.map_filter id xs) \<longleftrightarrow> Some s \<in> set xs"
  by (induction xs) (auto split: option.splits)

lemma table_add_entries:
  "set (st_entries (sym_table_add True True st a z n b l)) \<subseteq>
   set (st_entries st) \<union> {e. sy_addr e = a \<and> sy_size e = z \<and> sy_slide e = l \<and> n = Some (text_of (sy_name e)) \<and>
     text_of (sy_binary e) = b}"
  by (auto simp: sym_table_add_def split: option.splits if_splits)

lemma add_syms_entries:
  "e \<in> set (st_entries (add_syms_loop st (c_basename path) slide ss)) \<Longrightarrow>
   e \<in> set (st_entries st) \<or> (\<exists>s. Some s \<in> set ss \<and> entry_of path slide s e)"
proof (induction st "c_basename path" slide ss rule: add_syms_loop.induct)
  case (3 st slide s ss)
  then show ?case using table_add_entries by (fastforce simp: entry_of_def split: if_splits)
qed auto

lemma add_scns_entries:
  "e \<in> set (st_entries (add_scns_loop ty st (c_basename path) slide scs)) \<Longrightarrow>
   e \<in> set (st_entries st) \<or>
   (\<exists>sc s. Some sc \<in> set scs \<and> sh_type sc = ty \<and> Some s \<in> set (scn_symbols sc) \<and> entry_of path slide s e)"
proof (induction ty st "c_basename path" slide scs rule: add_scns_loop.induct)
  case (3 ty st slide sc scs)
  show ?case
  proof (cases "sh_type sc = ty \<and> sh_entsize sc \<noteq> 0")
    case True
    let ?st = "add_syms_loop st (c_basename path) slide (scn_symbols sc)"
    have "e \<in> set (st_entries ?st) \<or>
        (\<exists>sc s. Some sc \<in> set scs \<and> sh_type sc = ty \<and> Some s \<in> set (scn_symbols sc) \<and> entry_of path slide s e)"
      using 3 True by (auto simp: scn_symbols_def)
    then show ?thesis using add_syms_entries [of e st path slide "scn_symbols sc"] True by auto
  next
    case False
    then have "e \<in> set (st_entries (add_scns_loop ty st (c_basename path) slide scs))"
      using "3.prems" by (cases "sh_type sc = ty") auto
    with False 3 have "e \<in> set (st_entries st) \<or>
        (\<exists>sc s. Some sc \<in> set scs \<and> sh_type sc = ty \<and> Some s \<in> set (scn_symbols sc) \<and> entry_of path slide s e)"
      by blast
    then show ?thesis by auto
  qed
qed auto

definition plan_entry :: "elf_env \<Rightarrow> string \<times> u64 \<Rightarrow> sym_entry \<Rightarrow> bool" where
  "plan_entry env pl e \<longleftrightarrow>
     (\<exists>elf base s. open_elf env (fst pl) = Some elf \<and> elf_base_vaddr elf = Some base \<and> s \<in> set (elf_symbols elf) \<and>
        entry_of (fst pl) (snd pl - base) s e)"

lemma load_symbols_entries:
  assumes "e \<in> set (st_entries (load_symbols env path la st))"
  shows "e \<in> set (st_entries st) \<or> plan_entry env (path, la) e"
proof (cases "e \<in> set (st_entries st)")
  case False
  then obtain elf base where eb: "open_elf env path = Some elf" "elf_base_vaddr elf = Some base"
    "e \<in> set (st_entries (add_scns_loop (elf_preferred_symtab_type elf) st (c_basename path) (la - base) (e_scns elf)))"
    using assms by (auto simp: load_symbols_def sym_table_add_elf_def split: option.splits if_splits)
  from add_scns_entries [OF eb(3)] False obtain sc s where
    sc: "Some sc \<in> set (e_scns elf)" "sh_type sc = elf_preferred_symtab_type elf"
    "Some s \<in> set (scn_symbols sc)" "entry_of path (la - base) s e" by auto
  then have "s \<in> set (elf_symbols elf)" by (auto simp: elf_symbols_def set_map_filter_id)
  then show ?thesis using eb sc(4) by (auto simp: plan_entry_def)
qed simp

lemma plan_entries:
  "e \<in> set (st_entries (foldl (\<lambda>t (path, la). load_symbols env path la t) st pls)) \<Longrightarrow>
   e \<in> set (st_entries st) \<or> (\<exists>pl \<in> set pls. plan_entry env pl e)"
proof (induction pls arbitrary: st)
  case (Cons pl pls)
  obtain path la where pl: "pl = (path, la)" by (cases pl)
  have "e \<in> set (st_entries (load_symbols env path la st)) \<or> (\<exists>pl \<in> set pls. plan_entry env pl e)"
    using Cons.IH [of "load_symbols env path la st"] Cons.prems by (simp add: pl)
  then show ?case using load_symbols_entries [of e env path la st] by (auto simp: pl)
qed simp

text \<open>
  C22. Symbols and code are relocated together. Every entry of the symbol table that \<open>build_pt_image\<close>
  leaves is a function symbol of a file it loaded, moved by a slide at which every executable segment
  of that same file is in the image: an address keeps its distance to the symbol under relocation.
\<close>

theorem symbols_relocated_with_image:
  assumes "build_pt_image env True (\<lambda>_ _. True) sections (sym_table_init heap) = (Some img, st')"
    and "e \<in> set (st_entries st')"
  shows "\<exists>path elf s. open_elf env path = Some elf \<and> s \<in> set (elf_symbols elf) \<and> entry_of path (sy_slide e) s e \<and>
           (\<forall>ph \<in> set (exec_segs (the (e_phdrs elf))).
              \<lparr>is_path = path, is_offset = p_offset ph, is_filesz = p_filesz ph,
               is_vaddr = p_vaddr ph + sy_slide e\<rparr> \<in> set img)"
proof -
  note p = build_pt_image_plan [OF assms(1)]
  let ?st = "foldl (\<lambda>t (path, la). load_symbols env path la t) (sym_table_init heap) (load_plan env sections)"
  have "e \<in> set (st_entries ?st)" using assms(2) by (simp add: p(3) sym_table_sort_def split: if_splits)
  from plan_entries [OF this] obtain path la elf base s where w: "(path, la) \<in> set (load_plan env sections)"
    "open_elf env path = Some elf" "elf_base_vaddr elf = Some base" "s \<in> set (elf_symbols elf)"
    "entry_of path (la - base) s e" by (auto simp: sym_table_init_def plan_entry_def)
  then have sl: "sy_slide e = la - base" by (simp add: entry_of_def)
  obtain ps where ps: "e_phdrs elf = Some ps" using w(3) by (auto simp: elf_base_vaddr_def split: option.splits)
  have "set (plan_segs env (path, la)) \<subseteq> set img" using w(1) by (auto simp: p(2))
  then have "\<forall>ph \<in> set (exec_segs ps). \<lparr>is_path = path, is_offset = p_offset ph, is_filesz = p_filesz ph,
      is_vaddr = p_vaddr ph + sy_slide e\<rparr> \<in> set img"
    using w(2,3) by (auto simp: plan_segs_def ps sl)
  then show ?thesis using w sl ps by (intro exI [of _ path] exI [of _ elf] exI [of _ s]) simp
qed

definition func_elf :: elf_file where
  "func_elf = one_elf\<lparr>e_scns := [Some \<lparr>sh_type = SHT_SYMTAB, sh_entsize = 24, scn_data =
     [(24, \<lambda>i. Some \<lparr>st_is_func = True, st_value = 0x1010, st_size = 8, st_name = Some ''main''\<rparr>)]\<rparr>]\<rparr>"

definition func_env :: elf_env where
  "func_env = \<lparr>elf_version_ok = True, open_elf = (\<lambda>p. if p = ''/bin/a'' then Some func_elf else None)\<rparr>"

definition sym_main :: sym_entry where
  "sym_main = \<lparr>sy_addr = 0x21010, sy_size = 8, sy_slide = 0x20000, sy_name = (0, ''main''), sy_binary = (1, ''a'')\<rparr>"

lemma func_build:
  "build_pt_image func_env True (\<lambda>_ _. True) one_section (sym_table_init 0) =
   (Some [\<lparr>is_path = ''/bin/a'', is_offset = 0, is_filesz = 0x100, is_vaddr = 0x21000\<rparr>],
    \<lparr>st_entries = [sym_main], st_capacity = 256, st_next = 2\<rparr>)"
  by (simp add: build_pt_image_def image_step_def func_env_def one_section_def func_elf_def one_elf_def
      section_should_use_def elf_effective_load_addr_def elf_base_vaddr_def load_file_def add_elf_to_image_def
      is_exec_seg_def load_symbols_def sym_table_add_elf_def section_interp_def PF_X_def sym_table_sort_def
      sym_table_init_def is_user_addr_def elf_preferred_symtab_type_def data_syms_def sym_table_add_def
      vec_reserve_def SYM_INIT_CAP_def c_basename_def sym_main_def Let_def)

theorem symbols_relocated_with_image_witness:
  "\<exists>path elf s. open_elf func_env path = Some elf \<and> s \<in> set (elf_symbols elf) \<and> entry_of path 0x20000 s sym_main"
proof -
  have "sym_main \<in> set (st_entries \<lparr>st_entries = [sym_main], st_capacity = 256, st_next = 2\<rparr>)" by simp
  from symbols_relocated_with_image [OF func_build this] show ?thesis by (auto simp: sym_main_def)
qed

end
