(* ===== verification/Dwarf.thy ===== *)
theory Dwarf
  imports Bsdtrace_Types
begin

text \<open>
  \<open>dwarf.c\<close>: the cache of opened debug handles and the search for the source line of an address.
  libdwarf and the file system are not part of the sources: \<open>dwarf_env\<close> is what \<open>open\<close> and
  \<open>dwarf_init\<close> answer for a path, and a handle is the sequence of compilation units that
  \<open>dwarf_next_cu_header_c\<close> visits, each with the rows of its line table (\<open>None\<close> when
  \<open>dwarf_siblingof_b\<close> or \<open>dwarf_srclines\<close> fails and the unit is skipped).
  The open file descriptors are part of the state, so that leaks are visible.
\<close>

section \<open>Model\<close>

record dwarf_line =
  dl_addr :: "u64 option"
  dl_src :: "string option"
  dl_lineno :: "u64 option"

type_synonym dwarf_cu = "dwarf_line list option"

record dwarf_env =
  dw_open :: "string \<Rightarrow> int option"
  dw_init :: "string \<Rightarrow> dwarf_cu list option"

record dwarf_cache =
  dc_path :: string
  dc_dbg :: "dwarf_cu list"
  dc_fd :: int
  dc_slide :: u64

record dwarf_state =
  ds_caches :: "dwarf_cache list"
  ds_fds :: "int list"

definition MAX_DWARF_CACHES :: nat where "MAX_DWARF_CACHES = 32"

definition dwarf_state_init :: dwarf_state where
  "dwarf_state_init = \<lparr>ds_caches = [], ds_fds = []\<rparr>"

definition dwarf_cache_open ::
  "dwarf_env \<Rightarrow> dwarf_state \<Rightarrow> string \<Rightarrow> u64 \<Rightarrow> dwarf_cache option \<times> dwarf_state" where
  "dwarf_cache_open env ds binary_path slide =
     (case find (\<lambda>dc. dc_path dc = binary_path) (ds_caches ds) of
        Some dc \<Rightarrow> (Some dc, ds)
      | None \<Rightarrow>
          if length (ds_caches ds) \<ge> MAX_DWARF_CACHES then (None, ds)
          else (case dw_open env binary_path of
                  None \<Rightarrow> (None, ds)
                | Some fd \<Rightarrow>
                    let fds = fd # ds_fds ds
                    in (case dw_init env binary_path of
                          None \<Rightarrow> (None, ds\<lparr>ds_fds := remove1 fd fds\<rparr>)
                        | Some dbg \<Rightarrow>
                            let dc = \<lparr>dc_path = strlcpy MAXPATHLEN binary_path, dc_dbg = dbg, dc_fd = fd,
                                      dc_slide = slide\<rparr>
                            in (Some dc, ds\<lparr>ds_caches := ds_caches ds @ [dc], ds_fds := fds\<rparr>))))"

text \<open>The best row so far: found, \<open>global_best_addr\<close>, \<open>global_best_file\<close>, \<open>global_best_line\<close>.\<close>

record line_best =
  lb_found :: bool
  lb_addr :: u64
  lb_file :: string
  lb_line :: int

definition best_init :: line_best where
  "best_init = \<lparr>lb_found = False, lb_addr = 0, lb_file = [], lb_line = 0\<rparr>"

definition line_step :: "u64 \<Rightarrow> line_best \<Rightarrow> dwarf_line \<Rightarrow> line_best" where
  "line_step file_addr b l =
     (case dl_addr l of
        None \<Rightarrow> b
      | Some lineaddr \<Rightarrow>
          if lineaddr \<le> file_addr \<and> lineaddr > lb_addr b
          then \<lparr>lb_found = True, lb_addr = lineaddr,
                lb_file = (case dl_src l of None \<Rightarrow> lb_file b | Some src \<Rightarrow> strlcpy MAXPATHLEN src),
                lb_line = (case dl_lineno l of None \<Rightarrow> lb_line b | Some n \<Rightarrow> to_int32 (uint n))\<rparr>
          else b)"

fun cu_step :: "u64 \<Rightarrow> line_best \<Rightarrow> dwarf_cu \<Rightarrow> line_best" where
  "cu_step file_addr b None = b"
| "cu_step file_addr b (Some lines) = foldl (line_step file_addr) b lines"

definition dwarf_addr_to_line :: "dwarf_cache option \<Rightarrow> u64 \<Rightarrow> nat \<Rightarrow> (string \<times> int) option" where
  "dwarf_addr_to_line dco addr filesz =
     (case dco of
        None \<Rightarrow> None
      | Some dc \<Rightarrow>
          let file_addr = addr - dc_slide dc;
              b = foldl (cu_step file_addr) best_init (dc_dbg dc)
          in if lb_found b \<and> file_addr - lb_addr b < 64
             then Some (strlcpy filesz (lb_file b), lb_line b) else None)"

definition dwarf_cache_close_all :: "dwarf_state \<Rightarrow> dwarf_state" where
  "dwarf_cache_close_all ds =
     \<lparr>ds_caches = [],
      ds_fds = foldl (\<lambda>fds dc. if dc_fd dc \<ge> 0 then remove1 (dc_fd dc) fds else fds)
                 (ds_fds ds) (ds_caches ds)\<rparr>"

section \<open>The cache\<close>

text \<open>Exactly the descriptors of the cached handles are open, and paths fit.\<close>

definition dwarf_inv :: "dwarf_state \<Rightarrow> bool" where
  "dwarf_inv ds \<longleftrightarrow>
     mset (ds_fds ds) = mset (map dc_fd (ds_caches ds)) \<and>
     (\<forall>dc \<in> set (ds_caches ds). 0 \<le> dc_fd dc) \<and>
     length (ds_caches ds) \<le> MAX_DWARF_CACHES"

definition fds_valid :: "dwarf_env \<Rightarrow> bool" where
  "fds_valid env \<longleftrightarrow> (\<forall>p fd. dw_open env p = Some fd \<longrightarrow> 0 \<le> fd)"

lemma dwarf_inv_init [inv_rules]: "dwarf_inv dwarf_state_init"
  by (simp add: dwarf_inv_def dwarf_state_init_def)

lemma dwarf_inv_open [inv_rules]:
  "dwarf_inv ds \<Longrightarrow> fds_valid env \<Longrightarrow> dwarf_inv (snd (dwarf_cache_open env ds p slide))"
  by (auto simp: dwarf_inv_def dwarf_cache_open_def fds_valid_def Let_def split: option.splits)

lemma close_fold:
  "\<forall>dc \<in> set cs. 0 \<le> dc_fd dc \<Longrightarrow> mset fds = mset (map dc_fd cs) + M \<Longrightarrow>
   mset (foldl (\<lambda>fds dc. if dc_fd dc \<ge> 0 then remove1 (dc_fd dc) fds else fds) fds cs) = M"
  by (induction cs arbitrary: fds) simp_all

lemma close_all_empty: "dwarf_inv ds \<Longrightarrow> ds_fds (dwarf_cache_close_all ds) = []"
  using close_fold [of "ds_caches ds" "ds_fds ds" "{#}"]
  by (simp add: dwarf_inv_def dwarf_cache_close_all_def)

text \<open>
  No debug handle leaks: after any sequence of lookups through the cache, successful or not, the
  final close leaves no file descriptor open, and the cache never exceeds its 32 slots. (\<open>open\<close>
  returns a non-negative descriptor when it succeeds.)
\<close>

theorem dwarf_cache_no_leak:
  assumes "fds_valid env"
    and "ds = foldl (\<lambda>ds (p, slide). snd (dwarf_cache_open env ds p slide)) dwarf_state_init opens"
  shows "ds_fds (dwarf_cache_close_all ds) = [] \<and> length (ds_caches ds) \<le> 32"
proof -
  have "dwarf_inv (foldl (\<lambda>ds (p, slide). snd (dwarf_cache_open env ds p slide)) ds0 opens)"
    if "dwarf_inv ds0" for ds0
    using that
  proof (induction opens arbitrary: ds0)
    case (Cons o1 opens)
    then show ?case using assms(1) by (cases o1) (simp add: dwarf_inv_open)
  qed simp
  then have "dwarf_inv ds" using assms(2) dwarf_inv_init by blast
  then show ?thesis by (simp add: close_all_empty dwarf_inv_def MAX_DWARF_CACHES_def)
qed

definition sample_dwarf_env :: dwarf_env where
  "sample_dwarf_env = \<lparr>dw_open = (\<lambda>p. if p = ''/bin/a'' then Some 5 else if p = ''/bin/b'' then Some 6 else None),
     dw_init = (\<lambda>p. if p = ''/bin/a'' then Some [] else None)\<rparr>"

theorem dwarf_cache_no_leak_witness:
  "ds_fds (dwarf_cache_close_all (foldl (\<lambda>ds (p, slide). snd (dwarf_cache_open sample_dwarf_env ds p slide))
     dwarf_state_init [(''/bin/a'', 0), (''/bin/b'', 0), (''/bin/a'', 0)])) = []"
proof -
  have "fds_valid sample_dwarf_env" by (simp add: fds_valid_def sample_dwarf_env_def)
  from dwarf_cache_no_leak [OF this refl] show ?thesis by blast
qed

section \<open>The line search\<close>

definition cu_rows :: "dwarf_cu list \<Rightarrow> dwarf_line list" where
  "cu_rows cus = concat (map (\<lambda>c. case c of None \<Rightarrow> [] | Some ls \<Rightarrow> ls) cus)"

lemma cu_fold_rows: "foldl (cu_step fa) b cus = foldl (line_step fa) b (cu_rows cus)"
proof (induction cus arbitrary: b)
  case (Cons c cus)
  then show ?case by (cases c) (simp_all add: cu_rows_def)
qed (simp add: cu_rows_def)

text \<open>A row can be chosen when it has an address in \<open>(0, fa]\<close>.\<close>

definition row_below :: "u64 \<Rightarrow> dwarf_line \<Rightarrow> bool" where
  "row_below fa l \<longleftrightarrow> (\<exists>a. dl_addr l = Some a \<and> 0 < a \<and> a \<le> fa)"

definition best_ok :: "u64 \<Rightarrow> dwarf_line list \<Rightarrow> line_best \<Rightarrow> bool" where
  "best_ok fa rows b \<longleftrightarrow>
     (lb_found b \<longleftrightarrow> (\<exists>l \<in> set rows. row_below fa l)) \<and>
     (\<not> lb_found b \<longrightarrow> lb_addr b = 0) \<and>
     (\<forall>l \<in> set rows. row_below fa l \<longrightarrow> the (dl_addr l) \<le> lb_addr b) \<and>
     (lb_found b \<longrightarrow>
       (\<exists>l \<in> set rows. row_below fa l \<and> dl_addr l = Some (lb_addr b) \<and>
          (\<forall>s n. dl_src l = Some s \<and> dl_lineno l = Some n \<longrightarrow>
             lb_file b = strlcpy MAXPATHLEN s \<and> lb_line b = to_int32 (uint n))))"

lemma best_ok_step:
  assumes "best_ok fa rows b"
  shows "best_ok fa (rows @ [l]) (line_step fa b l)"
proof (cases "\<exists>a. dl_addr l = Some a \<and> a \<le> fa \<and> a > lb_addr b")
  case True
  then obtain a where a: "dl_addr l = Some a" "a \<le> fa" "a > lb_addr b" by blast
  then have "0 < a" using order_le_less_trans word_zero_le by blast
  then have "row_below fa l" using a by (auto simp: row_below_def)
  moreover have "\<forall>l' \<in> set rows. row_below fa l' \<longrightarrow> the (dl_addr l') \<le> a"
    using assms a(3) by (fastforce simp: best_ok_def)
  ultimately show ?thesis using a by (auto simp: best_ok_def line_step_def split: option.splits)
next
  case False
  then have "line_step fa b l = b" by (auto simp: line_step_def split: option.splits)
  moreover have "the (dl_addr l) \<le> lb_addr b" "lb_found b" if "row_below fa l"
    using that False assms by (auto simp: row_below_def best_ok_def not_less)
  ultimately show ?thesis using assms unfolding best_ok_def by auto
qed

lemma best_ok_rows: "best_ok fa rows (foldl (line_step fa) best_init rows)"
proof (induction rows rule: rev_induct)
  case Nil
  show ?case by (simp add: best_ok_def best_init_def)
qed (simp add: best_ok_step)

text \<open>
  C25. A source line that \<open>dwarf_addr_to_line\<close> returns is the right one: it is the file and line of a
  row of some compilation unit whose address is the closest at or below the given file address
  (no row of any unit is closer), at most 63 bytes away; and it fails exactly when no such row
  exists. Rows at address zero never count. File names and line numbers are those of the row when
  libdwarf can read both for every row.
\<close>

theorem dwarf_addr_to_line_nearest:
  assumes "fa = addr - dc_slide dc"
    and "\<forall>l \<in> set (cu_rows (dc_dbg dc)). \<exists>s n. dl_src l = Some s \<and> dl_lineno l = Some n"
  shows "case dwarf_addr_to_line (Some dc) addr filesz of
           None \<Rightarrow> \<not> (\<exists>l \<in> set (cu_rows (dc_dbg dc)). row_below fa l \<and> fa - the (dl_addr l) < 64)
         | Some (file, line) \<Rightarrow>
             (\<exists>l \<in> set (cu_rows (dc_dbg dc)).
                row_below fa l \<and> fa - the (dl_addr l) < 64 \<and>
                file = strlcpy filesz (strlcpy MAXPATHLEN (the (dl_src l))) \<and>
                line = to_int32 (uint (the (dl_lineno l))) \<and>
                (\<forall>l' \<in> set (cu_rows (dc_dbg dc)). row_below fa l' \<longrightarrow> the (dl_addr l') \<le> the (dl_addr l)))"
proof -
  let ?rows = "cu_rows (dc_dbg dc)"
  let ?b = "foldl (line_step fa) best_init ?rows"
  have ok: "best_ok fa ?rows ?b" by (rule best_ok_rows)
  have eq: "dwarf_addr_to_line (Some dc) addr filesz =
      (if lb_found ?b \<and> fa - lb_addr ?b < 64 then Some (strlcpy filesz (lb_file ?b), lb_line ?b) else None)"
    by (simp add: dwarf_addr_to_line_def cu_fold_rows assms(1) Let_def)
  show ?thesis
  proof (cases "lb_found ?b \<and> fa - lb_addr ?b < 64")
    case True
    then obtain l where l: "l \<in> set ?rows" "row_below fa l" "dl_addr l = Some (lb_addr ?b)"
      "\<forall>s n. dl_src l = Some s \<and> dl_lineno l = Some n \<longrightarrow>
         lb_file ?b = strlcpy MAXPATHLEN s \<and> lb_line ?b = to_int32 (uint n)"
      using ok by (auto simp: best_ok_def)
    then show ?thesis using True ok assms(2) unfolding eq
      by (fastforce simp: best_ok_def intro!: bexI [of _ l])
  next
    case False
    have "\<not> fa - the (dl_addr l) < 64" if l: "l \<in> set ?rows" "row_below fa l" for l
    proof
      assume near: "fa - the (dl_addr l) < 64"
      have f: "lb_found ?b" "the (dl_addr l) \<le> lb_addr ?b" "lb_addr ?b \<le> fa"
        using ok l by (auto simp: best_ok_def row_below_def)
      then have "fa - lb_addr ?b \<le> fa - the (dl_addr l)"
        by (simp add: word_le_nat_alt unat_sub)
      then show False using near False f(1) by (meson order_le_less_trans)
    qed
    with False show ?thesis unfolding eq by auto
  qed
qed

definition sample_dwarf :: dwarf_cache where
  "sample_dwarf = \<lparr>dc_path = ''/bin/a'', dc_dbg =
      [None, Some [\<lparr>dl_addr = Some 0x1000, dl_src = Some ''a.c'', dl_lineno = Some 10\<rparr>,
                   \<lparr>dl_addr = Some 0x1010, dl_src = Some ''a.c'', dl_lineno = Some 12\<rparr>]],
      dc_fd = 5, dc_slide = 0x200000\<rparr>"

theorem dwarf_addr_to_line_nearest_witness:
  "dwarf_addr_to_line (Some sample_dwarf) 0x201014 1024 = Some (''a.c'', 12) \<and>
   (\<exists>l \<in> set (cu_rows (dc_dbg sample_dwarf)). row_below 0x1014 l \<and> 0x1014 - the (dl_addr l) < 64)"
proof -
  have e: "dwarf_addr_to_line (Some sample_dwarf) 0x201014 1024 = Some (''a.c'', 12)"
    by (simp add: dwarf_addr_to_line_def sample_dwarf_def line_step_def best_init_def Let_def
        to_int32_def MAXPATHLEN_def)
  have "(0x1014 :: u64) = 0x201014 - dc_slide sample_dwarf" by (simp add: sample_dwarf_def)
  from dwarf_addr_to_line_nearest [OF this, of 1024] e show ?thesis
    by (auto simp: cu_rows_def sample_dwarf_def)
qed

end
