(* ===== verification/Keyed.thy ===== *)
theory Keyed
  imports Prelude
begin

text \<open>
  The find-or-add tables of \<open>decode.c\<close> share one shape: scan an array for the element with a given
  key, update it in place, and otherwise append a fresh element (profile entries, call tree
  children, folded stacks, frames, function summaries, caller edges). This theory has that
  operation, and the contract of a table that accumulates amounts per key.
\<close>

section \<open>First index\<close>

fun find_idx :: "('a \<Rightarrow> bool) \<Rightarrow> 'a list \<Rightarrow> nat option" where
  "find_idx P [] = None"
| "find_idx P (x # xs) = (if P x then Some 0 else map_option Suc (find_idx P xs))"

lemma find_idx_None: "find_idx P xs = None \<longleftrightarrow> (\<forall>x \<in> set xs. \<not> P x)"
  by (induction xs) auto

lemma find_idx_SomeD:
  "find_idx P xs = Some i \<Longrightarrow> i < length xs \<and> P (xs ! i) \<and> (\<forall>j < i. \<not> P (xs ! j))"
proof (induction xs arbitrary: i)
  case (Cons x xs)
  show ?case
  proof (cases "P x")
    case False
    with Cons.prems obtain k where k: "i = Suc k" "find_idx P xs = Some k" by auto
    with Cons.IH [of k] False show ?thesis by (auto simp: less_Suc_eq_0_disj)
  qed (use Cons.prems in auto)
qed simp

lemma find_idx_append:
  "find_idx P (xs @ ys) = (case find_idx P xs of Some i \<Rightarrow> Some i | None \<Rightarrow> map_option (\<lambda>i. i + length xs) (find_idx P ys))"
  by (induction xs) (auto simp: option.map_comp comp_def option.map_ident split: option.splits)

section \<open>Find or add\<close>

definition upsert :: "('e \<Rightarrow> 'k) \<Rightarrow> 'e \<Rightarrow> ('e \<Rightarrow> 'e) \<Rightarrow> 'e list \<Rightarrow> 'e list" where
  "upsert key x0 f xs =
     (case find_idx (\<lambda>x. key x = key x0) xs of
        Some i \<Rightarrow> xs[i := f (xs ! i)]
      | None \<Rightarrow> xs @ [f x0])"

text \<open>The amount a table holds for a key.\<close>

definition table_val :: "('e \<Rightarrow> 'k) \<Rightarrow> ('e \<Rightarrow> 'n :: comm_monoid_add) \<Rightarrow> 'e list \<Rightarrow> 'k \<Rightarrow> 'n" where
  "table_val key amount xs k = sum_list (map amount (filter (\<lambda>x. key x = k) xs))"

lemma table_val_simps [simp]:
  "table_val key amount [] k = 0"
  "table_val key amount (x # xs) k = (if key x = k then amount x else 0) + table_val key amount xs k"
  "table_val key amount (xs @ ys) k = table_val key amount xs k + table_val key amount ys k"
  by (auto simp: table_val_def)

lemma upsert_Cons:
  "upsert key x0 f (x # xs) = (if key x = key x0 then f x # xs else x # upsert key x0 f xs)"
  by (auto simp: upsert_def split: option.splits)

lemma upsert_Nil: "upsert key x0 f [] = [f x0]"
  by (simp add: upsert_def)

lemma upsert_val:
  assumes "\<And>x. key (f x) = key x" "\<And>x. amount (f x) = amount x + d" "amount x0 = 0"
  shows "table_val key amount (upsert key x0 f xs) k =
         table_val key amount xs k + (if k = key x0 then d else 0)"
  by (induction xs) (auto simp: upsert_Cons upsert_Nil assms ac_simps)

lemma upsert_total:
  fixes amount :: "'e \<Rightarrow> 'n :: comm_monoid_add"
  assumes "\<And>x. amount (f x) = amount x + d" "amount x0 = 0"
  shows "sum_list (map amount (upsert key x0 f xs)) = sum_list (map amount xs) + d"
  by (induction xs) (auto simp: upsert_Cons upsert_Nil assms ac_simps)

lemma upsert_keys:
  assumes "\<And>x. key (f x) = key x"
  shows "map key (upsert key x0 f xs) = (if key x0 \<in> key ` set xs then map key xs else map key xs @ [key x0])"
  by (induction xs) (auto simp: upsert_Cons upsert_Nil assms)

lemma upsert_distinct:
  assumes "\<And>x. key (f x) = key x" "distinct (map key xs)"
  shows "distinct (map key (upsert key x0 f xs))"
  using assms by (simp add: upsert_keys)

lemma table_val_member:
  "distinct (map key xs) \<Longrightarrow> x \<in> set xs \<Longrightarrow> table_val key amount xs (key x) = amount x"
proof (induction xs)
  case (Cons y ys)
  have z: "table_val key amount ys k = 0" if "k \<notin> key ` set ys" for k
    using that by (induction ys) auto
  from Cons z [of "key y"] show ?case by (auto simp: image_iff)
qed simp

section \<open>Tables that accumulate\<close>

text \<open>
  A table whose operation adds an amount to one key: distinct keys stay distinct, the amount of the
  key grows by the item's amount and nothing else changes. From this, the contents after any
  sequence of operations are the sums over the items, and no amount is lost overall.
\<close>

locale counting_table =
  fixes key :: "'e \<Rightarrow> 'k"
    and amount :: "'e \<Rightarrow> 'n :: comm_monoid_add"
    and put :: "'e list \<Rightarrow> 'i \<Rightarrow> 'e list"
    and ikey :: "'i \<Rightarrow> 'k"
    and delta :: "'i \<Rightarrow> 'n"
  assumes put_val: "table_val key amount (put xs i) k = table_val key amount xs k + (if k = ikey i then delta i else 0)"
    and put_keys: "map key (put xs i) = (if ikey i \<in> key ` set xs then map key xs else map key xs @ [ikey i])"
begin

lemma put_distinct: "distinct (map key xs) \<Longrightarrow> distinct (map key (put xs i))"
  by (simp add: put_keys)

lemma put_all_distinct: "distinct (map key xs) \<Longrightarrow> distinct (map key (foldl put xs items))"
  by (induction items arbitrary: xs) (simp_all add: put_distinct)

lemma put_all_val:
  "table_val key amount (foldl put xs items) k =
   table_val key amount xs k + sum_list (map delta (filter (\<lambda>i. ikey i = k) items))"
  by (induction items arbitrary: xs) (auto simp: put_val ac_simps)

lemma put_all_keys: "key ` set (foldl put xs items) = key ` set xs \<union> ikey ` set items"
proof (induction items arbitrary: xs)
  case (Cons i items)
  have "set (map key (put xs i)) = insert (ikey i) (key ` set xs)" by (auto simp: put_keys)
  with Cons show ?case by auto
qed simp

lemma put_all_member:
  assumes "distinct (map key xs)" "x \<in> set (foldl put xs items)"
  shows "amount x = table_val key amount xs (key x) + sum_list (map delta (filter (\<lambda>i. ikey i = key x) items))"
  using table_val_member [OF put_all_distinct [OF assms(1)] assms(2), of amount]
  by (simp add: put_all_val)

end

end
