(* ===== verification/Profile.thy ===== *)
theory Profile
  imports Symbols Dwarf Keyed
begin

text \<open>
  \<open>decode.c\<close>, the profile: per-function counters fed by the instruction decoder, and the function
  filter. The first section has the stream of decoded instructions that all aggregators consume.
  Counters of C type \<open>int\<close> are naturals; each is shown to be at most the number of instructions.
\<close>

section \<open>Decoded instructions\<close>

text \<open>What the decoder hands to an aggregator for one instruction.\<close>

record insn_event =
  ie_sym :: "sym_entry option"
  ie_ip :: u64
  ie_class :: pt_insn_class
  ie_tsc :: u64

text \<open>An instruction enters a function when it is at its first address and follows a call.\<close>

definition enters :: "pt_insn_class \<Rightarrow> insn_event \<Rightarrow> bool" where
  "enters prev e \<longleftrightarrow> (\<exists>s. ie_sym e = Some s \<and> ie_ip e = sy_addr s) \<and> is_call_class prev"

fun entered :: "pt_insn_class \<Rightarrow> insn_event list \<Rightarrow> sym_entry list" where
  "entered prev [] = []"
| "entered prev (e # es) = (if enters prev e then [the (ie_sym e)] else []) @ entered (ie_class e) es"

definition last_class :: "pt_insn_class \<Rightarrow> insn_event list \<Rightarrow> pt_insn_class" where
  "last_class prev es = (if es = [] then prev else ie_class (last es))"

lemma entered_snoc:
  "entered prev (es @ [e]) =
     entered prev es @ (if enters (last_class prev es) e then [the (ie_sym e)] else [])"
  by (induction es arbitrary: prev) (auto simp: last_class_def)

definition insn_class_str :: "pt_insn_class \<Rightarrow> string option" where
  "insn_class_str c =
     (case c of ptic_call \<Rightarrow> Some ''CALL'' | ptic_return \<Rightarrow> Some ''RETURN'' | ptic_jump \<Rightarrow> Some ''JUMP''
      | ptic_cond_jump \<Rightarrow> Some ''CJMP'' | ptic_far_call \<Rightarrow> Some ''SYSCALL''
      | ptic_far_return \<Rightarrow> Some ''SYSRET'' | ptic_far_jump \<Rightarrow> Some ''FARJMP''
      | ptic_ptwrite \<Rightarrow> Some ''PTWRITE'' | _ \<Rightarrow> None)"

section \<open>Filter\<close>

text \<open>\<open>opts\<close> and \<open>name\<close> may be NULL.\<close>

definition filter_matches :: "pt_decode_opts option \<Rightarrow> string option \<Rightarrow> bool" where
  "filter_matches opts name =
     (case opts of
        None \<Rightarrow> True
      | Some o1 \<Rightarrow>
          if do_filter_funcs o1 = [] then True
          else (case name of
                  None \<Rightarrow> False
                | Some n \<Rightarrow> list_ex (\<lambda>f. f = n) (do_filter_funcs o1)))"

section \<open>Profile\<close>

record profile_entry =
  pe_name :: cstr
  pe_binary :: cstr
  pe_calls :: nat
  pe_returns :: nat
  pe_branches :: nat
  pe_cumulative_tsc :: u64
  pe_entry_tsc :: u64
  pe_source_file :: "string option"
  pe_source_line :: int

record profile =
  pf_entries :: "profile_entry list"
  pf_capacity :: nat
  pf_prev_class :: pt_insn_class

definition profile_init :: profile where
  "profile_init = \<lparr>pf_entries = [], pf_capacity = 0, pf_prev_class = ptic_unknown\<rparr>"

definition strrchr_base :: "string \<Rightarrow> string" where
  "strrchr_base path = (case strrchr_rest (CHR ''/'') path of Some r \<Rightarrow> r | None \<Rightarrow> path)"

text \<open>The DWARF lookup for a new entry; \<open>sections\<close> is \<open>None\<close> for a NULL pointer.\<close>

definition profile_source ::
  "dwarf_env \<Rightarrow> dwarf_state \<Rightarrow> pt_image_info list option \<Rightarrow> sym_entry \<Rightarrow> (string \<times> int) option \<times> dwarf_state" where
  "profile_source dw ds sections sy =
     (case sections of
        None \<Rightarrow> (None, ds)
      | Some secs \<Rightarrow>
          (case find (\<lambda>s. strrchr_base (pi_path s) = text_of (sy_binary sy)) secs of
             None \<Rightarrow> (None, ds)
           | Some sec \<Rightarrow>
               (case dwarf_cache_open dw ds (pi_path sec) (sy_slide sy) of
                  (dc, ds1) \<Rightarrow> (dwarf_addr_to_line dc (sy_addr sy) MAXPATHLEN, ds1))))"

definition profile_fresh :: "bool \<Rightarrow> sym_entry \<Rightarrow> (string \<times> int) option \<Rightarrow> profile_entry" where
  "profile_fresh ok_dup sy src =
     \<lparr>pe_name = sy_name sy, pe_binary = sy_binary sy, pe_calls = 0, pe_returns = 0, pe_branches = 0,
      pe_cumulative_tsc = 0, pe_entry_tsc = 0,
      pe_source_file = (case src of None \<Rightarrow> None | Some (f, l) \<Rightarrow> if ok_dup then Some f else None),
      pe_source_line = (case src of None \<Rightarrow> 0 | Some (f, l) \<Rightarrow> l)\<rparr>"

text \<open>The two counter updates on the entry: at the function's start, and by instruction class.\<close>

definition profile_enter :: "sym_entry \<Rightarrow> u64 \<Rightarrow> pt_insn_class \<Rightarrow> u64 \<Rightarrow> profile_entry \<Rightarrow> profile_entry" where
  "profile_enter sy ip prev tsc e =
     (if ip = sy_addr sy \<and> is_call_class prev
      then e\<lparr>pe_calls := pe_calls e + 1, pe_entry_tsc := (if tsc > 0 then tsc else pe_entry_tsc e)\<rparr>
      else e)"

definition profile_class :: "pt_insn_class \<Rightarrow> u64 \<Rightarrow> profile_entry \<Rightarrow> profile_entry" where
  "profile_class iclass tsc e =
     (if is_return_class iclass
      then (if tsc > 0 \<and> pe_entry_tsc e > 0 \<and> tsc > pe_entry_tsc e
            then e\<lparr>pe_returns := pe_returns e + 1,
                   pe_cumulative_tsc := pe_cumulative_tsc e + (tsc - pe_entry_tsc e),
                   pe_entry_tsc := 0\<rparr>
            else e\<lparr>pe_returns := pe_returns e + 1\<rparr>)
      else if is_branch_class iclass then e\<lparr>pe_branches := pe_branches e + 1\<rparr>
      else e)"

definition profile_update :: "profile \<Rightarrow> nat \<Rightarrow> sym_entry \<Rightarrow> insn_event \<Rightarrow> profile" where
  "profile_update p i sy ev =
     p\<lparr>pf_entries := (pf_entries p)[i := profile_class (ie_class ev) (ie_tsc ev)
                       (profile_enter sy (ie_ip ev) (pf_prev_class p) (ie_tsc ev) (pf_entries p ! i))],
       pf_prev_class := ie_class ev\<rparr>"

definition profile_record ::
  "bool \<Rightarrow> bool \<Rightarrow> dwarf_env \<Rightarrow> pt_image_info list option \<Rightarrow> profile \<times> dwarf_state \<Rightarrow> insn_event \<Rightarrow> profile \<times> dwarf_state" where
  "profile_record ok_mem ok_dup dw sections pds ev =
     (case pds of (p, ds) \<Rightarrow>
       (case ie_sym ev of
          None \<Rightarrow> (p, ds)
        | Some sy \<Rightarrow>
            (case find_idx (\<lambda>e. ptr_of (pe_name e) = ptr_of (sy_name sy) \<and>
                                ptr_of (pe_binary e) = ptr_of (sy_binary sy)) (pf_entries p) of
               Some i \<Rightarrow> (profile_update p i sy ev, ds)
             | None \<Rightarrow>
                 (case vec_reserve 128 ok_mem (length (pf_entries p)) (pf_capacity p) of
                    None \<Rightarrow> (p, ds)
                  | Some cap \<Rightarrow>
                      (case profile_source dw ds sections sy of
                         (src, ds1) \<Rightarrow>
                           (profile_update
                              (p\<lparr>pf_entries := pf_entries p @ [profile_fresh ok_dup sy src],
                                 pf_capacity := cap\<rparr>)
                              (length (pf_entries p)) sy ev, ds1))))))"

definition profile_cmp_calls :: "profile_entry \<Rightarrow> profile_entry \<Rightarrow> int" where
  "profile_cmp_calls a b = int (pe_calls b) - int (pe_calls a)"

definition profile_header :: "bool \<Rightarrow> string" where
  "profile_header have_tsc =
     (if have_tsc
      then ljust 8 ''CALLS'' @ '' '' @ ljust 8 ''RETURNS'' @ '' '' @ ljust 8 ''BRANCHES'' @ ''  '' @
           ljust 14 ''TIME(tsc)'' @ ''  '' @ ljust 20 ''BINARY'' @ ''  FUNCTION'' @ nl @
           ''-------- -------- --------  --------------  --------------------  --------------------'' @ nl
      else ljust 8 ''CALLS'' @ '' '' @ ljust 8 ''RETURNS'' @ '' '' @ ljust 8 ''BRANCHES'' @ ''  '' @
           ljust 20 ''BINARY'' @ ''  FUNCTION'' @ nl @
           ''-------- -------- --------  --------------------  --------------------'' @ nl)"

definition profile_row :: "bool \<Rightarrow> profile_entry \<Rightarrow> string" where
  "profile_row have_tsc e =
     ljust 8 (fmt_d (int (pe_calls e))) @ '' '' @ ljust 8 (fmt_d (int (pe_returns e))) @ '' '' @
     ljust 8 (fmt_d (int (pe_branches e))) @ ''  '' @
     (if have_tsc then ljust 14 (fmt_lu (pe_cumulative_tsc e)) @ ''  '' else []) @
     ljust 20 (text_of (pe_binary e)) @ ''  '' @ text_of (pe_name e) @
     (case pe_source_file e of
        None \<Rightarrow> []
      | Some f \<Rightarrow> ''  ('' @ f @ '':'' @ fmt_d (pe_source_line e) @ '')'') @ nl"

definition profile_shown :: "pt_decode_opts option \<Rightarrow> profile_entry \<Rightarrow> bool" where
  "profile_shown opts e \<longleftrightarrow>
     \<not> (pe_calls e = 0 \<and> pe_returns e = 0 \<and> pe_branches e = 0) \<and> filter_matches opts (Some (text_of (pe_name e)))"

definition profile_print :: "profile \<Rightarrow> pt_decode_opts option \<Rightarrow> string" where
  "profile_print p opts =
     (let es = qsort profile_cmp_calls (pf_entries p);
          have_tsc = list_ex (\<lambda>e. pe_cumulative_tsc e > 0) es
      in profile_header have_tsc @ concat (map (profile_row have_tsc) (filter (profile_shown opts) es)))"

definition profile_free :: "profile \<Rightarrow> profile" where
  "profile_free p = p\<lparr>pf_entries := [], pf_capacity := 0\<rparr>"

section \<open>Counters\<close>

definition pkey :: "profile_entry \<Rightarrow> nat \<times> nat" where
  "pkey e = (ptr_of (pe_name e), ptr_of (pe_binary e))"

definition skey :: "sym_entry \<Rightarrow> nat \<times> nat" where
  "skey s = (ptr_of (sy_name s), ptr_of (sy_binary s))"

text \<open>One recording, as the table operation it performs on the entries.\<close>

type_synonym profile_item = "pt_insn_class \<times> bool \<times> sym_entry \<times> (string \<times> int) option \<times> insn_event"

fun profile_put :: "profile_entry list \<Rightarrow> profile_item \<Rightarrow> profile_entry list" where
  "profile_put es (prev, dup, sy, src, ev) =
     upsert pkey (profile_fresh dup sy src)
       (\<lambda>e. profile_class (ie_class ev) (ie_tsc ev) (profile_enter sy (ie_ip ev) prev (ie_tsc ev) e)) es"

fun item_key :: "profile_item \<Rightarrow> nat \<times> nat" where
  "item_key (prev, dup, sy, src, ev) = skey sy"

fun item_calls :: "profile_item \<Rightarrow> nat" where
  "item_calls (prev, dup, sy, src, ev) = (if ie_ip ev = sy_addr sy \<and> is_call_class prev then 1 else 0)"

fun item_returns :: "profile_item \<Rightarrow> nat" where
  "item_returns (prev, dup, sy, src, ev) = (if is_return_class (ie_class ev) then 1 else 0)"

fun item_branches :: "profile_item \<Rightarrow> nat" where
  "item_branches (prev, dup, sy, src, ev) = (if is_branch_class (ie_class ev) then 1 else 0)"

lemma profile_step_fields [simp]:
  "pkey (profile_class c t e) = pkey e" "pkey (profile_enter sy ip prev t e) = pkey e"
  "pe_calls (profile_class c t e) = pe_calls e"
  "pe_calls (profile_enter sy ip prev t e) = pe_calls e + (if ip = sy_addr sy \<and> is_call_class prev then 1 else 0)"
  "pe_returns (profile_class c t e) = pe_returns e + (if is_return_class c then 1 else 0)"
  "pe_returns (profile_enter sy ip prev t e) = pe_returns e"
  "pe_branches (profile_class c t e) = pe_branches e + (if is_branch_class c then 1 else 0)"
  "pe_branches (profile_enter sy ip prev t e) = pe_branches e"
  by (auto simp: profile_class_def profile_enter_def pkey_def class_disjoint)

lemma profile_fresh_fields [simp]:
  "pkey (profile_fresh d sy src) = skey sy" "pe_calls (profile_fresh d sy src) = 0"
  "pe_returns (profile_fresh d sy src) = 0" "pe_branches (profile_fresh d sy src) = 0"
  by (simp_all add: profile_fresh_def pkey_def skey_def)

lemma profile_put_keys:
  "map pkey (profile_put xs i) = (if item_key i \<in> pkey ` set xs then map pkey xs else map pkey xs @ [item_key i])"
  by (cases i) (simp add: upsert_keys)

lemma profile_put_val:
  fixes amount :: "profile_entry \<Rightarrow> nat"
  assumes "\<And>prev dup sy src ev e. amount (profile_class (ie_class ev) (ie_tsc ev)
      (profile_enter sy (ie_ip ev) prev (ie_tsc ev) e)) = amount e + d (prev, dup, sy, src, ev)"
    and "\<And>dup sy src. amount (profile_fresh dup sy src) = 0"
  shows "table_val pkey amount (profile_put xs i) k =
         table_val pkey amount xs k + (if k = item_key i then d i else 0)"
proof -
  obtain prev dup sy src ev where i: "i = (prev, dup, sy, src, ev)" by (cases i)
  show ?thesis
    unfolding i profile_put.simps item_key.simps
    by (subst upsert_val [where d = "d (prev, dup, sy, src, ev)"]) (simp_all add: assms)
qed

interpretation pcalls: counting_table pkey pe_calls profile_put item_key item_calls
  by unfold_locales (rule profile_put_val, simp_all only: profile_step_fields profile_fresh_fields
      item_calls.simps add_0_right profile_put_keys)

interpretation preturns: counting_table pkey pe_returns profile_put item_key item_returns
  by unfold_locales (rule profile_put_val, simp_all only: profile_step_fields profile_fresh_fields
      item_returns.simps add_0_right profile_put_keys)

interpretation pbranches: counting_table pkey pe_branches profile_put item_key item_branches
  by unfold_locales (rule profile_put_val, simp_all only: profile_step_fields profile_fresh_fields
      item_branches.simps add_0_right profile_put_keys)

lemma profile_record_put:
  "\<exists>src. pf_entries (fst (profile_record True dup dw sections (p, ds) ev)) =
     (case ie_sym ev of None \<Rightarrow> pf_entries p
      | Some sy \<Rightarrow> profile_put (pf_entries p) (pf_prev_class p, dup, sy, src, ev))"
proof (cases "ie_sym ev")
  case (Some sy)
  let ?P = "\<lambda>e. ptr_of (pe_name e) = ptr_of (sy_name sy) \<and> ptr_of (pe_binary e) = ptr_of (sy_binary sy)"
  have P: "?P = (\<lambda>e. pkey e = skey sy)" by (auto simp: pkey_def skey_def fun_eq_iff)
  show ?thesis
  proof (cases "find_idx ?P (pf_entries p)")
    case None
    obtain src ds1 where src: "profile_source dw ds sections sy = (src, ds1)" by (cases "profile_source dw ds sections sy")
    obtain cap where "vec_reserve 128 True (length (pf_entries p)) (pf_capacity p) = Some cap" by fastforce
    with None src Some show ?thesis
      by (intro exI [of _ src]) (simp add: profile_record_def profile_update_def P upsert_def)
  next
    case (Some i)
    with \<open>ie_sym ev = Some sy\<close> show ?thesis
      by (simp add: profile_record_def profile_update_def P upsert_def)
  qed
qed (simp add: profile_record_def)

lemma profile_record_prev:
  "pf_prev_class (fst (profile_record True dup dw sections (p, ds) ev)) =
     (if ie_sym ev = None then pf_prev_class p else ie_class ev)"
  by (auto simp: profile_record_def profile_update_def vec_reserve_def split: option.splits prod.splits)

text \<open>The profile after a stream, allocations succeeding.\<close>

definition profile_run ::
  "dwarf_env \<Rightarrow> pt_image_info list option \<Rightarrow> insn_event list \<Rightarrow> profile \<times> dwarf_state" where
  "profile_run dw sections evs =
     foldl (profile_record True True dw sections) (profile_init, dwarf_state_init) evs"

definition symbolised :: "insn_event list \<Rightarrow> insn_event list" where
  "symbolised evs = filter (\<lambda>e. ie_sym e \<noteq> None) evs"

definition count_sym :: "(insn_event \<Rightarrow> bool) \<Rightarrow> nat \<times> nat \<Rightarrow> insn_event list \<Rightarrow> nat" where
  "count_sym Q k evs = length (filter (\<lambda>e. (\<exists>s. ie_sym e = Some s \<and> skey s = k) \<and> Q e) evs)"

text \<open>What the entries say about the stream: the abstract meaning of a profile.\<close>

definition profile_spec :: "insn_event list \<Rightarrow> profile \<Rightarrow> bool" where
  "profile_spec evs p \<longleftrightarrow>
     pf_prev_class p = last_class ptic_unknown (symbolised evs) \<and>
     distinct (map pkey (pf_entries p)) \<and>
     (\<forall>k. table_val pkey pe_calls (pf_entries p) k =
            length (filter (\<lambda>s. skey s = k) (entered ptic_unknown (symbolised evs))) \<and>
          table_val pkey pe_returns (pf_entries p) k = count_sym (\<lambda>e. is_return_class (ie_class e)) k evs \<and>
          table_val pkey pe_branches (pf_entries p) k = count_sym (\<lambda>e. is_branch_class (ie_class e)) k evs)"

lemma profile_spec_step:
  assumes "profile_spec evs p"
  shows "profile_spec (evs @ [ev]) (fst (profile_record True dup dw sections (p, ds) ev))"
proof -
  let ?p = "fst (profile_record True dup dw sections (p, ds) ev)"
  obtain src where put: "pf_entries ?p =
      (case ie_sym ev of None \<Rightarrow> pf_entries p
       | Some sy \<Rightarrow> profile_put (pf_entries p) (pf_prev_class p, dup, sy, src, ev))"
    using profile_record_put [of dup dw sections p ds ev] by auto
  have prev: "pf_prev_class ?p = (if ie_sym ev = None then pf_prev_class p else ie_class ev)"
    by (rule profile_record_prev)
  show ?thesis
  proof (cases "ie_sym ev")
    case None
    with assms put prev show ?thesis by (simp add: profile_spec_def symbolised_def count_sym_def)
  next
    case (Some sy)
    then have s: "symbolised (evs @ [ev]) = symbolised evs @ [ev]" by (simp add: symbolised_def)
    show ?thesis using assms put prev Some unfolding profile_spec_def s
      by (simp add: pcalls.put_val preturns.put_val pbranches.put_val pcalls.put_distinct
          count_sym_def entered_snoc enters_def last_class_def del: profile_put.simps)
  qed
qed

lemma profile_run_spec: "profile_spec evs (fst (profile_run dw sections evs))"
proof (induction evs rule: rev_induct)
  case Nil
  show ?case
    by (simp add: profile_run_def profile_init_def symbolised_def last_class_def count_sym_def profile_spec_def)
next
  case (snoc ev evs)
  then show ?case using profile_spec_step [of evs "fst (profile_run dw sections evs)" ev True dw sections
        "snd (profile_run dw sections evs)"]
    by (simp add: profile_run_def)
qed

lemma entered_length: "length (entered prev es) \<le> length es"
  by (induction es arbitrary: prev) (simp_all add: le_SucI)


definition sym_f :: sym_entry where
  "sym_f = \<lparr>sy_addr = 0x1000, sy_size = 16, sy_slide = 0, sy_name = (1, ''f''), sy_binary = (2, ''prog'')\<rparr>"

definition sym_g :: sym_entry where
  "sym_g = \<lparr>sy_addr = 0x2000, sy_size = 16, sy_slide = 0, sy_name = (3, ''g''), sy_binary = (4, ''prog'')\<rparr>"

definition ev_at :: "sym_entry option \<Rightarrow> u64 \<Rightarrow> pt_insn_class \<Rightarrow> insn_event" where
  "ev_at s ip c = \<lparr>ie_sym = s, ie_ip = ip, ie_class = c, ie_tsc = 0\<rparr>"

lemma ev_at_simps [simp]:
  "enters prev (ev_at (Some s) ip c) \<longleftrightarrow> ip = sy_addr s \<and> is_call_class prev"
  "\<not> enters prev (ev_at None ip c)" "ie_class (ev_at so ip c) = c" "ie_sym (ev_at so ip c) = so"
  "ie_tsc (ev_at so ip c) = 0" "ie_ip (ev_at so ip c) = ip"
  by (auto simp: enters_def ev_at_def)

lemma sample_syms [simp]: "sy_addr sym_f = 0x1000" "sy_addr sym_g = 0x2000"
  by (simp_all add: sym_f_def sym_g_def)

definition no_dwarf :: dwarf_env where
  "no_dwarf = \<lparr>dw_open = (\<lambda>_. None), dw_init = (\<lambda>_. None)\<rparr>"

text \<open>\<open>f\<close> calls \<open>g\<close>, which returns.\<close>

definition call_stream :: "insn_event list" where
  "call_stream = [ev_at (Some sym_f) 0x1004 ptic_call, ev_at (Some sym_g) 0x2000 ptic_other,
                  ev_at (Some sym_g) 0x2001 ptic_return]"

lemmas profile_eval = profile_run_def profile_record_def profile_init_def profile_update_def
  profile_source_def profile_fresh_def profile_enter_def profile_class_def vec_reserve_def
  is_call_class_def is_return_class_def is_branch_class_def ev_at_def sym_f_def sym_g_def


text \<open>
  A call that is not followed by a symbolised entry is remembered too long. In this stream
  \<open>f\<close> calls into code without a symbol, which then jumps to the first instruction of \<open>g\<close>: no call
  instruction precedes the entry of \<open>g\<close>, and the profile counts a call of \<open>g\<close>, although the
  comment on the check says that tail jumps are not counted. The reason is that an instruction
  without a symbol leaves \<open>prev_class\<close> as it was.
\<close>

theorem profile_counts_tail_jump:
  "let evs = [ev_at (Some sym_f) 0x1004 ptic_call, ev_at None 0x500 ptic_jump, ev_at (Some sym_g) 0x2000 ptic_other]
   in entered ptic_unknown evs = [] \<and>
      table_val pkey pe_calls (pf_entries (fst (profile_run no_dwarf None evs))) (skey sym_g) = 1"
  by (simp add: profile_eval enters_def pkey_def skey_def)

section \<open>Report\<close>

interpretation pcmp: preorder_cmp profile_cmp_calls
  by unfold_locales (auto simp: profile_cmp_calls_def)

text \<open>
  The report: the profile table has one row for each entry that has a counter and passes the
  filter, and no other row, in order of decreasing call counts.
\<close>

theorem profile_print_rows:
  "\<exists>rows tsc. profile_print p opts = profile_header tsc @ concat (map (profile_row tsc) rows) \<and>
     mset rows = filter_mset (profile_shown opts) (mset (pf_entries p)) \<and>
     sorted_wrt (\<lambda>a b. pe_calls b \<le> pe_calls a) rows \<and>
     (tsc \<longleftrightarrow> (\<exists>e \<in> set (pf_entries p). pe_cumulative_tsc e > 0))"
proof -
  let ?es = "qsort profile_cmp_calls (pf_entries p)"
  have "sorted_wrt (\<lambda>a b. pe_calls b \<le> pe_calls a) ?es"
    using pcmp.sorted_qsort [of "pf_entries p"] by (simp add: profile_cmp_calls_def)
  then have "sorted_wrt (\<lambda>a b. pe_calls b \<le> pe_calls a) (filter (profile_shown opts) ?es)"
    by (rule sorted_wrt_filter)
  then show ?thesis
    by (intro exI [of _ "filter (profile_shown opts) ?es"]
        exI [of _ "list_ex (\<lambda>e. pe_cumulative_tsc e > 0) ?es"])
      (simp add: profile_print_def Let_def list_ex_iff)
qed

end
