(* ===== verification/Calltree.thy ===== *)
theory Calltree
  imports Profile "HOL-Library.Monad_Syntax"
begin

text \<open>
  \<open>decode.c\<close>, the call tree. Children live in arrays that \<open>realloc\<close> may move, while the shadow call
  stack holds raw pointers to nodes, so the tree is modelled on an explicit heap: a block is an
  array of nodes, a pointer is the root or a cell of a block, growing an array frees the old block
  and allocates a new one, and reading through a pointer into a freed block, or outside of a block,
  is \<open>None\<close> (undefined behaviour). The results are that no such read happens, whatever allocations
  fail, and that the count of each node is the number of calls with that call path.
\<close>

section \<open>Heap\<close>

datatype ct_ptr = Root | Cell nat nat

text \<open>\<open>children\<close> is NULL or a block.\<close>

record ct_node =
  cn_name :: cstr
  cn_binary :: cstr
  cn_count :: nat
  cn_total_tsc :: u64
  cn_entry_tsc :: u64
  cn_children :: "nat option"
  cn_nchildren :: nat
  cn_children_cap :: nat

text \<open>
  The tree, with the heap it owns. \<open>ct_stack\<close> is the array of \<open>stack_cap\<close> pointers, \<open>None\<close> where no
  pointer was stored yet.
\<close>

record calltree =
  ct_root :: ct_node
  ct_blocks :: "nat \<Rightarrow> ct_node list option"
  ct_next :: nat
  ct_stack :: "ct_ptr option list"
  ct_depth :: nat
  ct_prev_sym :: "sym_entry option"
  ct_prev_class :: pt_insn_class

fun deref :: "calltree \<Rightarrow> ct_ptr \<Rightarrow> ct_node option" where
  "deref ct Root = Some (ct_root ct)"
| "deref ct (Cell b i) =
     (case ct_blocks ct b of
        None \<Rightarrow> None
      | Some cs \<Rightarrow> if i < length cs then Some (cs ! i) else None)"

fun store :: "calltree \<Rightarrow> ct_ptr \<Rightarrow> ct_node \<Rightarrow> calltree option" where
  "store ct Root n = Some (ct\<lparr>ct_root := n\<rparr>)"
| "store ct (Cell b i) n =
     (case ct_blocks ct b of
        None \<Rightarrow> None
      | Some cs \<Rightarrow> if i < length cs then Some (ct\<lparr>ct_blocks := (ct_blocks ct)(b \<mapsto> cs[i := n])\<rparr>) else None)"

section \<open>Operations\<close>

definition ct_node_init :: "cstr \<Rightarrow> cstr \<Rightarrow> ct_node" where
  "ct_node_init name binary =
     \<lparr>cn_name = name, cn_binary = binary, cn_count = 0, cn_total_tsc = 0, cn_entry_tsc = 0,
      cn_children = None, cn_nchildren = 0, cn_children_cap = 0\<rparr>"

definition children_of :: "calltree \<Rightarrow> ct_node \<Rightarrow> ct_node list option" where
  "children_of ct n =
     (case cn_children n of None \<Rightarrow> Some [] | Some b \<Rightarrow> map_option (take (cn_nchildren n)) (ct_blocks ct b))"

definition same_func :: "cstr \<Rightarrow> cstr \<Rightarrow> ct_node \<Rightarrow> bool" where
  "same_func name binary c \<longleftrightarrow> ptr_of (cn_name c) = ptr_of name \<and> ptr_of (cn_binary c) = ptr_of binary"

text \<open>\<open>realloc(parent->children, ...)\<close>: the contents move to a new block, the old one is freed.\<close>

definition ct_realloc_children :: "calltree \<Rightarrow> ct_ptr \<Rightarrow> ct_node \<Rightarrow> nat \<Rightarrow> calltree option" where
  "ct_realloc_children ct q parent newcap =
     do { cs \<leftarrow> (case cn_children parent of None \<Rightarrow> Some [] | Some b \<Rightarrow> ct_blocks ct b);
          let freed = (case cn_children parent of None \<Rightarrow> ct_blocks ct | Some b \<Rightarrow> (ct_blocks ct)(b := None));
          store (ct\<lparr>ct_blocks := freed(ct_next ct \<mapsto> cs), ct_next := ct_next ct + 1\<rparr>) q
            (parent\<lparr>cn_children := Some (ct_next ct), cn_children_cap := newcap\<rparr>) }"

definition ct_append_child :: "calltree \<Rightarrow> ct_ptr \<Rightarrow> cstr \<Rightarrow> cstr \<Rightarrow> (ct_ptr \<times> calltree) option" where
  "ct_append_child ct q name binary =
     do { parent \<leftarrow> deref ct q;
          b \<leftarrow> cn_children parent;
          cs \<leftarrow> ct_blocks ct b;
          ct1 \<leftarrow> store (ct\<lparr>ct_blocks := (ct_blocks ct)(b \<mapsto> take (cn_nchildren parent) cs @ [ct_node_init name binary])\<rparr>) q
                   (parent\<lparr>cn_nchildren := cn_nchildren parent + 1\<rparr>);
          Some (Cell b (cn_nchildren parent), ct1) }"

text \<open>The outer \<open>None\<close> is undefined behaviour, the inner one the NULL that the function returns.\<close>

definition ct_find_or_add_child ::
  "bool \<Rightarrow> calltree \<Rightarrow> ct_ptr \<Rightarrow> cstr \<Rightarrow> cstr \<Rightarrow> (ct_ptr option \<times> calltree) option" where
  "ct_find_or_add_child ok ct q name binary =
     do { parent \<leftarrow> deref ct q;
          cs \<leftarrow> children_of ct parent;
          case find_idx (same_func name binary) cs of
            Some i \<Rightarrow> do { b \<leftarrow> cn_children parent; Some (Some (Cell b i), ct) }
          | None \<Rightarrow>
              if cn_nchildren parent \<ge> cn_children_cap parent then
                if \<not> ok then Some (None, ct)
                else do { ct1 \<leftarrow> ct_realloc_children ct q parent
                                   (if cn_children_cap parent = 0 then 8 else cn_children_cap parent * 2);
                          (child, ct2) \<leftarrow> ct_append_child ct1 q name binary;
                          Some (Some child, ct2) }
              else do { (child, ct2) \<leftarrow> ct_append_child ct q name binary; Some (Some child, ct2) } }"

text \<open>\<open>calloc\<close>'s result is not checked: when it fails, the store through the NULL pointer is undefined.\<close>

definition calltree_init :: "bool \<Rightarrow> calltree option" where
  "calltree_init ok =
     (if ok
      then Some \<lparr>ct_root = ct_node_init (0, ''<root>'') (0, []), ct_blocks = (\<lambda>_. None), ct_next = 0,
                 ct_stack = Some Root # replicate 255 None, ct_depth = 0, ct_prev_sym = None,
                 ct_prev_class = ptic_unknown\<rparr>
      else None)"

definition stack_at :: "calltree \<Rightarrow> nat \<Rightarrow> ct_ptr option" where
  "stack_at ct i = (if i < length (ct_stack ct) then ct_stack ct ! i else None)"

definition calltree_push_slot :: "bool \<Rightarrow> calltree \<Rightarrow> ct_ptr \<Rightarrow> calltree" where
  "calltree_push_slot ok ct child =
     (let depth = ct_depth ct + 1;
          cap = length (ct_stack ct)
      in if depth \<ge> cap then
           (if \<not> ok then ct
            else ct\<lparr>ct_stack := (ct_stack ct @ replicate (cap * 2 - cap) None)[depth := Some child], ct_depth := depth\<rparr>)
         else ct\<lparr>ct_stack := (ct_stack ct)[depth := Some child], ct_depth := depth\<rparr>)"

definition calltree_push ::
  "bool \<Rightarrow> bool \<Rightarrow> calltree \<Rightarrow> sym_entry option \<Rightarrow> u64 \<Rightarrow> calltree option" where
  "calltree_push ok_child ok_stack ct sy tsc =
     (case sy of
        None \<Rightarrow> Some ct
      | Some s \<Rightarrow>
          do { parent \<leftarrow> stack_at ct (ct_depth ct);
               (childp, ct1) \<leftarrow> ct_find_or_add_child ok_child ct parent (sy_name s) (sy_binary s);
               case childp of
                 None \<Rightarrow> Some ct1
               | Some child \<Rightarrow>
                   do { n \<leftarrow> deref ct1 child;
                        ct2 \<leftarrow> store ct1 child (n\<lparr>cn_count := cn_count n + 1, cn_entry_tsc := tsc\<rparr>);
                        Some (calltree_push_slot ok_stack ct2 child) } })"

definition pop_node :: "u64 \<Rightarrow> ct_node \<Rightarrow> ct_node" where
  "pop_node tsc n =
     n\<lparr>cn_total_tsc := (if tsc > 0 \<and> cn_entry_tsc n > 0 \<and> tsc > cn_entry_tsc n
                        then cn_total_tsc n + (tsc - cn_entry_tsc n) else cn_total_tsc n),
       cn_entry_tsc := 0\<rparr>"

definition calltree_pop :: "calltree \<Rightarrow> u64 \<Rightarrow> calltree option" where
  "calltree_pop ct tsc =
     (if ct_depth ct > 0 then
        do { q \<leftarrow> stack_at ct (ct_depth ct);
             n \<leftarrow> deref ct q;
             ct1 \<leftarrow> store ct q (pop_node tsc n);
             Some (ct1\<lparr>ct_depth := ct_depth ct - 1\<rparr>) }
      else Some ct)"

definition calltree_record :: "bool \<Rightarrow> bool \<Rightarrow> calltree \<Rightarrow> insn_event \<Rightarrow> calltree option" where
  "calltree_record ok_child ok_stack ct ev =
     do { ct1 \<leftarrow> (if enters (ct_prev_class ct) ev then calltree_push ok_child ok_stack ct (ie_sym ev) (ie_tsc ev)
                 else Some ct);
          ct2 \<leftarrow> (if is_return_class (ie_class ev) then calltree_pop ct1 (ie_tsc ev) else Some ct1);
          Some (ct2\<lparr>ct_prev_sym := ie_sym ev, ct_prev_class := ie_class ev\<rparr>) }"

fun calltree_run :: "calltree \<Rightarrow> (bool \<times> bool \<times> insn_event) list \<Rightarrow> calltree option" where
  "calltree_run ct [] = Some ct"
| "calltree_run ct ((okc, oks, ev) # evs) =
     do { ct1 \<leftarrow> calltree_record okc oks ct ev; calltree_run ct1 evs }"

section \<open>Heap invariant\<close>

definition nkey :: "ct_node \<Rightarrow> nat \<times> nat" where
  "nkey n = (ptr_of (cn_name n), ptr_of (cn_binary n))"

definition blen :: "calltree \<Rightarrow> nat \<Rightarrow> nat option" where
  "blen ct b = map_option length (ct_blocks ct b)"

lemma deref_cell: "deref ct (Cell b i) \<noteq> None \<longleftrightarrow> (\<exists>l. blen ct b = Some l \<and> i < l)"
  by (auto simp: blen_def split: option.splits)

text \<open>
  \<open>pth b\<close> is the call path of the node that owns block \<open>b\<close>; the path of a cell extends the path of
  its block by the cell's own key.
\<close>

type_synonym path = "(nat \<times> nat) list"

fun ppath :: "(nat \<Rightarrow> path) \<Rightarrow> calltree \<Rightarrow> ct_ptr \<Rightarrow> path" where
  "ppath pth ct Root = []"
| "ppath pth ct (Cell b i) = pth b @ [nkey (the (deref ct (Cell b i)))]"

definition node_ok :: "(nat \<Rightarrow> path) \<Rightarrow> calltree \<Rightarrow> ct_ptr \<Rightarrow> ct_node \<Rightarrow> bool" where
  "node_ok pth ct q n \<longleftrightarrow>
     (case cn_children n of
        None \<Rightarrow> cn_nchildren n = 0 \<and> cn_children_cap n = 0
      | Some b \<Rightarrow> blen ct b = Some (cn_nchildren n) \<and> cn_nchildren n \<le> cn_children_cap n \<and>
                 0 < cn_children_cap n \<and> pth b = ppath pth ct q)"

definition heap_ok :: "(nat \<Rightarrow> path) \<Rightarrow> calltree \<Rightarrow> bool" where
  "heap_ok pth ct \<longleftrightarrow>
     (\<forall>q n. deref ct q = Some n \<longrightarrow> node_ok pth ct q n) \<and>
     (\<forall>b b'. blen ct b \<noteq> None \<and> blen ct b' \<noteq> None \<and> pth b = pth b' \<longrightarrow> b = b') \<and>
     (\<forall>b. blen ct b \<noteq> None \<longrightarrow> b < ct_next ct) \<and>
     (\<forall>b i j. deref ct (Cell b i) \<noteq> None \<and> deref ct (Cell b j) \<noteq> None \<and>
        nkey (the (deref ct (Cell b i))) = nkey (the (deref ct (Cell b j))) \<longrightarrow> i = j) \<and>
     (\<forall>b. blen ct b \<noteq> None \<longrightarrow> (\<exists>q n. deref ct q = Some n \<and> cn_children n = Some b))"

lemma heap_okD:
  assumes "heap_ok pth ct"
  shows "deref ct q = Some n \<Longrightarrow> node_ok pth ct q n"
    and "blen ct b \<noteq> None \<Longrightarrow> blen ct b' \<noteq> None \<Longrightarrow> pth b = pth b' \<Longrightarrow> b = b'"
    and "blen ct b \<noteq> None \<Longrightarrow> b < ct_next ct"
    and "deref ct (Cell b i) \<noteq> None \<Longrightarrow> deref ct (Cell b j) \<noteq> None \<Longrightarrow>
           nkey (the (deref ct (Cell b i))) = nkey (the (deref ct (Cell b j))) \<Longrightarrow> i = j"
    and "blen ct b \<noteq> None \<Longrightarrow> \<exists>q n. deref ct q = Some n \<and> cn_children n = Some b"
  using assms unfolding heap_ok_def by blast+

lemma heap_okI:
  assumes "\<And>q n. deref ct q = Some n \<Longrightarrow> node_ok pth ct q n"
    and "\<And>b b'. blen ct b \<noteq> None \<Longrightarrow> blen ct b' \<noteq> None \<Longrightarrow> pth b = pth b' \<Longrightarrow> b = b'"
    and "\<And>b. blen ct b \<noteq> None \<Longrightarrow> b < ct_next ct"
    and "\<And>b i j. deref ct (Cell b i) \<noteq> None \<Longrightarrow> deref ct (Cell b j) \<noteq> None \<Longrightarrow>
           nkey (the (deref ct (Cell b i))) = nkey (the (deref ct (Cell b j))) \<Longrightarrow> i = j"
    and "\<And>b. blen ct b \<noteq> None \<Longrightarrow> \<exists>q n. deref ct q = Some n \<and> cn_children n = Some b"
  shows "heap_ok pth ct"
  unfolding heap_ok_def using assms by blast

lemma ppath_inj:
  assumes "heap_ok pth ct" "deref ct q \<noteq> None" "deref ct q' \<noteq> None" "ppath pth ct q = ppath pth ct q'"
  shows "q = q'"
proof (cases q; cases q')
  fix b i b' i' assume c: "q = Cell b i" "q' = Cell b' i'"
  then have "pth b = pth b'" "nkey (the (deref ct q)) = nkey (the (deref ct q'))"
    using assms(4) by auto
  moreover from this have "b = b'"
    using assms(2,3) c heap_okD(2) [OF assms(1), of b b'] deref_cell by fastforce
  ultimately show ?thesis using assms(2,3) c heap_okD(4) [OF assms(1), of b i i'] by auto
qed (use assms(4) in auto)

text \<open>A block belongs to one node only.\<close>

lemma owner_unique:
  assumes "heap_ok pth ct" "deref ct q = Some n" "deref ct q' = Some n'"
    and "cn_children n = Some b" "cn_children n' = Some b"
  shows "q = q'"
proof (rule ppath_inj [OF assms(1)])
  show "ppath pth ct q = ppath pth ct q'"
    using heap_okD(1) [OF assms(1) assms(2)] heap_okD(1) [OF assms(1) assms(3)] assms(4,5)
    by (simp add: node_ok_def)
qed (use assms in auto)

text \<open>A node never lies in its own children's block: the paths have different lengths.\<close>

lemma not_own_child:
  assumes "heap_ok pth ct" "deref ct q = Some n" "cn_children n = Some b"
  shows "q \<noteq> Cell b i"
  using heap_okD(1) [OF assms(1,2)] assms(3) by (cases q) (auto simp: node_ok_def)

subsection \<open>Stores\<close>

text \<open>Two heaps with the same pointers outside of \<open>q\<close>.\<close>

definition frame_eq :: "calltree \<Rightarrow> calltree \<Rightarrow> bool" where
  "frame_eq ct ct' \<longleftrightarrow> ct_stack ct' = ct_stack ct \<and> ct_depth ct' = ct_depth ct \<and>
     ct_prev_class ct' = ct_prev_class ct"

lemma frame_eq_trans: "frame_eq a b \<Longrightarrow> frame_eq b c \<Longrightarrow> frame_eq a c"
  by (simp add: frame_eq_def)

lemma store_total: "deref ct q \<noteq> None \<Longrightarrow> \<exists>ct'. store ct q n' = Some ct'"
  by (cases q) (auto split: option.splits if_splits)

lemma store_effect:
  assumes "store ct q n' = Some ct'"
  shows "deref ct' r = (if r = q then Some n' else deref ct r)"
    and "blen ct' b = blen ct b" and "ct_next ct' = ct_next ct" and "frame_eq ct ct'"
  using assms
  by (cases q; cases r; auto simp: blen_def frame_eq_def nth_list_update split: option.splits if_splits)+

declare deref.simps [simp del] store.simps [simp del]

lemma fresh_block: "heap_ok pth ct \<Longrightarrow> blen ct (ct_next ct) = None"
  using heap_okD(3) [of pth ct "ct_next ct"] by fastforce

lemma fresh_cell: "heap_ok pth ct \<Longrightarrow> deref ct (Cell (ct_next ct) i) = None"
  using fresh_block [of pth ct] deref_cell [of ct "ct_next ct" i] by (cases "deref ct (Cell (ct_next ct) i)") auto

text \<open>Changing a node's counters keeps the heap and every path.\<close>

definition same_shape :: "ct_node \<Rightarrow> ct_node \<Rightarrow> bool" where
  "same_shape n n' \<longleftrightarrow> nkey n' = nkey n \<and> cn_children n' = cn_children n \<and>
     cn_nchildren n' = cn_nchildren n \<and> cn_children_cap n' = cn_children_cap n"

lemma update_shape:
  assumes ok: "heap_ok pth ct" and q: "deref ct q = Some n" "same_shape n n'"
    and d: "\<And>r. deref ct' r = (if r = q then Some n' else deref ct r)"
    and b: "\<And>b. blen ct' b = blen ct b" "ct_next ct' = ct_next ct"
  shows "heap_ok pth ct' \<and> (\<forall>r. ppath pth ct' r = ppath pth ct r)"
proof -
  have p: "ppath pth ct' r = ppath pth ct r" for r
    using q by (cases r) (auto simp: d same_shape_def)
  have "node_ok pth ct' r m" if "deref ct' r = Some m" for r m
    using that heap_okD(1) [OF ok] q by (fastforce simp: d node_ok_def p b same_shape_def split: if_splits option.splits)
  moreover have "\<exists>r m. deref ct' r = Some m \<and> cn_children m = Some a" if al: "blen ct' a \<noteq> None" for a
  proof -
    obtain r m where r: "deref ct r = Some m" "cn_children m = Some a"
      using heap_okD(5) [OF ok, of a] al b by auto
    with q show ?thesis by (cases "r = q") (auto simp: d same_shape_def)
  qed
  moreover have "nkey (the (deref ct' r)) = nkey (the (deref ct r))" "deref ct' r \<noteq> None \<longleftrightarrow> deref ct r \<noteq> None" for r
    using q by (auto simp: d same_shape_def)
  ultimately show ?thesis using p ok b unfolding heap_ok_def by simp
qed

subsection \<open>Growing a children array\<close>

text \<open>Where a cell is after \<open>realloc\<close> moved block \<open>old\<close> to \<open>nb\<close>.\<close>

fun moved :: "nat option \<Rightarrow> nat \<Rightarrow> ct_ptr \<Rightarrow> ct_ptr" where
  "moved old nb Root = Root"
| "moved old nb (Cell b i) = (if old = Some b then Cell nb i else Cell b i)"

lemma realloc_total:
  assumes ok: "heap_ok pth ct" and q: "deref ct q = Some n"
  shows "\<exists>ct'. ct_realloc_children ct q n newcap = Some ct'"
proof -
  obtain cs where cs: "(case cn_children n of None \<Rightarrow> Some [] | Some b \<Rightarrow> ct_blocks ct b) = Some cs"
    using heap_okD(1) [OF ok q] by (auto simp: node_ok_def blen_def split: option.splits)
  have "q \<noteq> Cell (ct_next ct) i" for i using fresh_cell [OF ok, of i] q by auto
  then show ?thesis using cs q not_own_child [OF ok q]
    by (cases q) (auto simp: ct_realloc_children_def Let_def deref.simps store.simps split: option.splits if_splits)
qed

lemma realloc_effect:
  assumes ok: "heap_ok pth ct" and q: "deref ct q = Some n"
    and r: "ct_realloc_children ct q n newcap = Some ct'"
  shows "deref ct' r = (if r = q then Some (n\<lparr>cn_children := Some (ct_next ct), cn_children_cap := newcap\<rparr>)
       else case r of Root \<Rightarrow> deref ct r
            | Cell b i \<Rightarrow> if b = ct_next ct then (case cn_children n of None \<Rightarrow> None | Some old \<Rightarrow> deref ct (Cell old i))
                          else if cn_children n = Some b then None else deref ct r)"
    and "blen ct' b = (if b = ct_next ct then Some (cn_nchildren n) else if cn_children n = Some b then None else blen ct b)"
    and "ct_next ct' = ct_next ct + 1" and "frame_eq ct ct'"
proof -
  let ?nb = "ct_next ct"
  let ?freed = "case cn_children n of None \<Rightarrow> ct_blocks ct | Some b \<Rightarrow> (ct_blocks ct)(b := None)"
  obtain cs where cs: "(case cn_children n of None \<Rightarrow> Some [] | Some b \<Rightarrow> ct_blocks ct b) = Some cs" "length cs = cn_nchildren n"
    using heap_okD(1) [OF ok q] by (auto simp: node_ok_def blen_def split: option.splits)
  define ct1 where "ct1 = ct\<lparr>ct_blocks := ?freed(?nb \<mapsto> cs), ct_next := ?nb + 1\<rparr>"
  have d1: "deref ct1 r = (case r of Root \<Rightarrow> deref ct r
            | Cell b i \<Rightarrow> if b = ?nb then (case cn_children n of None \<Rightarrow> None | Some old \<Rightarrow> deref ct (Cell old i))
                          else if cn_children n = Some b then None else deref ct r)" for r
    using cs by (cases r) (auto simp: ct1_def deref.simps split: option.splits)
  have st: "store ct1 q (n\<lparr>cn_children := Some ?nb, cn_children_cap := newcap\<rparr>) = Some ct'"
    using r cs by (simp add: ct_realloc_children_def ct1_def Let_def)
  note e = store_effect [OF st]
  show "deref ct' r = (if r = q then Some (n\<lparr>cn_children := Some (ct_next ct), cn_children_cap := newcap\<rparr>)
       else case r of Root \<Rightarrow> deref ct r
            | Cell b i \<Rightarrow> if b = ct_next ct then (case cn_children n of None \<Rightarrow> None | Some old \<Rightarrow> deref ct (Cell old i))
                          else if cn_children n = Some b then None else deref ct r)"
    using e(1) d1 by simp
  show "blen ct' b = (if b = ?nb then Some (cn_nchildren n) else if cn_children n = Some b then None else blen ct b)"
    unfolding e(2) using cs by (auto simp: ct1_def blen_def split: option.splits)
  show "ct_next ct' = ct_next ct + 1" "frame_eq ct ct'"
    using e(3,4) by (simp_all add: ct1_def frame_eq_def)
qed

text \<open>
  The step as a whole: every node that was reachable is still there, at the place \<open>moved\<close> gives it,
  with the same path; only the grown node's bookkeeping changed.
\<close>

lemma realloc_moves:
  assumes ok: "heap_ok pth ct" and q: "deref ct q = Some n"
    and r: "ct_realloc_children ct q n newcap = Some ct'"
  defines "\<rho> \<equiv> moved (cn_children n) (ct_next ct)"
  defines "pth' \<equiv> pth(ct_next ct := ppath pth ct q)"
  defines "n' \<equiv> n\<lparr>cn_children := Some (ct_next ct), cn_children_cap := newcap\<rparr>"
  shows "deref ct r0 = Some m \<Longrightarrow> deref ct' (\<rho> r0) = Some (if r0 = q then n' else m)"
    and "deref ct r0 = Some m \<Longrightarrow> ppath pth' ct' (\<rho> r0) = ppath pth ct r0"
    and "deref ct' r1 \<noteq> None \<Longrightarrow> \<exists>r0 m. r1 = \<rho> r0 \<and> deref ct r0 = Some m"
    and "\<rho> q = q"
proof -
  let ?nb = "ct_next ct"
  note d = realloc_effect(1) [OF ok q r, folded n'_def] and nbd = fresh_cell [OF ok]
  have nq: "q \<noteq> Cell ?nb i" for i using q nbd by auto
  show rq: "\<rho> q = q" using not_own_child [OF ok q] by (cases q) (auto simp: \<rho>_def)
  show dr: "deref ct' (\<rho> r0) = Some (if r0 = q then n' else m)" if m: "deref ct r0 = Some m" for r0 m
  proof (cases "r0 = q")
    case False
    then show ?thesis
      using m nq nbd not_own_child [OF ok q] by (cases r0) (auto simp: \<rho>_def d)
  qed (simp add: rq d)
  show "ppath pth' ct' (\<rho> r0) = ppath pth ct r0" if m: "deref ct r0 = Some m"
  proof (cases r0)
    case (Cell b i)
    have k: "nkey (the (deref ct' (\<rho> r0))) = nkey (the (deref ct r0))"
      using dr [OF m] m q by (auto simp: n'_def nkey_def)
    have "pth old = ppath pth ct q" if "cn_children n = Some old" for old
      using heap_okD(1) [OF ok q] that by (simp add: node_ok_def)
    moreover have "b \<noteq> ?nb" using Cell m nbd by auto
    ultimately show ?thesis using k Cell by (auto simp: \<rho>_def pth'_def)
  qed (simp add: \<rho>_def)
  show "\<exists>r0 m. r1 = \<rho> r0 \<and> deref ct r0 = Some m" if r1: "deref ct' r1 \<noteq> None"
  proof (cases "r1 = q")
    case True
    then show ?thesis using rq q by metis
  next
    case False
    show ?thesis
    proof (cases r1)
      case Root
      then show ?thesis using r1 False by (intro exI [of _ Root]) (auto simp: \<rho>_def d)
    next
      case (Cell b i)
      then show ?thesis
        using r1 False nbd
        by (intro exI [of _ "if b = ?nb then Cell (the (cn_children n)) i else Cell b i"])
          (auto simp: d \<rho>_def split: if_splits option.splits)
    qed
  qed
qed

lemma realloc_heap_ok:
  assumes ok: "heap_ok pth ct" and q: "deref ct q = Some n"
    and cap: "cn_nchildren n < newcap"
    and r: "ct_realloc_children ct q n newcap = Some ct'"
  shows "heap_ok (pth(ct_next ct := ppath pth ct q)) ct'"
proof -
  let ?nb = "ct_next ct"
  let ?pth = "pth(?nb := ppath pth ct q)"
  note d = realloc_effect(1) [OF ok q r] and bl = realloc_effect(2) [OF ok q r]
  note nb = fresh_block [OF ok] and mv = realloc_moves [OF ok q r]
  have node: "node_ok ?pth ct' r1 k" if k: "deref ct' r1 = Some k" for r1 k
  proof -
    obtain r0 m where r0: "r1 = moved (cn_children n) ?nb r0" "deref ct r0 = Some m"
      using mv(3) [of r1] k by auto
    note m = heap_okD(1) [OF ok r0(2)] and km = mv(1) [OF r0(2)] mv(2) [OF r0(2)]
    show ?thesis
    proof (cases "r0 = q")
      case True
      then show ?thesis using cap k km r0(1) by (auto simp: node_ok_def bl)
    next
      case False
      have "b \<noteq> ?nb" "cn_children n \<noteq> Some b" if b: "cn_children m = Some b" for b
        using m b nb owner_unique [OF ok r0(2) q] False by (auto simp: node_ok_def)
      then show ?thesis using m k km r0(1) False by (auto simp: node_ok_def bl split: option.splits)
    qed
  qed
  have keys: "i = j" if c: "deref ct' (Cell b i) \<noteq> None" "deref ct' (Cell b j) \<noteq> None"
    "nkey (the (deref ct' (Cell b i))) = nkey (the (deref ct' (Cell b j)))" for b i j
  proof -
    define b0 where "b0 = (if b = ?nb then the (cn_children n) else b)"
    have "deref ct (Cell b0 x) \<noteq> None \<and> nkey (the (deref ct (Cell b0 x))) = nkey (the (deref ct' (Cell b x)))"
      if "deref ct' (Cell b x) \<noteq> None" for x
      using that q fresh_cell [OF ok] by (auto simp: d b0_def nkey_def split: if_splits option.splits)
    then show ?thesis using heap_okD(4) [OF ok, of b0 i j] c by simp
  qed
  have owner: "\<exists>r m. deref ct' r = Some m \<and> cn_children m = Some b" if b: "blen ct' b \<noteq> None" for b
  proof (cases "b = ?nb")
    case True
    then show ?thesis using d [of q] by (intro exI [of _ q]) auto
  next
    case False
    then obtain r0 m where "deref ct r0 = Some m" "cn_children m = Some b" "cn_children n \<noteq> Some b"
      using b heap_okD(5) [OF ok, of b] by (auto simp: bl split: if_splits)
    then show ?thesis using mv(1) [of r0 m] q by (cases "r0 = q") auto
  qed
  have inj: "b = b'" if b: "blen ct' b \<noteq> None" "blen ct' b' \<noteq> None" "?pth b = ?pth b'" for b b'
  proof -
    have other: "pth a \<noteq> ppath pth ct q" if a: "blen ct a \<noteq> None" "cn_children n \<noteq> Some a" for a
    proof
      assume e: "pth a = ppath pth ct q"
      obtain r0 m where r0: "deref ct r0 = Some m" "cn_children m = Some a" using heap_okD(5) [OF ok a(1)] by auto
      then have "r0 = q" using heap_okD(1) [OF ok r0(1)] e q by (intro ppath_inj [OF ok]) (auto simp: node_ok_def)
      with r0 q a(2) show False by simp
    qed
    show ?thesis using b other [of b] other [of b'] heap_okD(2) [OF ok, of b b']
      by (auto simp: bl split: if_splits)
  qed
  have nxt: "b < ct_next ct'" if "blen ct' b \<noteq> None" for b
    using that heap_okD(3) [OF ok, of b] realloc_effect(3) [OF ok q r] by (auto simp: bl split: if_splits)
  show ?thesis by (rule heap_okI [OF node inj nxt keys owner])
qed

subsection \<open>Appending a child\<close>

lemma append_effect:
  assumes ok: "heap_ok pth ct" and q: "deref ct q = Some p" "cn_children p = Some b"
  obtains ct' where "ct_append_child ct q name binary = Some (Cell b (cn_nchildren p), ct')"
    "\<And>r. deref ct' r = (if r = q then Some (p\<lparr>cn_nchildren := cn_nchildren p + 1\<rparr>)
        else if r = Cell b (cn_nchildren p) then Some (ct_node_init name binary) else deref ct r)"
    "\<And>a. blen ct' a = (if a = b then Some (cn_nchildren p + 1) else blen ct a)"
    "ct_next ct' = ct_next ct" "frame_eq ct ct'"
proof -
  obtain cs where cs: "ct_blocks ct b = Some cs" "length cs = cn_nchildren p"
    using heap_okD(1) [OF ok q(1)] q(2) by (auto simp: node_ok_def blen_def)
  define ct1 where "ct1 = ct\<lparr>ct_blocks := (ct_blocks ct)(b \<mapsto> cs @ [ct_node_init name binary])\<rparr>"
  have d1: "deref ct1 r = (if r = Cell b (cn_nchildren p) then Some (ct_node_init name binary) else deref ct r)" for r
    using cs by (cases r) (auto simp: ct1_def deref.simps nth_append)
  have "deref ct1 q \<noteq> None" using q(1) by (simp add: d1)
  then obtain ct' where ct': "store ct1 q (p\<lparr>cn_nchildren := cn_nchildren p + 1\<rparr>) = Some ct'"
    using store_total by blast
  note e = store_effect [OF ct']
  show ?thesis
  proof (rule that)
    show "ct_append_child ct q name binary = Some (Cell b (cn_nchildren p), ct')"
      using ct' q cs by (simp add: ct_append_child_def ct1_def)
    show "blen ct' a = (if a = b then Some (cn_nchildren p + 1) else blen ct a)" for a
      using cs by (simp only: e(2)) (auto simp: ct1_def blen_def)
    show "deref ct' r = (if r = q then Some (p\<lparr>cn_nchildren := cn_nchildren p + 1\<rparr>)
        else if r = Cell b (cn_nchildren p) then Some (ct_node_init name binary) else deref ct r)" for r
      by (simp only: e(1) d1)
    show "ct_next ct' = ct_next ct" "frame_eq ct ct'" using e(3,4) by (simp_all add: ct1_def frame_eq_def)
  qed
qed

lemma append_heap_ok:
  assumes ok: "heap_ok pth ct" and q: "deref ct q = Some p" "cn_children p = Some b"
    and room: "cn_nchildren p < cn_children_cap p"
    and new: "\<forall>i c. deref ct (Cell b i) = Some c \<longrightarrow> nkey c \<noteq> (ptr_of name, ptr_of binary)"
    and d: "\<And>r. deref ct' r = (if r = q then Some (p\<lparr>cn_nchildren := cn_nchildren p + 1\<rparr>)
        else if r = Cell b (cn_nchildren p) then Some (ct_node_init name binary) else deref ct r)"
    and bl: "\<And>a. blen ct' a = (if a = b then Some (cn_nchildren p + 1) else blen ct a)"
    and nx: "ct_next ct' = ct_next ct"
  shows "heap_ok pth ct'" and "\<And>r. deref ct r \<noteq> None \<Longrightarrow> ppath pth ct' r = ppath pth ct r"
    and "ppath pth ct' (Cell b (cn_nchildren p)) = ppath pth ct q @ [(ptr_of name, ptr_of binary)]"
proof -
  let ?c = "Cell b (cn_nchildren p)"
  have pok: "blen ct b = Some (cn_nchildren p)" "pth b = ppath pth ct q"
    using heap_okD(1) [OF ok q(1)] q(2) by (auto simp: node_ok_def)
  have cnone: "deref ct ?c = None" using pok(1) deref_cell [of ct b "cn_nchildren p"] by (cases "deref ct ?c") auto
  have qc: "q \<noteq> ?c" using q(1) cnone by auto
  have key: "nkey (the (deref ct' r)) = nkey (the (deref ct r))" if "r \<noteq> ?c" for r
    using that q(1) by (auto simp: d nkey_def)
  have newkey: "nkey (the (deref ct' ?c)) = (ptr_of name, ptr_of binary)"
    using qc by (simp add: d nkey_def ct_node_init_def)
  show pp: "ppath pth ct' r = ppath pth ct r" if "deref ct r \<noteq> None" for r
  proof (cases r)
    case (Cell a i)
    with that cnone have "r \<noteq> ?c" by auto
    with key [OF this] Cell show ?thesis by simp
  qed simp
  show "ppath pth ct' ?c = ppath pth ct q @ [(ptr_of name, ptr_of binary)]"
    using newkey pok(2) by simp
  have node: "node_ok pth ct' r k" if k: "deref ct' r = Some k" for r k
  proof -
    consider "r = q" | "r = ?c" "r \<noteq> q" | "deref ct r = Some k" "r \<noteq> q" using k by (auto simp: d split: if_splits)
    then show ?thesis
    proof cases
      case 1
      then show ?thesis using k q room pok pp [of q] by (auto simp: d node_ok_def bl)
    next
      case 2
      then show ?thesis using k qc by (auto simp: d node_ok_def ct_node_init_def)
    next
      case 3
      have "cn_children k \<noteq> Some b" using owner_unique [OF ok 3(1) q(1)] 3(2) q(2) by auto
      then show ?thesis using heap_okD(1) [OF ok 3(1)] pp [of r] 3 by (auto simp: node_ok_def bl split: option.splits)
    qed
  qed
  have keys: "i = j" if c: "deref ct' (Cell a i) \<noteq> None" "deref ct' (Cell a j) \<noteq> None"
    "nkey (the (deref ct' (Cell a i))) = nkey (the (deref ct' (Cell a j)))" for a i j
  proof -
    have no: "nkey (the (deref ct' (Cell b x))) \<noteq> (ptr_of name, ptr_of binary)"
      if "deref ct' (Cell b x) \<noteq> None" "x \<noteq> cn_nchildren p" for x
      using that new q(1) by (auto simp: d nkey_def split: if_splits)
    consider "i = j" | "Cell a i = ?c" "i \<noteq> j" | "Cell a j = ?c" "i \<noteq> j" | "Cell a i \<noteq> ?c" "Cell a j \<noteq> ?c" by blast
    then show ?thesis
    proof cases
      case 2
      then show ?thesis using c no [of j] newkey by simp
    next
      case 3
      then show ?thesis using c no [of i] newkey by simp
    next
      case 4
      have "deref ct (Cell a i) \<noteq> None" "deref ct (Cell a j) \<noteq> None"
        using c(1,2) 4 q(1) unfolding d by (auto split: if_splits)
      then show ?thesis using heap_okD(4) [OF ok, of a i j] c(3) key [OF 4(1)] key [OF 4(2)] by simp
    qed
  qed
  have owner: "\<exists>r m. deref ct' r = Some m \<and> cn_children m = Some a" if a: "blen ct' a \<noteq> None" for a
  proof -
    obtain r m where r: "deref ct r = Some m" "cn_children m = Some a"
      using a pok(1) heap_okD(5) [OF ok, of a] by (auto simp: bl split: if_splits)
    show ?thesis using r q cnone by (intro exI [of _ r]) (auto simp: d)
  qed
  have al: "blen ct' a \<noteq> None \<longleftrightarrow> blen ct a \<noteq> None" for a using pok(1) by (simp add: bl)
  show "heap_ok pth ct'"
    by (rule heap_okI [OF node _ _ keys owner]) (use al heap_okD(2,3) [OF ok] nx in auto)
qed

section \<open>Abstract call tree\<close>

text \<open>
  The specification: a finite map from call paths to counters, and the current path. Entering a
  function extends the path and counts it, a return adds the elapsed time and drops the last step.
\<close>

type_synonym ct_data = "nat \<times> u64 \<times> u64"

record acalltree =
  ac_tree :: "path \<Rightarrow> ct_data option"
  ac_path :: path
  ac_prev :: pt_insn_class

definition ac_init :: acalltree where
  "ac_init = \<lparr>ac_tree = [[] \<mapsto> (0, 0, 0)], ac_path = [], ac_prev = ptic_unknown\<rparr>"

definition data_or_new :: "ct_data option \<Rightarrow> ct_data" where
  "data_or_new d = (case d of None \<Rightarrow> (0, 0, 0) | Some x \<Rightarrow> x)"

definition ac_push :: "u64 \<Rightarrow> nat \<times> nat \<Rightarrow> acalltree \<Rightarrow> acalltree" where
  "ac_push tsc k a =
     (let p = ac_path a @ [k]
      in case data_or_new (ac_tree a p) of (c, tot, ent) \<Rightarrow>
           a\<lparr>ac_tree := (ac_tree a)(p \<mapsto> (c + 1, tot, tsc)), ac_path := p\<rparr>)"

definition pop_data :: "u64 \<Rightarrow> ct_data \<Rightarrow> ct_data" where
  "pop_data tsc d = (case d of (c, tot, ent) \<Rightarrow>
     (c, if tsc > 0 \<and> ent > 0 \<and> tsc > ent then tot + (tsc - ent) else tot, 0))"

definition ac_pop :: "u64 \<Rightarrow> acalltree \<Rightarrow> acalltree" where
  "ac_pop tsc a =
     (if ac_path a = [] then a
      else a\<lparr>ac_tree := (ac_tree a)(ac_path a := map_option (pop_data tsc) (ac_tree a (ac_path a))),
             ac_path := butlast (ac_path a)\<rparr>)"

definition ac_record :: "acalltree \<Rightarrow> insn_event \<Rightarrow> acalltree" where
  "ac_record a ev =
     (let a1 = (if enters (ac_prev a) ev then ac_push (ie_tsc ev) (skey (the (ie_sym ev))) a else a);
          a2 = (if is_return_class (ie_class ev) then ac_pop (ie_tsc ev) a1 else a1)
      in a2\<lparr>ac_prev := ie_class ev\<rparr>)"

section \<open>Refinement\<close>

definition data :: "ct_node \<Rightarrow> ct_data" where
  "data n = (cn_count n, cn_total_tsc n, cn_entry_tsc n)"

definition view :: "(nat \<Rightarrow> path) \<Rightarrow> calltree \<Rightarrow> (path \<Rightarrow> ct_data option) \<Rightarrow> bool" where
  "view pth ct T \<longleftrightarrow> (\<forall>p d. T p = Some d \<longleftrightarrow> (\<exists>q n. deref ct q = Some n \<and> ppath pth ct q = p \<and> data n = d))"

lemma viewD: "view pth ct T \<Longrightarrow> deref ct q = Some n \<Longrightarrow> T (ppath pth ct q) = Some (data n)"
  unfolding view_def by blast

lemma view_None: "view pth ct T \<Longrightarrow> T p = None \<Longrightarrow> deref ct q \<noteq> None \<Longrightarrow> ppath pth ct q \<noteq> p"
  using viewD [of pth ct T q] by auto

lemma view_update:
  assumes ok: "heap_ok pth ct" and v: "view pth ct T" and q: "deref ct q = Some n"
    and d: "\<And>r. deref ct' r = (if r = q then Some n' else deref ct r)"
    and p: "\<And>r. ppath pth ct' r = ppath pth ct r"
  shows "view pth ct' (T(ppath pth ct q \<mapsto> data n'))"
  unfolding view_def
proof (intro allI iffI)
  fix x e assume h: "(T(ppath pth ct q \<mapsto> data n')) x = Some e"
  show "\<exists>r m. deref ct' r = Some m \<and> ppath pth ct' r = x \<and> data m = e"
  proof (cases "x = ppath pth ct q")
    case True
    then show ?thesis using h by (intro exI [of _ q] exI [of _ n']) (simp add: d p)
  next
    case False
    then obtain r m where "deref ct r = Some m" "ppath pth ct r = x" "data m = e"
      using h v unfolding view_def by auto
    then show ?thesis using False by (intro exI [of _ r] exI [of _ m]) (auto simp: d p)
  qed
next
  fix x e assume "\<exists>r m. deref ct' r = Some m \<and> ppath pth ct' r = x \<and> data m = e"
  then obtain r m where r: "deref ct' r = Some m" "ppath pth ct r = x" "data m = e" by (auto simp: p)
  show "(T(ppath pth ct q \<mapsto> data n')) x = Some e"
  proof (cases "r = q")
    case False
    then have "deref ct r = Some m" using r by (simp add: d)
    moreover have "x \<noteq> ppath pth ct q"
      using ppath_inj [OF ok, of r q] False r(2) q calculation by auto
    ultimately show ?thesis using viewD [OF v] r by auto
  qed (use r in \<open>simp add: d\<close>)
qed

text \<open>Pointers with short paths, such as those on the shadow stack, survive and keep their path.\<close>

definition keeps :: "nat \<Rightarrow> (nat \<Rightarrow> path) \<Rightarrow> calltree \<Rightarrow> (nat \<Rightarrow> path) \<Rightarrow> calltree \<Rightarrow> bool" where
  "keeps l pth ct pth' ct' \<longleftrightarrow>
     (\<forall>r. deref ct r \<noteq> None \<and> length (ppath pth ct r) \<le> l \<longrightarrow>
          deref ct' r \<noteq> None \<and> ppath pth' ct' r = ppath pth ct r)"

lemma keeps_trans:
  "keeps l pth ct pth1 ct1 \<Longrightarrow> keeps l pth1 ct1 pth2 ct2 \<Longrightarrow> keeps l pth ct pth2 ct2"
  unfolding keeps_def by metis

lemma realloc_view:
  assumes ok: "heap_ok pth ct" and q: "deref ct q = Some n" and v: "view pth ct T"
    and r: "ct_realloc_children ct q n newcap = Some ct'"
  defines "pth' \<equiv> pth(ct_next ct := ppath pth ct q)"
  shows "view pth' ct' T" and "keeps (length (ppath pth ct q)) pth ct pth' ct'"
    and "ppath pth' ct' q = ppath pth ct q"
proof -
  note mv = realloc_moves [OF ok q r, folded pth'_def]
  show "ppath pth' ct' q = ppath pth ct q" using mv(2) [OF q] mv(4) by simp
  show "view pth' ct' T" unfolding view_def
  proof (intro allI iffI)
    fix x e assume "T x = Some e"
    then obtain r0 m where r0: "deref ct r0 = Some m" "ppath pth ct r0 = x" "data m = e"
      using v unfolding view_def by blast
    have "data (if r0 = q then n\<lparr>cn_children := Some (ct_next ct), cn_children_cap := newcap\<rparr> else m) = e"
      using r0 q by (auto simp: data_def)
    then show "\<exists>r m. deref ct' r = Some m \<and> ppath pth' ct' r = x \<and> data m = e"
      using mv(1,2) [OF r0(1)] r0(2) by blast
  next
    fix x e assume "\<exists>r m. deref ct' r = Some m \<and> ppath pth' ct' r = x \<and> data m = e"
    then obtain r1 k where k: "deref ct' r1 = Some k" "ppath pth' ct' r1 = x" "data k = e" by blast
    then obtain r0 m where r0: "r1 = moved (cn_children n) (ct_next ct) r0" "deref ct r0 = Some m"
      using mv(3) [of r1] by auto
    then have "data m = e" using k mv(1) [OF r0(2)] q by (auto simp: data_def split: if_splits)
    then show "T x = Some e" using viewD [OF v r0(2)] mv(2) [OF r0(2)] k(2) r0(1) by simp
  qed
  show "keeps (length (ppath pth ct q)) pth ct pth' ct'" unfolding keeps_def
  proof (intro allI impI)
    fix r0 assume h: "deref ct r0 \<noteq> None \<and> length (ppath pth ct r0) \<le> length (ppath pth ct q)"
    then obtain m where m: "deref ct r0 = Some m" by auto
    have "moved (cn_children n) (ct_next ct) r0 = r0"
      using h heap_okD(1) [OF ok q] by (cases r0) (auto simp: node_ok_def)
    then show "deref ct' r0 \<noteq> None \<and> ppath pth' ct' r0 = ppath pth ct r0"
      using mv(1,2) [OF m] by simp
  qed
qed

lemma append_view:
  assumes ok: "heap_ok pth ct" and q: "deref ct q = Some p" "cn_children p = Some b"
    and room: "cn_nchildren p < cn_children_cap p" and v: "view pth ct T"
    and new: "T (ppath pth ct q @ [(ptr_of name, ptr_of binary)]) = None"
  obtains ct' where "ct_append_child ct q name binary = Some (Cell b (cn_nchildren p), ct')"
    "heap_ok pth ct'" "frame_eq ct ct'"
    "view pth ct' (T(ppath pth ct q @ [(ptr_of name, ptr_of binary)] \<mapsto> (0, 0, 0)))"
    "keeps l pth ct pth ct'" "deref ct' (Cell b (cn_nchildren p)) = Some (ct_node_init name binary)"
    "ppath pth ct' (Cell b (cn_nchildren p)) = ppath pth ct q @ [(ptr_of name, ptr_of binary)]"
proof -
  let ?c = "Cell b (cn_nchildren p)"
  let ?k = "(ptr_of name, ptr_of binary)"
  obtain ct' where a: "ct_append_child ct q name binary = Some (?c, ct')"
    and d: "\<And>r. deref ct' r = (if r = q then Some (p\<lparr>cn_nchildren := cn_nchildren p + 1\<rparr>)
        else if r = ?c then Some (ct_node_init name binary) else deref ct r)"
    and bl: "\<And>a. blen ct' a = (if a = b then Some (cn_nchildren p + 1) else blen ct a)"
    and nx: "ct_next ct' = ct_next ct" and fr: "frame_eq ct ct'"
    using append_effect [OF ok q, of name binary] by blast
  have pok: "blen ct b = Some (cn_nchildren p)" "pth b = ppath pth ct q"
    using heap_okD(1) [OF ok q(1)] q(2) by (auto simp: node_ok_def)
  have fresh: "\<forall>i c. deref ct (Cell b i) = Some c \<longrightarrow> nkey c \<noteq> ?k"
  proof (intro allI impI)
    fix i c assume c: "deref ct (Cell b i) = Some c"
    show "nkey c \<noteq> ?k" using view_None [OF v new, of "Cell b i"] c pok(2) by auto
  qed
  note h = append_heap_ok [OF ok q room fresh d bl nx]
  have cnone: "deref ct ?c = None" using pok(1) deref_cell [of ct b "cn_nchildren p"] by (cases "deref ct ?c") auto
  have newc: "deref ct' ?c = Some (ct_node_init name binary)" using q(1) cnone by (auto simp: d)
  have new0: "data (ct_node_init name binary) = (0, 0, 0)" by (simp add: data_def ct_node_init_def)
  have vw: "view pth ct' (T(ppath pth ct q @ [?k] \<mapsto> (0, 0, 0)))" unfolding view_def
  proof (intro allI iffI)
    fix x e assume x: "(T(ppath pth ct q @ [?k] \<mapsto> (0, 0, 0))) x = Some e"
    show "\<exists>r m. deref ct' r = Some m \<and> ppath pth ct' r = x \<and> data m = e"
    proof (cases "x = ppath pth ct q @ [?k]")
      case True
      then have "e = (0, 0, 0)" using x by simp
      then show ?thesis using True h(3) newc new0 by blast
    next
      case False
      then obtain r m where r: "deref ct r = Some m" "ppath pth ct r = x" "data m = e"
        using x v unfolding view_def by auto
      let ?m = "if r = q then p\<lparr>cn_nchildren := cn_nchildren p + 1\<rparr> else m"
      have "deref ct' r = Some ?m" using r(1) cnone by (auto simp: d)
      moreover have "data ?m = e" using r q(1) by (auto simp: data_def)
      ultimately show ?thesis using h(2) [of r] r(1,2) by auto
    qed
  next
    fix x e assume "\<exists>r m. deref ct' r = Some m \<and> ppath pth ct' r = x \<and> data m = e"
    then obtain r m where r: "deref ct' r = Some m" "ppath pth ct' r = x" "data m = e" by blast
    show "(T(ppath pth ct q @ [?k] \<mapsto> (0, 0, 0))) x = Some e"
    proof (cases "r = ?c")
      case True
      then show ?thesis using r h(3) newc new0 by simp
    next
      case False
      then obtain m0 where m0: "deref ct r = Some m0" "data m0 = e" using r q by (auto simp: d data_def split: if_splits)
      then show ?thesis using viewD [OF v m0(1)] h(2) [of r] r(2) new by auto
    qed
  qed
  have "deref ct r \<noteq> None \<Longrightarrow> deref ct' r \<noteq> None" for r by (simp add: d)
  then have "keeps l pth ct pth ct'" using h(2) by (simp add: keeps_def)
  then show ?thesis using that [OF a h(1) fr vw] newc h(3) by blast
qed

text \<open>
  What a call that returns a child promises: the child has the path \<open>x\<close>, it is new with zero
  counters if the path was new, nothing else changed, and short pointers are still valid.
\<close>

definition child_post ::
  "(nat \<Rightarrow> path) \<Rightarrow> calltree \<Rightarrow> nat \<Rightarrow> path \<Rightarrow> (path \<Rightarrow> ct_data option) \<Rightarrow> ct_ptr \<Rightarrow> calltree \<Rightarrow> bool" where
  "child_post pth ct l x T child ct' \<longleftrightarrow>
     frame_eq ct ct' \<and>
     (\<exists>pth'. heap_ok pth' ct' \<and> deref ct' child \<noteq> None \<and> ppath pth' ct' child = x \<and>
        view pth' ct' (T(x \<mapsto> data_or_new (T x))) \<and> keeps l pth ct pth' ct')"

lemma find_or_add_reads:
  assumes ok: "heap_ok pth ct" and q: "deref ct q = Some p"
  obtains cs where "children_of ct p = Some cs"
    "\<And>i b. cn_children p = Some b \<Longrightarrow> deref ct (Cell b i) = (if i < length cs then Some (cs ! i) else None)"
    "cn_children p = None \<Longrightarrow> cs = []"
  using heap_okD(1) [OF ok q]
  by (auto simp: children_of_def node_ok_def blen_def deref.simps split: option.splits)

lemma same_func_key: "same_func name binary c \<longleftrightarrow> nkey c = (ptr_of name, ptr_of binary)"
  by (auto simp: same_func_def nkey_def)

lemma absent_path_new:
  assumes ok: "heap_ok pth ct" and q: "deref ct q = Some p" and v: "view pth ct T"
    and cs: "\<And>i b. cn_children p = Some b \<Longrightarrow> deref ct (Cell b i) = (if i < length cs then Some (cs ! i) else None)"
    and none: "find_idx (same_func name binary) cs = None"
  shows "T (ppath pth ct q @ [(ptr_of name, ptr_of binary)]) = None"
proof (rule ccontr)
  assume "T (ppath pth ct q @ [(ptr_of name, ptr_of binary)]) \<noteq> None"
  then obtain r m where r: "deref ct r = Some m" "ppath pth ct r = ppath pth ct q @ [(ptr_of name, ptr_of binary)]"
    using v unfolding view_def by auto
  then obtain b i where bi: "r = Cell b i" by (cases r) auto
  then have pb: "pth b = ppath pth ct q" "nkey m = (ptr_of name, ptr_of binary)" using r by auto
  obtain r' m' where r': "deref ct r' = Some m'" "cn_children m' = Some b"
    using heap_okD(5) [OF ok, of b] r bi deref_cell [of ct b i] by auto
  then have "r' = q" using heap_okD(1) [OF ok r'(1)] pb q by (intro ppath_inj [OF ok]) (auto simp: node_ok_def)
  then have "m \<in> set cs" using r' q cs [of b i] r bi by (auto split: if_splits)
  then show False using none pb by (auto simp: find_idx_None same_func_key)
qed

lemma append_post:
  assumes ok: "heap_ok pth ct" and q: "deref ct q = Some p" "cn_children p = Some b"
    and room: "cn_nchildren p < cn_children_cap p" and v: "view pth ct T"
    and new: "T (ppath pth ct q @ [(ptr_of name, ptr_of binary)]) = None"
  shows "\<exists>child ct'. ct_append_child ct q name binary = Some (child, ct') \<and>
           child_post pth ct l (ppath pth ct q @ [(ptr_of name, ptr_of binary)]) T child ct'"
proof -
  let ?x = "ppath pth ct q @ [(ptr_of name, ptr_of binary)]"
  obtain ct' where a: "ct_append_child ct q name binary = Some (Cell b (cn_nchildren p), ct')"
    "heap_ok pth ct'" "frame_eq ct ct'" "view pth ct' (T(?x \<mapsto> (0, 0, 0)))" "keeps l pth ct pth ct'"
    "deref ct' (Cell b (cn_nchildren p)) = Some (ct_node_init name binary)"
    "ppath pth ct' (Cell b (cn_nchildren p)) = ?x"
    by (rule append_view [OF ok q room v new])
  moreover have "data_or_new (T ?x) = (0, 0, 0)" using new by (simp add: data_or_new_def)
  ultimately have "child_post pth ct l ?x T (Cell b (cn_nchildren p)) ct'"
    unfolding child_post_def by (intro conjI exI [of _ pth]) simp_all
  with a(1) show ?thesis by blast
qed

lemma grow_post:
  assumes ok: "heap_ok pth ct" and q: "deref ct q = Some p" and v: "view pth ct T"
    and new: "T (ppath pth ct q @ [(ptr_of name, ptr_of binary)]) = None" and cap: "cn_nchildren p < cap"
    and l: "l = length (ppath pth ct q)"
  shows "\<exists>ct1 child ct'. ct_realloc_children ct q p cap = Some ct1 \<and>
           ct_append_child ct1 q name binary = Some (child, ct') \<and>
           child_post pth ct l (ppath pth ct q @ [(ptr_of name, ptr_of binary)]) T child ct'"
proof -
  let ?pth = "pth(ct_next ct := ppath pth ct q)"
  let ?p = "p\<lparr>cn_children := Some (ct_next ct), cn_children_cap := cap\<rparr>"
  obtain ct1 where ct1: "ct_realloc_children ct q p cap = Some ct1" using realloc_total [OF ok q] by blast
  note ok1 = realloc_heap_ok [OF ok q cap ct1] and v1 = realloc_view [OF ok q v ct1]
  have q1: "deref ct1 q = Some ?p" using realloc_effect(1) [OF ok q ct1, of q] by simp
  have "\<exists>child ct'. ct_append_child ct1 q name binary = Some (child, ct') \<and>
      child_post ?pth ct1 l (ppath ?pth ct1 q @ [(ptr_of name, ptr_of binary)]) T child ct'"
    using new cap v1(3) by (intro append_post [OF ok1 q1 _ _ v1(1)]) simp_all
  then obtain child ct' where c: "ct_append_child ct1 q name binary = Some (child, ct')"
    "child_post ?pth ct1 l (ppath pth ct q @ [(ptr_of name, ptr_of binary)]) T child ct'" by (auto simp: v1(3))
  have "child_post pth ct l (ppath pth ct q @ [(ptr_of name, ptr_of binary)]) T child ct'"
    using c(2) frame_eq_trans [OF realloc_effect(4) [OF ok q ct1]] keeps_trans [OF v1(2)] l
    unfolding child_post_def by blast
  with ct1 c(1) show ?thesis by blast
qed

lemma find_or_add_spec:
  assumes ok: "heap_ok pth ct" and q: "deref ct q = Some p" and v: "view pth ct T"
    and l: "l = length (ppath pth ct q)"
  shows "(\<exists>child ct'. ct_find_or_add_child okc ct q name binary = Some (Some child, ct') \<and>
            child_post pth ct l (ppath pth ct q @ [(ptr_of name, ptr_of binary)]) T child ct') \<or>
         (\<not> okc \<and> ct_find_or_add_child okc ct q name binary = Some (None, ct))"
proof -
  let ?x = "ppath pth ct q @ [(ptr_of name, ptr_of binary)]"
  have pok: "node_ok pth ct q p" using heap_okD(1) [OF ok q] .
  obtain cs where cs: "children_of ct p = Some cs"
    "\<And>i b. cn_children p = Some b \<Longrightarrow> deref ct (Cell b i) = (if i < length cs then Some (cs ! i) else None)"
    "cn_children p = None \<Longrightarrow> cs = []"
    using find_or_add_reads [OF ok q] by blast
  show ?thesis
  proof (cases "find_idx (same_func name binary) cs")
    case (Some i)
    note i = find_idx_SomeD [OF Some]
    then obtain b where b: "cn_children p = Some b" using cs(3) by (cases "cn_children p") auto
    have c: "deref ct (Cell b i) = Some (cs ! i)" using cs(2) [OF b] i by simp
    have path: "ppath pth ct (Cell b i) = ?x" using pok b c i by (simp add: node_ok_def same_func_key)
    have "T(?x \<mapsto> data_or_new (T ?x)) = T" using viewD [OF v c] path by (auto simp: data_or_new_def)
    then have "child_post pth ct l ?x T (Cell b i) ct" unfolding child_post_def
      using ok v c path by (intro conjI exI [of _ pth]) (simp_all add: frame_eq_def keeps_def)
    moreover have "ct_find_or_add_child okc ct q name binary = Some (Some (Cell b i), ct)"
      using Some q cs(1) b by (simp add: ct_find_or_add_child_def)
    ultimately show ?thesis by blast
  next
    case None
    note new = absent_path_new [OF ok q v cs(2) None]
    show ?thesis
    proof (cases "cn_nchildren p \<ge> cn_children_cap p")
      case False
      then obtain b where b: "cn_children p = Some b" using pok by (auto simp: node_ok_def split: option.splits)
      show ?thesis using append_post [OF ok q b _ v new, of l] False None cs(1) q
        by (fastforce simp: ct_find_or_add_child_def)
    next
      case True
      let ?cap = "if cn_children_cap p = 0 then 8 else cn_children_cap p * 2"
      have cap: "cn_nchildren p < ?cap" using pok by (auto simp: node_ok_def split: option.splits)
      obtain ct1 child ct' where g: "ct_realloc_children ct q p ?cap = Some ct1"
        "ct_append_child ct1 q name binary = Some (child, ct')" "child_post pth ct l ?x T child ct'"
        using grow_post [OF ok q v new cap l] by blast
      have "ct_find_or_add_child okc ct q name binary = (if okc then Some (Some child, ct') else Some (None, ct))"
        using True None cs(1) q g(1,2) by (simp add: ct_find_or_add_child_def)
      with g(3) show ?thesis by (cases okc) auto
    qed
  qed
qed

section \<open>The shadow stack\<close>

definition stack_ok :: "(nat \<Rightarrow> path) \<Rightarrow> calltree \<Rightarrow> path \<Rightarrow> bool" where
  "stack_ok pth ct x \<longleftrightarrow>
     ct_depth ct = length x \<and> length x < length (ct_stack ct) \<and>
     (\<forall>i \<le> length x. \<exists>q. ct_stack ct ! i = Some q \<and> deref ct q \<noteq> None \<and> ppath pth ct q = take i x)"

text \<open>The simulation between the tree on the heap and the map of call paths.\<close>

definition sim :: "calltree \<Rightarrow> acalltree \<Rightarrow> bool" where
  "sim ct a \<longleftrightarrow>
     (\<exists>pth. heap_ok pth ct \<and> view pth ct (ac_tree a) \<and> stack_ok pth ct (ac_path a)) \<and>
     ct_prev_class ct = ac_prev a"

lemma stack_keeps:
  assumes "stack_ok pth ct x" "keeps (length x) pth ct pth' ct'" "frame_eq ct ct'"
  shows "stack_ok pth' ct' x"
  unfolding stack_ok_def
proof (intro conjI allI impI)
  fix i assume i: "i \<le> length x"
  then obtain q where q: "ct_stack ct ! i = Some q" "deref ct q \<noteq> None" "ppath pth ct q = take i x"
    using assms(1) unfolding stack_ok_def by blast
  then have "deref ct' q \<noteq> None \<and> ppath pth' ct' q = take i x"
    using assms(2) unfolding keeps_def by auto
  then show "\<exists>q. ct_stack ct' ! i = Some q \<and> deref ct' q \<noteq> None \<and> ppath pth' ct' q = take i x"
    using q(1) assms(3) by (auto simp: frame_eq_def)
qed (use assms in \<open>auto simp: stack_ok_def frame_eq_def\<close>)

lemma stack_top:
  assumes "stack_ok pth ct x"
  obtains q n where "stack_at ct (ct_depth ct) = Some q" "deref ct q = Some n" "ppath pth ct q = x"
  using assms by (fastforce simp: stack_ok_def stack_at_def)

lemma update_node:
  assumes ok: "heap_ok pth ct" and q: "deref ct q = Some n" and v: "view pth ct T"
    and sh: "same_shape n n'"
  shows "\<exists>ct'. store ct q n' = Some ct' \<and> heap_ok pth ct' \<and> frame_eq ct ct' \<and>
     view pth ct' (T(ppath pth ct q \<mapsto> data n')) \<and> (\<forall>l. keeps l pth ct pth ct') \<and>
     deref ct' q = Some n' \<and> ppath pth ct' q = ppath pth ct q"
proof -
  obtain ct' where st: "store ct q n' = Some ct'" using store_total [of ct q n'] q by auto
  note e = store_effect [OF st]
  note u = update_shape [OF ok q sh e(1-3)]
  have "\<forall>l. keeps l pth ct pth ct'" using u q by (auto simp: keeps_def e(1))
  moreover have "view pth ct' (T(ppath pth ct q \<mapsto> data n'))" using u by (intro view_update [OF ok v q e(1)]) simp
  ultimately show ?thesis using st u e(1,4) by auto
qed

lemma push_slot:
  assumes s: "stack_ok pth ct x" and c: "deref ct child \<noteq> None" "ppath pth ct child = x @ [k]"
    and ct'_def: "ct' = calltree_push_slot oks ct child"
  shows "stack_ok pth ct' (x @ [k]) \<or> (\<not> oks \<and> stack_ok pth ct' x)"
    and "deref ct' r = deref ct r" and "ppath pth ct' r = ppath pth ct r" and "blen ct' b = blen ct b"
    and "ct_next ct' = ct_next ct" and "ct_prev_class ct' = ct_prev_class ct"
proof -
  show d: "deref ct' r = deref ct r" for r by (cases r) (auto simp: ct'_def calltree_push_slot_def Let_def deref.simps)
  then show p: "ppath pth ct' r = ppath pth ct r" for r by (cases r) auto
  show "blen ct' b = blen ct b" "ct_next ct' = ct_next ct" "ct_prev_class ct' = ct_prev_class ct"
    by (simp_all add: ct'_def calltree_push_slot_def Let_def blen_def)
  have depth: "ct_depth ct = length x" "length x < length (ct_stack ct)" using s by (auto simp: stack_ok_def)
  consider "length (ct_stack ct) \<le> length x + 1" "\<not> oks" "ct' = ct"
    | st where "ct_stack ct' = st[length x + 1 := Some child]" "length x + 1 < length st"
        "ct_depth ct' = length x + 1" "\<forall>i \<le> length x. st ! i = ct_stack ct ! i"
    using depth by (cases "length (ct_stack ct) \<le> length x + 1"; cases oks)
      (auto simp: ct'_def calltree_push_slot_def Let_def nth_append)
  then show "stack_ok pth ct' (x @ [k]) \<or> (\<not> oks \<and> stack_ok pth ct' x)"
  proof cases
    case 1
    then show ?thesis using s by simp
  next
    case 2
    have "\<exists>q. ct_stack ct' ! i = Some q \<and> deref ct' q \<noteq> None \<and> ppath pth ct' q = take i (x @ [k])"
      if i: "i \<le> length x + 1" for i
    proof (cases "i = length x + 1")
      case True
      then show ?thesis using 2 c by (intro exI [of _ child]) (simp add: d p)
    next
      case False
      then have "i \<le> length x" using i by simp
      then show ?thesis using 2 s by (fastforce simp: stack_ok_def d p)
    qed
    then show ?thesis using 2 by (auto simp: stack_ok_def)
  qed
qed

lemma same_heap:
  assumes d: "\<And>r. deref ct' r = deref ct r" and b: "\<And>b. blen ct' b = blen ct b" "ct_next ct' = ct_next ct"
  shows "ppath pth ct' r = ppath pth ct r" "heap_ok pth ct' = heap_ok pth ct" "view pth ct' T = view pth ct T"
proof -
  have p: "ppath pth ct' r = ppath pth ct r" for r by (cases r) (auto simp: d)
  then show "ppath pth ct' r = ppath pth ct r" .
  have "node_ok pth ct' = node_ok pth ct" by (intro ext) (simp add: node_ok_def b p split: option.split)
  then show "heap_ok pth ct' = heap_ok pth ct" by (simp add: heap_ok_def d b)
  show "view pth ct' T = view pth ct T" by (simp add: view_def d p)
qed

lemma push_sim:
  assumes s: "sim ct a"
  shows "\<exists>ct' a'. calltree_push okc oks ct (Some sy) tsc = Some ct' \<and> sim ct' a' \<and>
           (okc \<and> oks \<longrightarrow> a' = ac_push tsc (skey sy) a)"
proof -
  obtain pth where ok: "heap_ok pth ct" "view pth ct (ac_tree a)" "stack_ok pth ct (ac_path a)"
    using s by (auto simp: sim_def)
  obtain q n where q: "stack_at ct (ct_depth ct) = Some q" "deref ct q = Some n" "ppath pth ct q = ac_path a"
    by (rule stack_top [OF ok(3)])
  let ?l = "length (ac_path a)"
  let ?x = "ac_path a @ [skey sy]"
  have len: "?l = length (ppath pth ct q)" by (simp add: q(3))
  from find_or_add_spec [OF ok(1) q(2) ok(2) len, of okc "sy_name sy" "sy_binary sy"]
  consider (child) child ct1 where "ct_find_or_add_child okc ct q (sy_name sy) (sy_binary sy) = Some (Some child, ct1)"
      "child_post pth ct ?l ?x (ac_tree a) child ct1"
    | (null) "\<not> okc" "ct_find_or_add_child okc ct q (sy_name sy) (sy_binary sy) = Some (None, ct)"
    by (auto simp: q(3) skey_def)
  then show ?thesis
  proof cases
    case null
    then show ?thesis using q(1) s by (intro exI [of _ ct] exI [of _ a]) (simp add: calltree_push_def)
  next
    case child
    obtain pth1 m where c: "frame_eq ct ct1" "heap_ok pth1 ct1" "deref ct1 child = Some m" "ppath pth1 ct1 child = ?x"
      "view pth1 ct1 ((ac_tree a)(?x \<mapsto> data_or_new (ac_tree a ?x)))" "keeps ?l pth ct pth1 ct1"
      using child(2) unfolding child_post_def by auto
    let ?m = "m\<lparr>cn_count := cn_count m + 1, cn_entry_tsc := tsc\<rparr>"
    have sh: "same_shape m ?m" by (simp add: same_shape_def nkey_def)
    obtain ct2 where u: "store ct1 child ?m = Some ct2" "heap_ok pth1 ct2" "frame_eq ct1 ct2"
      "view pth1 ct2 ((ac_tree a)(?x \<mapsto> data ?m))" "\<forall>l. keeps l pth1 ct1 pth1 ct2"
      "deref ct2 child = Some ?m" "ppath pth1 ct2 child = ?x"
      using update_node [OF c(2,3,5) sh] c(4) by auto
    have st: "stack_ok pth1 ct2 (ac_path a)"
      using stack_keeps [OF ok(3)] keeps_trans [OF c(6)] u(5) frame_eq_trans [OF c(1) u(3)] by blast
    define ct' where "ct' = calltree_push_slot oks ct2 child"
    note ps = push_slot [OF st _ u(7) ct'_def]
    have dm: "data m = data_or_new (ac_tree a ?x)" using viewD [OF c(5,3)] c(4) by simp
    have push: "calltree_push okc oks ct (Some sy) tsc = Some ct'"
      using q(1) child(1) c(3) u(1) by (simp add: calltree_push_def ct'_def)
    have prev: "ct_prev_class ct' = ac_prev a"
      using ps(6) u(3,6) c(1) s by (simp add: frame_eq_def sim_def)
    have hv: "heap_ok pth1 ct'" "view pth1 ct' ((ac_tree a)(?x \<mapsto> data ?m))"
      using same_heap [of ct' ct2 pth1] ps(2,4,5) u(2,4,6) by simp_all
    let ?b = "a\<lparr>ac_tree := (ac_tree a)(?x \<mapsto> data ?m)\<rparr>"
    have ap: "ac_push tsc (skey sy) a = ?b\<lparr>ac_path := ?x\<rparr>"
      using dm by (auto simp: ac_push_def Let_def data_def split: prod.splits)
    show ?thesis
    proof (cases "stack_ok pth1 ct' ?x")
      case True
      then have "sim ct' (ac_push tsc (skey sy) a)" unfolding ap using hv prev by (auto simp: sim_def)
      with push show ?thesis by blast
    next
      case False
      then have "\<not> oks" "sim ct' ?b" using ps(1) u(6) hv prev by (auto simp: sim_def)
      with push show ?thesis by blast
    qed
  qed
qed

lemma pop_sim:
  assumes s: "sim ct a"
  shows "\<exists>ct'. calltree_pop ct tsc = Some ct' \<and> sim ct' (ac_pop tsc a)"
proof -
  obtain pth where ok: "heap_ok pth ct" "view pth ct (ac_tree a)" "stack_ok pth ct (ac_path a)"
    using s by (auto simp: sim_def)
  obtain q n where q: "stack_at ct (ct_depth ct) = Some q" "deref ct q = Some n" "ppath pth ct q = ac_path a"
    by (rule stack_top [OF ok(3)])
  have depth: "ct_depth ct = length (ac_path a)" using ok(3) by (simp add: stack_ok_def)
  show ?thesis
  proof (cases "ac_path a = []")
    case True
    then show ?thesis using s depth by (simp add: calltree_pop_def ac_pop_def)
  next
    case False
    have sh: "same_shape n (pop_node tsc n)" by (simp add: same_shape_def nkey_def pop_node_def)
    obtain ct1 where u: "store ct q (pop_node tsc n) = Some ct1" "heap_ok pth ct1" "frame_eq ct ct1"
      "view pth ct1 ((ac_tree a)(ac_path a \<mapsto> data (pop_node tsc n)))" "\<forall>l. keeps l pth ct pth ct1"
      using update_node [OF ok(1) q(2) ok(2) sh] q(3) by auto
    let ?ct = "ct1\<lparr>ct_depth := length (ac_path a) - 1\<rparr>"
    have d: "deref ?ct r = deref ct1 r" for r by (cases r) (simp_all add: deref.simps)
    have hv: "heap_ok pth ?ct" "view pth ?ct ((ac_tree a)(ac_path a \<mapsto> data (pop_node tsc n)))"
      "\<And>r. ppath pth ?ct r = ppath pth ct1 r"
      using same_heap [of ?ct ct1 pth] d u(2,4) by (simp_all add: blen_def)
    have st1: "stack_ok pth ct1 (ac_path a)" using stack_keeps [OF ok(3)] u(3,5) by blast
    have st: "stack_ok pth ?ct (butlast (ac_path a))"
      unfolding stack_ok_def
    proof (intro conjI allI impI)
      fix i assume "i \<le> length (butlast (ac_path a))"
      then have i: "i < length (ac_path a)" "i \<le> length (ac_path a)"
        using False by (cases "ac_path a" rule: rev_cases; simp)+
      then show "\<exists>q. ct_stack ?ct ! i = Some q \<and> deref ?ct q \<noteq> None \<and> ppath pth ?ct q = take i (butlast (ac_path a))"
        using st1 unfolding stack_ok_def d hv(3) by (simp add: take_butlast)
    qed (use st1 in \<open>auto simp: stack_ok_def\<close>)
    have dat: "map_option (pop_data tsc) (ac_tree a (ac_path a)) = Some (data (pop_node tsc n))"
      using viewD [OF ok(2) q(2)] q(3) by (simp add: data_def pop_data_def pop_node_def)
    have "sim ?ct (ac_pop tsc a)"
      using hv(1,2) st s False u(3) by (auto simp: sim_def ac_pop_def dat frame_eq_def)
    then show ?thesis using False depth q u(1) by (simp add: calltree_pop_def)
  qed
qed

lemma record_sim:
  assumes s: "sim ct a"
  shows "\<exists>ct' a'. calltree_record okc oks ct ev = Some ct' \<and> sim ct' a' \<and>
           (okc \<and> oks \<longrightarrow> a' = ac_record a ev)"
proof -
  have prev: "ct_prev_class ct = ac_prev a" using s by (simp add: sim_def)
  obtain ct1 a1 where one: "(if enters (ct_prev_class ct) ev then calltree_push okc oks ct (ie_sym ev) (ie_tsc ev)
        else Some ct) = Some ct1" "sim ct1 a1"
      "okc \<and> oks \<longrightarrow> a1 = (if enters (ac_prev a) ev then ac_push (ie_tsc ev) (skey (the (ie_sym ev))) a else a)"
  proof (cases "enters (ct_prev_class ct) ev")
    case True
    then obtain sy where "ie_sym ev = Some sy" by (auto simp: enters_def)
    with push_sim [OF s, of okc oks sy "ie_tsc ev"] True prev that show ?thesis by auto
  qed (use s prev that in auto)
  obtain ct2 where two: "(if is_return_class (ie_class ev) then calltree_pop ct1 (ie_tsc ev) else Some ct1) = Some ct2"
      "sim ct2 (if is_return_class (ie_class ev) then ac_pop (ie_tsc ev) a1 else a1)"
    using pop_sim [OF one(2), of "ie_tsc ev"] one(2) by (cases "is_return_class (ie_class ev)") auto
  let ?ct = "ct2\<lparr>ct_prev_sym := ie_sym ev, ct_prev_class := ie_class ev\<rparr>"
  let ?a = "(if is_return_class (ie_class ev) then ac_pop (ie_tsc ev) a1 else a1)\<lparr>ac_prev := ie_class ev\<rparr>"
  have d: "deref ?ct r = deref ct2 r" for r by (cases r) (simp_all add: deref.simps)
  have "sim ?ct ?a"
    using two(2) same_heap [of ?ct ct2, OF d] by (simp add: sim_def stack_ok_def blen_def d)
  moreover have "calltree_record okc oks ct ev = Some ?ct" using one(1) two(1) by (simp add: calltree_record_def)
  ultimately show ?thesis using one(3) by (auto simp: ac_record_def Let_def)
qed

lemma run_sim:
  "sim ct a \<Longrightarrow> \<exists>ct' a'. calltree_run ct evs = Some ct' \<and> sim ct' a' \<and>
     ((\<forall>(okc, oks, ev) \<in> set evs. okc \<and> oks) \<longrightarrow> a' = foldl ac_record a (map (snd \<circ> snd) evs))"
proof (induction evs arbitrary: ct a)
  case (Cons e evs)
  obtain okc oks ev where e: "e = (okc, oks, ev)" by (cases e)
  obtain ct1 a1 where one: "calltree_record okc oks ct ev = Some ct1" "sim ct1 a1" "okc \<and> oks \<longrightarrow> a1 = ac_record a ev"
    using record_sim [OF Cons.prems] by blast
  from Cons.IH [OF one(2)] one e show ?case by fastforce
qed simp

lemma init_sim: "calltree_init True = Some ct \<Longrightarrow> sim ct ac_init"
proof -
  assume i: "calltree_init True = Some ct"
  have d: "deref ct q = (if q = Root then Some (ct_node_init (0, ''<root>'') (0, [])) else None)" for q
    using i by (cases q) (auto simp: calltree_init_def deref.simps)
  have b: "blen ct b = None" for b using i by (auto simp: calltree_init_def blen_def)
  have "heap_ok (\<lambda>_. []) ct" by (rule heap_okI) (auto simp: d b node_ok_def ct_node_init_def split: if_splits)
  moreover have "view (\<lambda>_. []) ct (ac_tree ac_init)"
    by (auto simp: view_def d ac_init_def data_def ct_node_init_def)
  moreover have "stack_ok (\<lambda>_. []) ct (ac_path ac_init)"
    using i by (auto simp: stack_ok_def calltree_init_def ac_init_def deref.simps)
  ultimately show ?thesis using i unfolding sim_def by (auto simp: calltree_init_def ac_init_def)
qed


definition call_stream_ok :: "(bool \<times> bool \<times> insn_event) list" where
  "call_stream_ok = map (\<lambda>e. (True, True, e)) call_stream"


section \<open>Reading the tree by path\<close>

text \<open>Following the children pointers from a node along the keys of a call path.\<close>

fun walk :: "calltree \<Rightarrow> ct_ptr \<Rightarrow> path \<Rightarrow> ct_ptr option" where
  "walk ct q [] = Some q"
| "walk ct q (k # ks) =
     do { n \<leftarrow> deref ct q;
          cs \<leftarrow> children_of ct n;
          i \<leftarrow> find_idx (\<lambda>c. nkey c = k) cs;
          b \<leftarrow> cn_children n;
          walk ct (Cell b i) ks }"

definition path_data :: "calltree \<Rightarrow> path \<Rightarrow> ct_data option" where
  "path_data ct p = (case walk ct Root p of None \<Rightarrow> None | Some q \<Rightarrow> map_option data (deref ct q))"

lemma walk_append: "walk ct q (xs @ ys) = Option.bind (walk ct q xs) (\<lambda>r. walk ct r ys)"
  by (induction xs arbitrary: q) (auto simp: Option.bind_assoc)

lemma walk_step:
  assumes ok: "heap_ok pth ct" and q: "deref ct q = Some n" "cn_children n = Some b"
    and c: "deref ct (Cell b i) = Some c"
  shows "walk ct q [nkey c] = Some (Cell b i)"
proof -
  obtain cs where cs: "children_of ct n = Some cs"
    "\<And>j. deref ct (Cell b j) = (if j < length cs then Some (cs ! j) else None)"
    using find_or_add_reads [OF ok q(1)] q(2) by metis
  have i: "i < length cs" "cs ! i = c" using c cs(2) [of i] by (auto split: if_splits)
  then obtain j where j: "find_idx (\<lambda>x. nkey x = nkey c) cs = Some j"
    by (cases "find_idx (\<lambda>x. nkey x = nkey c) cs") (auto simp: find_idx_None)
  have "j = i" using find_idx_SomeD [OF j] i cs(2) heap_okD(4) [OF ok, of b j i] by simp
  then show ?thesis using q cs(1) j by simp
qed

lemma walk_complete:
  assumes ok: "heap_ok pth ct" and q: "deref ct q = Some n"
  shows "walk ct Root (ppath pth ct q) = Some q"
  using q
proof (induction "length (ppath pth ct q)" arbitrary: q n rule: less_induct)
  case less
  show ?case
  proof (cases q)
    case (Cell b i)
    obtain r m where r: "deref ct r = Some m" "cn_children m = Some b"
      using heap_okD(5) [OF ok, of b] less.prems Cell deref_cell [of ct b i] by auto
    have pb: "pth b = ppath pth ct r" using heap_okD(1) [OF ok r(1)] r(2) by (simp add: node_ok_def)
    have path: "ppath pth ct q = ppath pth ct r @ [nkey n]" using Cell less.prems pb by simp
    have "walk ct Root (ppath pth ct r) = Some r" using less.hyps [OF _ r(1)] path by simp
    moreover have "walk ct r [nkey n] = Some q" using walk_step [OF ok r] less.prems Cell by simp
    ultimately show ?thesis by (simp add: path walk_append del: walk.simps)
  qed simp
qed

lemma walk_sound:
  assumes ok: "heap_ok pth ct"
  shows "walk ct q ks = Some r \<Longrightarrow> deref ct q \<noteq> None \<Longrightarrow> deref ct r \<noteq> None \<and> ppath pth ct r = ppath pth ct q @ ks"
proof (induction ks arbitrary: q)
  case (Cons k ks)
  then obtain n cs i b where s: "deref ct q = Some n" "children_of ct n = Some cs"
    "find_idx (\<lambda>c. nkey c = k) cs = Some i" "cn_children n = Some b" "walk ct (Cell b i) ks = Some r"
    by (auto simp: bind_eq_Some_conv)
  note i = find_idx_SomeD [OF s(3)]
  have c: "deref ct (Cell b i) = Some (cs ! i)"
    using find_or_add_reads [OF ok s(1)] s(2,4) i by (metis option.inject)
  moreover have "pth b = ppath pth ct q" using heap_okD(1) [OF ok s(1)] s(4) by (simp add: node_ok_def)
  ultimately show ?case using Cons.IH [OF s(5)] i by simp
qed simp

lemma view_path_data:
  assumes ok: "heap_ok pth ct" and v: "view pth ct T"
  shows "path_data ct = T"
proof
  fix p
  show "path_data ct p = T p"
  proof (cases "walk ct Root p")
    case None
    have "T p = None"
    proof (rule ccontr)
      assume "T p \<noteq> None"
      then obtain q n where "deref ct q = Some n" "ppath pth ct q = p" using v unfolding view_def by auto
      then show False using walk_complete [OF ok] None by force
    qed
    then show ?thesis using None by (simp add: path_data_def)
  next
    case (Some q)
    then obtain n where "deref ct q = Some n" "ppath pth ct q = p"
      using walk_sound [OF ok Some] by (auto simp: deref.simps)
    then show ?thesis using viewD [OF v] Some by (auto simp: path_data_def)
  qed
qed

text \<open>The call path at each function entry of a stream.\<close>

fun call_paths :: "pt_insn_class \<Rightarrow> path \<Rightarrow> insn_event list \<Rightarrow> path list" where
  "call_paths prev x [] = []"
| "call_paths prev x (e # es) =
     (let x1 = (if enters prev e then x @ [skey (the (ie_sym e))] else x);
          x2 = (if is_return_class (ie_class e) then butlast x1 else x1)
      in (if enters prev e then [x1] else []) @ call_paths (ie_class e) x2 es)"

lemma call_paths_entered: "map last (call_paths prev x es) = map skey (entered prev es)"
  by (induction prev x es rule: call_paths.induct) (auto simp: Let_def)

lemma ac_push_fields [simp]:
  "ac_path (ac_push t k a) = ac_path a @ [k]" "ac_prev (ac_push t k a) = ac_prev a"
  "fst (data_or_new (ac_tree (ac_push t k a) p)) =
     fst (data_or_new (ac_tree a p)) + (if p = ac_path a @ [k] then 1 else 0)"
  by (cases "data_or_new (ac_tree a (ac_path a @ [k]))"; simp add: ac_push_def Let_def data_or_new_def)+

lemma ac_pop_fields [simp]:
  "ac_path (ac_pop t a) = butlast (ac_path a)" "ac_prev (ac_pop t a) = ac_prev a"
  "fst (data_or_new (ac_tree (ac_pop t a) p)) = fst (data_or_new (ac_tree a p))"
  by (auto simp: ac_pop_def data_or_new_def pop_data_def split: option.split prod.split)

lemma ac_record_fields:
  "ac_prev (ac_record a ev) = ie_class ev"
  "ac_path (ac_record a ev) =
     (let x1 = (if enters (ac_prev a) ev then ac_path a @ [skey (the (ie_sym ev))] else ac_path a)
      in if is_return_class (ie_class ev) then butlast x1 else x1)"
  "fst (data_or_new (ac_tree (ac_record a ev) p)) = fst (data_or_new (ac_tree a p)) +
     (if enters (ac_prev a) ev \<and> p = ac_path a @ [skey (the (ie_sym ev))] then 1 else 0)"
  by (simp_all add: ac_record_def Let_def)

lemma ac_counts:
  "fst (data_or_new (ac_tree (foldl ac_record a evs) p)) =
   fst (data_or_new (ac_tree a p)) + count_list (call_paths (ac_prev a) (ac_path a) evs) p"
  by (induction evs arbitrary: a) (auto simp: ac_record_fields Let_def)

lemma sim_counts:
  assumes "sim ct (foldl ac_record ac_init evs)"
  shows "path_data ct = ac_tree (foldl ac_record ac_init evs)"
    "ct_depth ct = length (ac_path (foldl ac_record ac_init evs))"
    "fst (data_or_new (path_data ct p)) = count_list (call_paths ptic_unknown [] evs) p"
proof -
  let ?a = "foldl ac_record ac_init evs"
  obtain pth where "heap_ok pth ct" "view pth ct (ac_tree ?a)" "stack_ok pth ct (ac_path ?a)"
    using assms by (auto simp: sim_def)
  then show d: "path_data ct = ac_tree ?a" and "ct_depth ct = length (ac_path ?a)"
    using view_path_data by (auto simp: stack_ok_def)
  show "fst (data_or_new (path_data ct p)) = count_list (call_paths ptic_unknown [] evs) p"
    using ac_counts [of ac_init evs p] by (simp add: d ac_init_def data_or_new_def)
qed

lemma run_all_sim:
  assumes "calltree_init True = Some ct"
  obtains ct' where "calltree_run ct (map (\<lambda>e. (True, True, e)) evs) = Some ct'" "sim ct' (foldl ac_record ac_init evs)"
proof -
  have "\<forall>(okc, oks, ev) \<in> set (map (\<lambda>e. (True, True, e)) evs). okc \<and> oks" by auto
  then show thesis
    using that run_sim [OF init_sim [OF assms], of "map (\<lambda>e. (True, True, e)) evs"] by (auto simp: comp_def)
qed

text \<open>
  C1. The call tree is the tree of call paths: when memory suffices, the tree built on the heap
  refines the map of paths (same paths, same counts, same accumulated times, same depth), and the
  count of the node that a call path leads to is the number of times the stream entered a function
  with exactly that path.
\<close>

theorem calltree_refines_paths:
  assumes "calltree_init True = Some ct"
  shows "\<exists>ct'. calltree_run ct (map (\<lambda>e. (True, True, e)) evs) = Some ct' \<and>
           path_data ct' = ac_tree (foldl ac_record ac_init evs) \<and>
           ct_depth ct' = length (ac_path (foldl ac_record ac_init evs)) \<and>
           (\<forall>p. fst (data_or_new (path_data ct' p)) = count_list (call_paths ptic_unknown [] evs) p)"
proof -
  obtain ct' where "calltree_run ct (map (\<lambda>e. (True, True, e)) evs) = Some ct'"
    "sim ct' (foldl ac_record ac_init evs)" by (rule run_all_sim [OF assms])
  then show ?thesis using sim_counts [of ct' evs] by blast
qed

theorem calltree_refines_paths_witness:
  "\<exists>ct ct'. calltree_init True = Some ct \<and> calltree_run ct (map (\<lambda>e. (True, True, e)) call_stream) = Some ct' \<and>
     fst (data_or_new (path_data ct' [skey sym_g])) = 1"
proof -
  obtain ct where i: "calltree_init True = Some ct" by (simp add: calltree_init_def)
  have "call_paths ptic_unknown [] call_stream = [[skey sym_g]]"
    by (simp add: call_stream_def is_call_class_def is_return_class_def)
  then have one: "count_list (call_paths ptic_unknown [] call_stream) [skey sym_g] = 1" by simp
  obtain ct' where "calltree_run ct (map (\<lambda>e. (True, True, e)) call_stream) = Some ct'"
    "\<forall>p. fst (data_or_new (path_data ct' p)) = count_list (call_paths ptic_unknown [] call_stream) p"
    using calltree_refines_paths [OF i, of call_stream] by blast
  with i one show ?thesis by metis
qed

end
