(* ===== verification/Calltree_View.thy ===== *)
theory Calltree_View
  imports Calltree
begin

text \<open>
  \<open>decode.c\<close>, what is done with a finished call tree: printing it, counting and freeing its nodes.
  The recursive functions of the program follow the children pointers; here the tree they see is
  first read off the heap as a value (\<open>load_tree\<close>), with fuel for the depth. The fuel that
  \<open>ct_tree\<close> uses, one more than the number of blocks ever allocated, is always enough.
\<close>

section \<open>The tree the pointers reach\<close>

datatype ctree = CTree (ct_top: ct_node) (ct_subtrees: "ctree list")

fun load_tree :: "nat \<Rightarrow> calltree \<Rightarrow> ct_node \<Rightarrow> ctree option" where
  "load_tree 0 ct n = None"
| "load_tree (Suc fuel) ct n =
     do { cs \<leftarrow> children_of ct n;
          ts \<leftarrow> those (map (load_tree fuel ct) cs);
          Some (CTree n ts) }"

definition ct_tree :: "calltree \<Rightarrow> ctree option" where
  "ct_tree ct = load_tree (Suc (ct_next ct)) ct (ct_root ct)"

section \<open>Operations\<close>

definition ct_cmp_count :: "ctree \<Rightarrow> ctree \<Rightarrow> int" where
  "ct_cmp_count a b = int (cn_count (ct_top b)) - int (cn_count (ct_top a))"

definition ct_line :: "ct_node \<Rightarrow> nat \<Rightarrow> string" where
  "ct_line c indent =
     spaces (indent * 2) @ text_of (cn_binary c) @ '':'' @ text_of (cn_name c) @ ''  ('' @
     fmt_d (int (cn_count c)) @ '')'' @
     (if cn_total_tsc c > 0 then '' ['' @ fmt_lu (cn_total_tsc c) @ '' tsc]'' else []) @ nl"

definition sort_children :: "ctree list \<Rightarrow> ctree list" where
  "sort_children ts = (if length ts > 1 then qsort ct_cmp_count ts else ts)"

lemma mset_sort_children [simp]: "mset (sort_children ts) = mset ts"
  by (simp add: sort_children_def)

lemma set_sort_children [simp]: "set (sort_children ts) = set ts"
  by (metis mset_sort_children set_mset_mset)

function ct_print_node :: "ctree \<Rightarrow> nat \<Rightarrow> string" where
  "ct_print_node (CTree n ts) indent =
     concat (map (\<lambda>c. ct_line (ct_top c) indent @ ct_print_node c (indent + 1)) (sort_children ts))"
  by pat_completeness auto
termination
proof (relation "measure (\<lambda>(t, i). size t)")
  fix n ts indent c
  assume "c \<in> set (sort_children ts)"
  then have "size c < Suc (size_list size ts)" by (simp add: less_Suc_eq_le size_list_estimation')
  then show "((c, indent + 1), CTree n ts, indent) \<in> measure (\<lambda>(t, i). size t)" by simp
qed simp

definition calltree_print :: "calltree \<Rightarrow> string option" where
  "calltree_print ct = map_option (\<lambda>t. ct_print_node t 0) (ct_tree ct)"

fun ct_node_count :: "ctree \<Rightarrow> nat" where
  "ct_node_count (CTree n ts) = length ts + sum_list (map ct_node_count ts)"

text \<open>
  \<open>ct_node_free\<close> works on the heap: \<open>free\<close> of a block that is not allocated is undefined (\<open>None\<close>),
  as is reading a child in a freed block.
\<close>

fun ct_node_free :: "nat \<Rightarrow> (nat \<Rightarrow> ct_node list option) \<Rightarrow> ct_node \<Rightarrow> (nat \<Rightarrow> ct_node list option) option" where
  "ct_node_free 0 B n = None"
| "ct_node_free (Suc fuel) B n =
     (case cn_children n of
        None \<Rightarrow> Some B
      | Some b \<Rightarrow>
          do { cs \<leftarrow> B b;
               B1 \<leftarrow> foldl (\<lambda>acc c. Option.bind acc (\<lambda>B. ct_node_free fuel B c)) (Some B) (take (cn_nchildren n) cs);
               _ \<leftarrow> B1 b;
               Some (B1(b := None)) })"

definition calltree_free :: "calltree \<Rightarrow> calltree option" where
  "calltree_free ct =
     do { B \<leftarrow> ct_node_free (Suc (ct_next ct)) (ct_blocks ct) (ct_root ct);
          Some (ct\<lparr>ct_root := (ct_root ct)\<lparr>cn_children := None, cn_nchildren := 0\<rparr>, ct_blocks := B, ct_stack := []\<rparr>) }"

section \<open>Enough fuel\<close>

lemma path_levels:
  assumes ok: "heap_ok pth ct"
  shows "deref ct q = Some n \<Longrightarrow> m < length (ppath pth ct q) \<Longrightarrow> \<exists>b. blen ct b \<noteq> None \<and> length (pth b) = m"
proof (induction "length (ppath pth ct q)" arbitrary: q n rule: less_induct)
  case less
  then obtain b i where q: "q = Cell b i" by (cases q) auto
  have b: "blen ct b \<noteq> None" using less.prems(1) q deref_cell [of ct b i] by auto
  show ?case
  proof (cases "m = length (pth b)")
    case True
    then show ?thesis using b by blast
  next
    case False
    obtain r k where r: "deref ct r = Some k" "cn_children k = Some b" using heap_okD(5) [OF ok b] by blast
    then have "pth b = ppath pth ct r" using heap_okD(1) [OF ok r(1)] by (simp add: node_ok_def)
    then show ?thesis using less.hyps [of r k] less.prems(2) r(1) False q by auto
  qed
qed

lemma path_length:
  assumes ok: "heap_ok pth ct" and q: "deref ct q = Some n"
  shows "length (ppath pth ct q) \<le> ct_next ct"
proof -
  let ?l = "length (ppath pth ct q)"
  have "\<forall>m < ?l. \<exists>b. blen ct b \<noteq> None \<and> length (pth b) = m" using path_levels [OF ok q] by blast
  then obtain f where f: "\<forall>m < ?l. blen ct (f m) \<noteq> None \<and> length (pth (f m)) = m" by metis
  have "inj_on f {..<?l}" using f by (intro inj_onI) (metis lessThan_iff)
  moreover have "f ` {..<?l} \<subseteq> {..<ct_next ct}" using f heap_okD(3) [OF ok] by auto
  ultimately have "card {..<?l} \<le> card {..<ct_next ct}" by (intro card_inj_on_le) auto
  then show ?thesis by simp
qed

lemma those_total: "(\<And>x. x \<in> set xs \<Longrightarrow> f x \<noteq> None) \<Longrightarrow> \<exists>ys. those (map f xs) = Some ys"
  by (induction xs) (auto split: option.splits)

lemma load_tree_total:
  assumes ok: "heap_ok pth ct"
  shows "deref ct q = Some n \<Longrightarrow> ct_next ct < fuel + length (ppath pth ct q) \<Longrightarrow> load_tree fuel ct n \<noteq> None"
proof (induction fuel arbitrary: q n)
  case 0
  then show ?case using path_length [OF ok, of q n] by simp
next
  case (Suc fuel)
  obtain cs where cs: "children_of ct n = Some cs"
    "\<And>i b. cn_children n = Some b \<Longrightarrow> deref ct (Cell b i) = (if i < length cs then Some (cs ! i) else None)"
    "cn_children n = None \<Longrightarrow> cs = []"
    using find_or_add_reads [OF ok Suc.prems(1)] by blast
  have "load_tree fuel ct c \<noteq> None" if c: "c \<in> set cs" for c
  proof -
    obtain i where i: "i < length cs" "c = cs ! i" using c by (metis in_set_conv_nth)
    then obtain b where b: "cn_children n = Some b" using cs(3) by (cases "cn_children n") auto
    have d: "deref ct (Cell b i) = Some c" using cs(2) [OF b] i by simp
    have "pth b = ppath pth ct q" using heap_okD(1) [OF ok Suc.prems(1)] b by (simp add: node_ok_def)
    then show ?thesis using Suc.IH [OF d] Suc.prems(2) d by simp
  qed
  then show ?case using cs(1) those_total [of cs "load_tree fuel ct"] by auto
qed

lemma ct_tree_total: "sim ct a \<Longrightarrow> \<exists>t. ct_tree ct = Some t"
  using load_tree_total [of _ ct Root "ct_root ct" "Suc (ct_next ct)"]
  by (auto simp: sim_def ct_tree_def deref.simps simp del: load_tree.simps)

interpretation ctcmp: preorder_cmp ct_cmp_count
  by unfold_locales (auto simp: ct_cmp_count_def)

section \<open>Freeing\<close>

text \<open>The blocks below a path, and the heap without them.\<close>

definition below :: "(nat \<Rightarrow> path) \<Rightarrow> calltree \<Rightarrow> path \<Rightarrow> nat set" where
  "below pth ct x = {b. blen ct b \<noteq> None \<and> prefix x (pth b)}"

definition without :: "(nat \<Rightarrow> 'v option) \<Rightarrow> nat set \<Rightarrow> nat \<Rightarrow> 'v option" where
  "without B S b = (if b \<in> S then None else B b)"

lemma without_twice: "without (without B S) S' = without B (S \<union> S')"
  by (auto simp: without_def)

lemma below_child:
  assumes ok: "heap_ok pth ct" and q: "deref ct q = Some n" and b0: "cn_children n = Some b0"
    and cs: "\<And>i. deref ct (Cell b0 i) = (if i < length cs then Some (cs ! i) else None)"
    and x: "x = ppath pth ct q"
  shows "below pth ct x = insert b0 (\<Union>c \<in> set cs. below pth ct (x @ [nkey c]))"
proof -
  have p0: "blen ct b0 \<noteq> None" "pth b0 = x"
    using heap_okD(1) [OF ok q] b0 x by (auto simp: node_ok_def)
  have cover: "b = b0 \<or> (\<exists>c \<in> set cs. prefix (x @ [nkey c]) (pth b))" if b: "blen ct b \<noteq> None" "prefix x (pth b)" for b
  proof (cases "pth b = x")
    case True
    then show ?thesis using heap_okD(2) [OF ok b(1) p0(1)] p0(2) by simp
  next
    case False
    obtain ys where ys: "pth b = x @ ys" using b(2) by (auto simp: prefix_def)
    with False obtain k ks where k: "pth b = (x @ [k]) @ ks" by (cases ys) auto
    obtain r m where r: "deref ct r = Some m" "cn_children m = Some b" using heap_okD(5) [OF ok b(1)] by blast
    have "ppath pth ct r = (x @ [k]) @ ks" using heap_okD(1) [OF ok r(1)] r(2) k by (simp add: node_ok_def)
    then obtain r' where "walk ct Root (x @ [k]) = Some r'"
      using walk_complete [OF ok r(1)] walk_append [of ct Root "x @ [k]" ks] by (cases "walk ct Root (x @ [k])") auto
    then have r': "deref ct r' \<noteq> None" "ppath pth ct r' = x @ [k]"
      using walk_sound [OF ok, of Root "x @ [k]" r'] by (auto simp: deref.simps)
    then obtain b1 i where bi: "r' = Cell b1 i" "pth b1 = x" by (cases r') auto
    then have "b1 = b0" using heap_okD(2) [OF ok _ p0(1), of b1] p0(2) r'(1) deref_cell [of ct b1 i] by auto
    then have "i < length cs" "nkey (cs ! i) = k" using r' bi cs [of i] by (auto split: if_splits)
    then have "prefix (x @ [nkey (cs ! i)]) (pth b) \<and> cs ! i \<in> set cs" using k by auto
    then show ?thesis by blast
  qed
  show ?thesis
  proof (intro equalityI subsetI)
    fix b assume "b \<in> below pth ct x"
    then show "b \<in> insert b0 (\<Union>c \<in> set cs. below pth ct (x @ [nkey c]))"
      using cover [of b] by (simp add: below_def)
  next
    fix b assume "b \<in> insert b0 (\<Union>c \<in> set cs. below pth ct (x @ [nkey c]))"
    then show "b \<in> below pth ct x" using p0 by (auto simp: below_def dest: append_prefixD)
  qed
qed

lemma below_disjoint:
  "k \<noteq> k' \<Longrightarrow> below pth ct (x @ [k]) \<inter> below pth ct (x @ [k']) = {}"
  by (auto simp: below_def prefix_def)

definition agrees :: "calltree \<Rightarrow> (nat \<Rightarrow> ct_node list option) \<Rightarrow> nat set \<Rightarrow> bool" where
  "agrees ct B S \<longleftrightarrow> (\<forall>b \<in> S. B b = ct_blocks ct b)"

lemma free_children:
  assumes one: "\<And>c B. c \<in> set cs \<Longrightarrow> agrees ct B (S c) \<Longrightarrow> free B c = Some (without B (S c))"
    and disj: "\<And>i j. i < length cs \<Longrightarrow> j < length cs \<Longrightarrow> i \<noteq> j \<Longrightarrow> S (cs ! i) \<inter> S (cs ! j) = {}"
    and ag: "\<forall>c \<in> set cs. agrees ct B (S c)"
  shows "foldl (\<lambda>acc c. Option.bind acc (\<lambda>B. free B c)) (Some B) cs = Some (without B (\<Union>c \<in> set cs. S c))"
  using assms
proof (induction cs arbitrary: B)
  case Nil
  show ?case by (simp add: without_def fun_eq_iff)
next
  case (Cons c cs)
  have step: "free B c = Some (without B (S c))" using Cons.prems(1,3) by simp
  have "S c \<inter> S d = {}" if d: "d \<in> set cs" for d
  proof -
    obtain i where "i < length cs" "d = cs ! i" using d by (metis in_set_conv_nth)
    then show ?thesis using Cons.prems(2) [of 0 "Suc i"] by simp
  qed
  then have ag: "\<forall>d \<in> set cs. agrees ct (without B (S c)) (S d)"
    using Cons.prems(3) by (fastforce simp: agrees_def without_def)
  have "foldl (\<lambda>acc c. Option.bind acc (\<lambda>B. free B c)) (Some (without B (S c))) cs =
      Some (without (without B (S c)) (\<Union>c \<in> set cs. S c))"
  proof (rule Cons.IH [OF _ _ ag])
    show "S (cs ! i) \<inter> S (cs ! j) = {}" if "i < length cs" "j < length cs" "i \<noteq> j" for i j
      using Cons.prems(2) [of "Suc i" "Suc j"] that by simp
  qed (use Cons.prems(1) in auto)
  then show ?case by (simp add: step without_twice)
qed

lemma no_child_no_block:
  assumes ok: "heap_ok pth ct" and q: "deref ct q = Some n" "cn_children n = None"
    and b: "blen ct b \<noteq> None" "prefix (ppath pth ct q) (pth b)"
  shows False
proof -
  obtain r m where r: "deref ct r = Some m" "cn_children m = Some b" using heap_okD(5) [OF ok b(1)] by blast
  obtain ks where "ppath pth ct r = ppath pth ct q @ ks"
    using heap_okD(1) [OF ok r(1)] r(2) b(2) by (auto simp: node_ok_def prefix_def)
  then have w: "walk ct q ks = Some r"
    using walk_complete [OF ok r(1)] walk_complete [OF ok q(1)] by (simp add: walk_append)
  show False using w q r by (cases ks) (auto simp: children_of_def)
qed

lemma ct_node_free_below:
  assumes ok: "heap_ok pth ct"
  shows "deref ct q = Some n \<Longrightarrow> ct_next ct < fuel + length (ppath pth ct q) \<Longrightarrow>
         agrees ct B (below pth ct (ppath pth ct q)) \<Longrightarrow>
         ct_node_free fuel B n = Some (without B (below pth ct (ppath pth ct q)))"
proof (induction fuel arbitrary: q n B)
  case 0
  then show ?case using path_length [OF ok, of q n] by simp
next
  case (Suc fuel)
  let ?x = "ppath pth ct q"
  obtain cs where cs: "children_of ct n = Some cs"
    "\<And>i b. cn_children n = Some b \<Longrightarrow> deref ct (Cell b i) = (if i < length cs then Some (cs ! i) else None)"
    "cn_children n = None \<Longrightarrow> cs = []"
    using find_or_add_reads [OF ok Suc.prems(1)] by blast
  show ?case
  proof (cases "cn_children n")
    case None
    have "below pth ct ?x = {}"
    proof (rule ccontr)
      assume "below pth ct ?x \<noteq> {}"
      then obtain b where b: "blen ct b \<noteq> None" "prefix ?x (pth b)" by (auto simp: below_def)
      show False using no_child_no_block [OF ok Suc.prems(1) None b] .
    qed
    then show ?thesis using None by (simp add: without_def fun_eq_iff)
  next
    case (Some b0)
    note bl = below_child [OF ok Suc.prems(1) Some cs(2) [OF Some] refl]
    have p0: "blen ct b0 = Some (cn_nchildren n)" "pth b0 = ?x"
      using heap_okD(1) [OF ok Suc.prems(1)] Some by (auto simp: node_ok_def)
    have kids: "foldl (\<lambda>acc c. Option.bind acc (\<lambda>B. ct_node_free fuel B c)) (Some B) cs =
        Some (without B (\<Union>c \<in> set cs. below pth ct (?x @ [nkey c])))"
    proof (rule free_children [where ct = ct and free = "ct_node_free fuel" and
          S = "\<lambda>c. below pth ct (?x @ [nkey c])"])
      fix c B' assume c: "c \<in> set cs" "agrees ct B' (below pth ct (?x @ [nkey c]))"
      then obtain i where i: "i < length cs" "c = cs ! i" by (metis in_set_conv_nth)
      then have d: "deref ct (Cell b0 i) = Some c" using cs(2) [OF Some] by simp
      then have "ppath pth ct (Cell b0 i) = ?x @ [nkey c]" using p0(2) by simp
      then show "ct_node_free fuel B' c = Some (without B' (below pth ct (?x @ [nkey c])))"
        using Suc.IH [OF d] Suc.prems(2) c(2) by simp
    next
      fix i j assume ij: "i < length cs" "j < length cs" "i \<noteq> j"
      then have "nkey (cs ! i) \<noteq> nkey (cs ! j)" using heap_okD(4) [OF ok, of b0 i j] cs(2) [OF Some] by auto
      then show "below pth ct (?x @ [nkey (cs ! i)]) \<inter> below pth ct (?x @ [nkey (cs ! j)]) = {}"
        by (rule below_disjoint)
    next
      show "\<forall>c \<in> set cs. agrees ct B (below pth ct (?x @ [nkey c]))"
        using Suc.prems(3) unfolding bl agrees_def by blast
    qed
    have own: "b0 \<notin> (\<Union>c \<in> set cs. below pth ct (?x @ [nkey c]))" using p0(2) by (auto simp: below_def dest: prefix_length_le)
    have "B b0 = ct_blocks ct b0" using Suc.prems(3) unfolding bl agrees_def by blast
    then obtain full where full: "B b0 = Some full" "take (cn_nchildren n) full = cs"
      using cs(1) Some by (auto simp: children_of_def)
    have "ct_node_free (Suc fuel) B n =
        Some ((without B (\<Union>c \<in> set cs. below pth ct (?x @ [nkey c])))(b0 := None))"
    proof -
      have w: "without B (\<Union>c \<in> set cs. below pth ct (?x @ [nkey c])) b0 = Some full"
        using own full(1) unfolding without_def by (simp only: if_False)
      show ?thesis
        by (simp only: ct_node_free.simps Some option.case full kids w Option.bind.simps)
    qed
    moreover have "(without B S)(b0 := None) = without B (insert b0 S)" for S
      by (simp add: without_def fun_eq_iff)
    ultimately show ?thesis by (simp only: bl)
  qed
qed

lemma sim_free:
  assumes "sim ct a"
  shows "\<exists>ct2. calltree_free ct = Some ct2 \<and> (\<forall>b. ct_blocks ct2 b = None)"
proof -
  obtain pth where ok: "heap_ok pth ct" using assms by (auto simp: sim_def)
  have "below pth ct [] = {b. ct_blocks ct b \<noteq> None}" by (auto simp: below_def blen_def)
  then have w: "without (ct_blocks ct) (below pth ct []) = (\<lambda>_. None)" by (auto simp: without_def)
  have "ct_node_free (Suc (ct_next ct)) (ct_blocks ct) (ct_root ct) = Some (\<lambda>_. None)"
    using ct_node_free_below [OF ok, of Root "ct_root ct" "Suc (ct_next ct)" "ct_blocks ct"] w
    by (simp add: deref.simps agrees_def del: ct_node_free.simps)
  then show ?thesis by (simp add: calltree_free_def del: ct_node_free.simps)
qed

text \<open>
  C19. Freeing the call tree is complete and never frees twice: for every instruction stream and
  whichever allocations failed, \<open>calltree_free\<close> runs through (each block is read while it is
  allocated and freed exactly once) and no block of the tree stays allocated.
\<close>

theorem calltree_free_complete:
  assumes "calltree_init True = Some ct" "calltree_run ct evs = Some ct1"
  shows "\<exists>ct2. calltree_free ct1 = Some ct2 \<and> (\<forall>b. ct_blocks ct2 b = None)"
  using run_sim [OF init_sim [OF assms(1)], of evs] assms(2) sim_free by auto

theorem calltree_free_complete_witness:
  "\<exists>ct ct1 ct2. calltree_init True = Some ct \<and> calltree_run ct call_stream_ok = Some ct1 \<and>
     calltree_free ct1 = Some ct2 \<and> (\<forall>b. ct_blocks ct2 b = None)"
proof -
  obtain ct where i: "calltree_init True = Some ct" by (simp add: calltree_init_def)
  obtain ct1 where r: "calltree_run ct call_stream_ok = Some ct1"
    using run_sim [OF init_sim [OF i], of call_stream_ok] by blast
  from calltree_free_complete [OF i r] i r show ?thesis by blast
qed

end
