(* ===== verification/Callers.thy ===== *)
theory Callers
  imports Calltree_View
begin

text \<open>
  \<open>decode.c\<close>, the caller/callee view: one summary per function, collected by a walk over the call
  tree. Functions and edges are compared by name and binary as text. The allocations of this view
  are not checked by the program; the model is of runs in which they succeed.
\<close>

section \<open>Model\<close>

record caller_edge =
  ed_name :: string
  ed_binary :: string
  ed_count :: nat
  ed_tsc :: u64

record func_summary =
  fs_name :: string
  fs_binary :: string
  fs_total_calls :: nat
  fs_total_tsc :: u64
  fs_callers :: "caller_edge list"
  fs_callees :: "caller_edge list"

definition ekey :: "caller_edge \<Rightarrow> string \<times> string" where
  "ekey e = (ed_name e, ed_binary e)"

definition fkey :: "func_summary \<Rightarrow> string \<times> string" where
  "fkey f = (fs_name f, fs_binary f)"

definition tkey :: "ct_node \<Rightarrow> string \<times> string" where
  "tkey n = (text_of (cn_name n), text_of (cn_binary n))"

definition func_new :: "string \<Rightarrow> string \<Rightarrow> func_summary" where
  "func_new name binary = \<lparr>fs_name = name, fs_binary = binary, fs_total_calls = 0, fs_total_tsc = 0,
     fs_callers = [], fs_callees = []\<rparr>"

text \<open>The index of the summary and the array that holds it.\<close>

definition callers_find_or_add :: "func_summary list \<Rightarrow> string \<Rightarrow> string \<Rightarrow> nat \<times> func_summary list" where
  "callers_find_or_add funcs name binary =
     (case find_idx (\<lambda>f. fs_name f = name \<and> fs_binary f = binary) funcs of
        Some i \<Rightarrow> (i, funcs)
      | None \<Rightarrow> (length funcs, funcs @ [func_new name binary]))"

definition callers_add_edge :: "caller_edge list \<Rightarrow> string \<Rightarrow> string \<Rightarrow> nat \<Rightarrow> u64 \<Rightarrow> caller_edge list" where
  "callers_add_edge edges name binary cnt tsc =
     (case find_idx (\<lambda>e. ed_name e = name \<and> ed_binary e = binary) edges of
        Some i \<Rightarrow> edges[i := (edges ! i)\<lparr>ed_count := ed_count (edges ! i) + cnt, ed_tsc := ed_tsc (edges ! i) + tsc\<rparr>]
      | None \<Rightarrow> edges @ [\<lparr>ed_name = name, ed_binary = binary, ed_count = cnt, ed_tsc = tsc\<rparr>])"

definition visit_node :: "ct_node option \<Rightarrow> ct_node \<Rightarrow> func_summary list \<Rightarrow> func_summary list" where
  "visit_node parent node funcs =
     (case callers_find_or_add funcs (text_of (cn_name node)) (text_of (cn_binary node)) of
        (i, fs) \<Rightarrow>
          let f = (fs ! i)\<lparr>fs_total_calls := fs_total_calls (fs ! i) + cn_count node,
                           fs_total_tsc := fs_total_tsc (fs ! i) + cn_total_tsc node\<rparr>
          in fs[i := (case parent of
                        None \<Rightarrow> f
                      | Some p \<Rightarrow> f\<lparr>fs_callers := callers_add_edge (fs_callers f) (text_of (cn_name p))
                                    (text_of (cn_binary p)) (cn_count node) (cn_total_tsc node)\<rparr>)])"

definition visit_callee :: "ct_node \<Rightarrow> ct_node \<Rightarrow> func_summary list \<Rightarrow> func_summary list" where
  "visit_callee node child funcs =
     (case callers_find_or_add funcs (text_of (cn_name node)) (text_of (cn_binary node)) of
        (i, fs) \<Rightarrow>
          fs[i := (fs ! i)\<lparr>fs_callees := callers_add_edge (fs_callees (fs ! i)) (text_of (cn_name child))
                              (text_of (cn_binary child)) (cn_count child) (cn_total_tsc child)\<rparr>])"

fun ct_collect_edges :: "ct_node option \<Rightarrow> ctree \<Rightarrow> func_summary list \<Rightarrow> func_summary list"
  and ct_collect_children :: "ct_node \<Rightarrow> ctree list \<Rightarrow> func_summary list \<Rightarrow> func_summary list" where
  "ct_collect_edges parent (CTree node ts) funcs = ct_collect_children node ts (visit_node parent node funcs)"
| "ct_collect_children node [] funcs = funcs"
| "ct_collect_children node (c # cs) funcs =
     ct_collect_children node cs (ct_collect_edges (Some node) c (visit_callee node (ct_top c) funcs))"

definition callers_cmp :: "func_summary \<Rightarrow> func_summary \<Rightarrow> int" where
  "callers_cmp a b = int (fs_total_calls b) - int (fs_total_calls a)"

definition edge_cmp :: "caller_edge \<Rightarrow> caller_edge \<Rightarrow> int" where
  "edge_cmp a b = int (ed_count b) - int (ed_count a)"

definition edge_line :: "caller_edge \<Rightarrow> string" where
  "edge_line e = ''    '' @ ed_binary e @ '':'' @ ed_name e @ ''  ('' @ fmt_d (int (ed_count e)) @ '')'' @ nl"

definition edge_block :: "string \<Rightarrow> caller_edge list \<Rightarrow> string" where
  "edge_block title edges =
     (if edges = [] then [] else title @ nl @ concat (map edge_line (qsort edge_cmp edges)))"

definition func_block :: "func_summary \<Rightarrow> string" where
  "func_block f =
     ''--- '' @ fs_binary f @ '':'' @ fs_name f @ ''  ('' @ fmt_d (int (fs_total_calls f)) @ '' calls'' @
     (if fs_total_tsc f > 0 then '', '' @ fmt_lu (fs_total_tsc f) @ '' tsc'' else []) @ '')'' @ nl @
     edge_block ''  called by:'' (fs_callers f) @ edge_block ''  calls:'' (fs_callees f) @ nl"

definition callers_print :: "calltree \<Rightarrow> pt_decode_opts option \<Rightarrow> string option" where
  "callers_print ct opts =
     map_option (\<lambda>t. concat (map func_block
        (filter (\<lambda>f. filter_matches opts (Some (fs_name f))) (qsort callers_cmp (ct_collect_edges None t [])))))
       (ct_tree ct)"

section \<open>The walk as a sequence of table operations\<close>

datatype walk_item = Visit "ct_node option" ct_node | Callee ct_node ct_node

fun walk_put :: "func_summary list \<Rightarrow> walk_item \<Rightarrow> func_summary list" where
  "walk_put fs (Visit p n) = visit_node p n fs"
| "walk_put fs (Callee n c) = visit_callee n c fs"

fun walk_key :: "walk_item \<Rightarrow> string \<times> string" where
  "walk_key (Visit p n) = tkey n"
| "walk_key (Callee n c) = tkey n"

fun walk_items :: "ct_node option \<Rightarrow> ctree \<Rightarrow> walk_item list"
  and walk_items_list :: "ct_node \<Rightarrow> ctree list \<Rightarrow> walk_item list" where
  "walk_items parent (CTree node ts) = Visit parent node # walk_items_list node ts"
| "walk_items_list node [] = []"
| "walk_items_list node (c # cs) = Callee node (ct_top c) # walk_items (Some node) c @ walk_items_list node cs"

lemma collect_is_fold:
  "ct_collect_edges p t fs = foldl walk_put fs (walk_items p t)"
  "ct_collect_children n ts fs = foldl walk_put fs (walk_items_list n ts)"
  by (induction p t fs and n ts fs rule: ct_collect_edges_ct_collect_children.induct) simp_all

text \<open>The updates the two operations make, on the summary they find or add.\<close>

definition visit_upd :: "ct_node option \<Rightarrow> ct_node \<Rightarrow> func_summary \<Rightarrow> func_summary" where
  "visit_upd parent node f =
     (let g = f\<lparr>fs_total_calls := fs_total_calls f + cn_count node, fs_total_tsc := fs_total_tsc f + cn_total_tsc node\<rparr>
      in case parent of None \<Rightarrow> g
         | Some p \<Rightarrow> g\<lparr>fs_callers := callers_add_edge (fs_callers g) (text_of (cn_name p)) (text_of (cn_binary p))
                         (cn_count node) (cn_total_tsc node)\<rparr>)"

definition callee_upd :: "ct_node \<Rightarrow> func_summary \<Rightarrow> func_summary" where
  "callee_upd child f = f\<lparr>fs_callees := callers_add_edge (fs_callees f) (text_of (cn_name child))
     (text_of (cn_binary child)) (cn_count child) (cn_total_tsc child)\<rparr>"

lemma find_or_add_upsert:
  "(case callers_find_or_add fs (text_of (cn_name n)) (text_of (cn_binary n)) of (i, gs) \<Rightarrow> gs[i := u (gs ! i)]) =
   upsert fkey (func_new (text_of (cn_name n)) (text_of (cn_binary n))) u fs"
proof -
  have "(\<lambda>f. fs_name f = text_of (cn_name n) \<and> fs_binary f = text_of (cn_binary n)) =
      (\<lambda>f. fkey f = fkey (func_new (text_of (cn_name n)) (text_of (cn_binary n))))"
    by (auto simp: fkey_def func_new_def)
  then show ?thesis by (auto simp: callers_find_or_add_def upsert_def split: option.splits)
qed

lemma visit_node_upsert:
  "visit_node p n fs = upsert fkey (func_new (text_of (cn_name n)) (text_of (cn_binary n))) (visit_upd p n) fs"
  using find_or_add_upsert [where fs = fs and n = n and u = "visit_upd p n"]
  by (simp add: visit_node_def visit_upd_def Let_def split: prod.splits)

lemma visit_callee_upsert:
  "visit_callee n c fs = upsert fkey (func_new (text_of (cn_name n)) (text_of (cn_binary n))) (callee_upd c) fs"
  using find_or_add_upsert [where fs = fs and n = n and u = "callee_upd c"]
  by (simp add: visit_callee_def callee_upd_def split: prod.splits)

lemma fkey_upd [simp]:
  "fkey (visit_upd p n f) = fkey f" "fkey (callee_upd c f) = fkey f"
  "fkey (func_new (text_of (cn_name n)) (text_of (cn_binary n))) = tkey n"
  by (auto simp: fkey_def visit_upd_def callee_upd_def Let_def func_new_def tkey_def split: option.splits)

lemma add_edge_upsert:
  "callers_add_edge es name binary cnt tsc =
   upsert ekey \<lparr>ed_name = name, ed_binary = binary, ed_count = 0, ed_tsc = 0\<rparr>
     (\<lambda>e. e\<lparr>ed_count := ed_count e + cnt, ed_tsc := ed_tsc e + tsc\<rparr>) es"
  by (auto simp: callers_add_edge_def upsert_def ekey_def split: option.splits)

lemma add_edge_val:
  "table_val ekey ed_count (callers_add_edge es name binary cnt tsc) k =
   table_val ekey ed_count es k + (if k = (name, binary) then cnt else 0)"
  unfolding add_edge_upsert by (subst upsert_val [where d = cnt]) (auto simp: ekey_def)

lemma add_edge_total:
  "sum_list (map ed_count (callers_add_edge es name binary cnt tsc)) = sum_list (map ed_count es) + cnt"
  unfolding add_edge_upsert by (subst upsert_total [where d = cnt]) simp_all

lemma walk_put_keys:
  "map fkey (walk_put fs i) = (if walk_key i \<in> fkey ` set fs then map fkey fs else map fkey fs @ [walk_key i])"
  by (cases i) (simp_all add: visit_node_upsert visit_callee_upsert upsert_keys)

lemma walk_put_val:
  fixes amount :: "func_summary \<Rightarrow> nat"
  assumes "\<And>p n f. amount (visit_upd p n f) = amount f + d (Visit p n)"
    and "\<And>n c f. amount (callee_upd c f) = amount f + d (Callee n c)"
    and "\<And>name binary. amount (func_new name binary) = 0"
  shows "table_val fkey amount (walk_put fs i) k = table_val fkey amount fs k + (if k = walk_key i then d i else 0)"
proof (cases i)
  case (Visit p n)
  show ?thesis unfolding Visit walk_put.simps walk_key.simps visit_node_upsert
    by (subst upsert_val [where d = "d (Visit p n)"]) (simp_all add: assms)
next
  case (Callee n c)
  show ?thesis unfolding Callee walk_put.simps walk_key.simps visit_callee_upsert
    by (subst upsert_val [where d = "d (Callee n c)"]) (simp_all add: assms(2) [of c _ n] assms(3))
qed

section \<open>Sums over the tree\<close>

fun nodes :: "ctree \<Rightarrow> ct_node list" where
  "nodes (CTree n ts) = n # concat (map nodes ts)"

text \<open>The parent-child pairs.\<close>

fun arcs :: "ctree \<Rightarrow> (ct_node \<times> ct_node) list" where
  "arcs (CTree n ts) = concat (map (\<lambda>t. (n, ct_top t) # arcs t) ts)"

definition arc_sum :: "(ct_node \<times> ct_node \<Rightarrow> bool) \<Rightarrow> ctree \<Rightarrow> nat" where
  "arc_sum P t = sum_list (map (cn_count \<circ> snd) (filter P (arcs t)))"

fun item_total :: "walk_item \<Rightarrow> nat" where
  "item_total (Visit p n) = cn_count n"
| "item_total (Callee n c) = 0"

fun item_in :: "walk_item \<Rightarrow> nat" where
  "item_in (Visit p n) = (case p of None \<Rightarrow> 0 | Some q \<Rightarrow> cn_count n)"
| "item_in (Callee n c) = 0"

fun item_from :: "string \<times> string \<Rightarrow> walk_item \<Rightarrow> nat" where
  "item_from g (Visit p n) = (case p of None \<Rightarrow> 0 | Some q \<Rightarrow> if g = tkey q then cn_count n else 0)"
| "item_from g (Callee n c) = 0"

fun item_to :: "string \<times> string \<Rightarrow> walk_item \<Rightarrow> nat" where
  "item_to f (Visit p n) = 0"
| "item_to f (Callee n c) = (if f = tkey c then cn_count c else 0)"

definition in_total :: "func_summary \<Rightarrow> nat" where
  "in_total f = sum_list (map ed_count (fs_callers f))"

definition in_from :: "string \<times> string \<Rightarrow> func_summary \<Rightarrow> nat" where
  "in_from g f = table_val ekey ed_count (fs_callers f) g"

definition out_to :: "string \<times> string \<Rightarrow> func_summary \<Rightarrow> nat" where
  "out_to g f = table_val ekey ed_count (fs_callees f) g"

lemma upd_amounts:
  "fs_total_calls (visit_upd p n f) = fs_total_calls f + item_total (Visit p n)"
  "fs_total_calls (callee_upd c f) = fs_total_calls f + item_total (Callee n c)"
  "in_total (visit_upd p n f) = in_total f + item_in (Visit p n)"
  "in_total (callee_upd c f) = in_total f + item_in (Callee n c)"
  "in_from g (visit_upd p n f) = in_from g f + item_from g (Visit p n)"
  "in_from g (callee_upd c f) = in_from g f + item_from g (Callee n c)"
  "out_to g (visit_upd p n f) = out_to g f + item_to g (Visit p n)"
  "out_to g (callee_upd c f) = out_to g f + item_to g (Callee n c)"
  by (simp_all add: visit_upd_def callee_upd_def Let_def in_total_def in_from_def out_to_def add_edge_val
      add_edge_total tkey_def split: option.split)

lemma new_amounts:
  "fs_total_calls (func_new a b) = 0" "in_total (func_new a b) = 0" "in_from g (func_new a b) = 0"
  "out_to g (func_new a b) = 0"
  by (simp_all add: func_new_def in_total_def in_from_def out_to_def)

interpretation totals: counting_table fkey fs_total_calls walk_put walk_key item_total
  by unfold_locales (rule walk_put_val, auto simp only: upd_amounts new_amounts walk_put_keys)

interpretation ins: counting_table fkey in_total walk_put walk_key item_in
  by unfold_locales (rule walk_put_val, auto simp only: upd_amounts new_amounts walk_put_keys)

interpretation froms: counting_table fkey "in_from g" walk_put walk_key "item_from g" for g
  by unfold_locales (rule walk_put_val, auto simp only: upd_amounts new_amounts walk_put_keys)

interpretation tos: counting_table fkey "out_to g" walk_put walk_key "item_to g" for g
  by unfold_locales (rule walk_put_val, auto simp only: upd_amounts new_amounts walk_put_keys)

lemma items_visit:
  fixes d :: "walk_item \<Rightarrow> nat"
  assumes "\<And>n c. d (Callee n c) = 0"
  shows "sum_list (map d (filter (\<lambda>i. walk_key i = k) (walk_items p t))) =
       (if tkey (ct_top t) = k then d (Visit p (ct_top t)) else 0) +
       sum_list (map (\<lambda>(n, c). d (Visit (Some n) c)) (filter (\<lambda>(n, c). tkey c = k) (arcs t)))"
    and "sum_list (map d (filter (\<lambda>i. walk_key i = k) (walk_items_list m ts))) =
       sum_list (map (\<lambda>(n, c). d (Visit (Some n) c)) (filter (\<lambda>(n, c). tkey c = k)
         (concat (map (\<lambda>t. (m, ct_top t) # arcs t) ts))))"
  by (induction p t and m ts rule: walk_items_walk_items_list.induct) (simp_all add: assms)

lemma items_callee:
  fixes d :: "walk_item \<Rightarrow> nat"
  assumes "\<And>p n. d (Visit p n) = 0"
  shows "sum_list (map d (filter (\<lambda>i. walk_key i = k) (walk_items p t))) =
       sum_list (map (\<lambda>(n, c). d (Callee n c)) (filter (\<lambda>(n, c). tkey n = k) (arcs t)))"
    and "sum_list (map d (filter (\<lambda>i. walk_key i = k) (walk_items_list m ts))) =
       sum_list (map (\<lambda>(n, c). d (Callee n c)) (filter (\<lambda>(n, c). tkey n = k)
         (concat (map (\<lambda>t. (m, ct_top t) # arcs t) ts))))"
  by (induction p t and m ts rule: walk_items_walk_items_list.induct) (simp_all add: assms)

lemma nodes_sum:
  "sum_list (map cn_count (filter (\<lambda>n. tkey n = k) (nodes t))) =
     (if tkey (ct_top t) = k then cn_count (ct_top t) else 0) +
     sum_list (map (\<lambda>(n, c). cn_count c) (filter (\<lambda>(n, c). tkey c = k) (arcs t)))"
proof (induction t)
  case (CTree n ts)
  have "sum_list (map cn_count (filter (\<lambda>n. tkey n = k) (concat (map nodes ts)))) =
      sum_list (map (\<lambda>(n, c). cn_count c) (filter (\<lambda>(n, c). tkey c = k) (concat (map (\<lambda>t. (n, ct_top t) # arcs t) ts))))"
    using CTree by (induction ts) auto
  then show ?case by simp
qed

lemma filter_arcs_swap:
  "sum_list (map (\<lambda>(n, c). if g = tkey n then cn_count c else (0 :: nat)) (filter (\<lambda>(n, c). tkey c = k) as)) =
   sum_list (map (\<lambda>(n, c). if k = tkey c then cn_count c else 0) (filter (\<lambda>(n, c). tkey n = g) as))"
  by (induction as) auto

lemma collect_distinct: "distinct (map fkey (ct_collect_edges None t []))"
  unfolding collect_is_fold by (rule totals.put_all_distinct) simp

lemma collect_amounts:
  assumes "fs = ct_collect_edges None t []" "f \<in> set fs"
  shows "fs_total_calls f = sum_list (map cn_count (filter (\<lambda>n. tkey n = fkey f) (nodes t)))"
    and "in_total f = sum_list (map (\<lambda>(n, c). cn_count c) (filter (\<lambda>(n, c). tkey c = fkey f) (arcs t)))"
    and "in_from g f = sum_list (map (\<lambda>(n, c). if g = tkey n then cn_count c else 0)
           (filter (\<lambda>(n, c). tkey c = fkey f) (arcs t)))"
    and "out_to g f = sum_list (map (\<lambda>(n, c). if g = tkey c then cn_count c else 0)
           (filter (\<lambda>(n, c). tkey n = fkey f) (arcs t)))"
proof -
  have fs: "fs = foldl walk_put [] (walk_items None t)" using assms(1) by (simp add: collect_is_fold)
  have f: "f \<in> set (foldl walk_put [] (walk_items None t))" using assms(2) fs by simp
  show "fs_total_calls f = sum_list (map cn_count (filter (\<lambda>n. tkey n = fkey f) (nodes t)))"
    using totals.put_all_member [OF _ f] by (simp add: items_visit nodes_sum)
  show "in_total f = sum_list (map (\<lambda>(n, c). cn_count c) (filter (\<lambda>(n, c). tkey c = fkey f) (arcs t)))"
    using ins.put_all_member [OF _ f] by (simp add: items_visit)
  show "in_from g f = sum_list (map (\<lambda>(n, c). if g = tkey n then cn_count c else 0)
           (filter (\<lambda>(n, c). tkey c = fkey f) (arcs t)))"
    using froms.put_all_member [OF _ f] by (simp add: items_visit)
  show "out_to g f = sum_list (map (\<lambda>(n, c). if g = tkey c then cn_count c else 0)
           (filter (\<lambda>(n, c). tkey n = fkey f) (arcs t)))"
    using tos.put_all_member [OF _ f] by (simp add: items_callee)
qed

text \<open>The virtual root is never entered.\<close>

lemma call_paths_nonempty: "[] \<notin> set (call_paths prev x es)"
  by (induction prev x es rule: call_paths.induct) (auto simp: Let_def)

lemma run_ok_tree:
  assumes "calltree_init True = Some ct" "calltree_run ct (map (\<lambda>e. (True, True, e)) evs) = Some ct1"
  obtains t where "ct_tree ct1 = Some t" "cn_count (ct_top t) = 0"
proof -
  let ?a = "foldl ac_record ac_init evs"
  have "\<forall>(okc, oks, ev) \<in> set (map (\<lambda>e. (True, True, e)) evs). okc \<and> oks" by auto
  then have s: "sim ct1 ?a"
    using run_sim [OF init_sim [OF assms(1)], of "map (\<lambda>e. (True, True, e)) evs"] assms(2) by (auto simp: comp_def)
  then obtain t where t: "ct_tree ct1 = Some t" using ct_tree_total by blast
  have top: "ct_top t = ct_root ct1" using t by (auto simp: ct_tree_def bind_eq_Some_conv)
  obtain pth where "heap_ok pth ct1" "view pth ct1 (ac_tree ?a)" using s by (auto simp: sim_def)
  then have "ac_tree ?a [] = Some (data (ct_root ct1))" using viewD [of pth ct1 _ Root] by (simp add: deref.simps)
  moreover have "fst (data_or_new (ac_tree ?a [])) = 0"
    using ac_counts [of ac_init evs "[]"] call_paths_nonempty [of ptic_unknown "[]" evs]
    by (simp add: ac_init_def data_or_new_def count_list_0_iff)
  ultimately have "cn_count (ct_root ct1) = 0" by (simp add: data_or_new_def data_def)
  with that t top show ?thesis by simp
qed

text \<open>
  C17. The caller/callee view is consistent with the call tree and with itself: there is one summary
  per function; its total is the sum of the counts of all nodes of the function and equals the sum
  of its ``called by'' lines; and the ``called by'' count that \<open>f\<close> shows for \<open>g\<close> is the ``calls''
  count that \<open>g\<close> shows for \<open>f\<close>.
\<close>

theorem callers_view_consistent:
  assumes "calltree_init True = Some ct" "calltree_run ct (map (\<lambda>e. (True, True, e)) evs) = Some ct1"
  shows "\<exists>t. ct_tree ct1 = Some t \<and>
     (let fs = ct_collect_edges None t []
      in distinct (map fkey fs) \<and>
         (\<forall>f \<in> set fs.
            fs_total_calls f = sum_list (map cn_count (filter (\<lambda>n. tkey n = fkey f) (nodes t))) \<and>
            fs_total_calls f = sum_list (map ed_count (fs_callers f)) \<and>
            (\<forall>g \<in> set fs. table_val ekey ed_count (fs_callers f) (fkey g) =
                           table_val ekey ed_count (fs_callees g) (fkey f))))"
proof -
  obtain t where t: "ct_tree ct1 = Some t" "cn_count (ct_top t) = 0" by (rule run_ok_tree [OF assms])
  let ?fs = "ct_collect_edges None t []"
  have "distinct (map fkey ?fs)" by (rule collect_distinct)
  moreover have "fs_total_calls f = in_total f \<and>
      fs_total_calls f = sum_list (map cn_count (filter (\<lambda>n. tkey n = fkey f) (nodes t)))" if "f \<in> set ?fs" for f
    using collect_amounts(1,2) [OF refl that] t(2) nodes_sum [of "fkey f" t] by simp
  moreover have "in_from (fkey g) f = out_to (fkey f) g" if "f \<in> set ?fs" "g \<in> set ?fs" for f g
    using collect_amounts(3) [OF refl that(1), of "fkey g"] collect_amounts(4) [OF refl that(2), of "fkey f"]
      filter_arcs_swap [of "fkey g" "fkey f" "arcs t"] by simp
  ultimately show ?thesis
    unfolding Let_def in_total_def [symmetric] in_from_def [symmetric] out_to_def [symmetric]
    using t(1) by blast
qed

theorem callers_view_consistent_witness:
  "\<exists>ct ct1 t. calltree_init True = Some ct \<and>
     calltree_run ct (map (\<lambda>e. (True, True, e)) call_stream) = Some ct1 \<and> ct_tree ct1 = Some t \<and>
     distinct (map fkey (ct_collect_edges None t []))"
proof -
  obtain ct where i: "calltree_init True = Some ct" by (simp add: calltree_init_def)
  obtain ct1 where r: "calltree_run ct (map (\<lambda>e. (True, True, e)) call_stream) = Some ct1"
    using run_sim [OF init_sim [OF i], of "map (\<lambda>e. (True, True, e)) call_stream"] by blast
  from callers_view_consistent [OF i r] i r show ?thesis by (auto simp: Let_def)
qed

end
