(* ===== verification/Collapsed.thy ===== *)
theory Collapsed
  imports Profile
begin

text \<open>
  \<open>decode.c\<close>, collapsed (folded) stacks: a shadow stack of function names, the joined text of the
  stack counted at every return, and the folded output. The stack text is built in an 8192-byte
  buffer; the terminating write may land behind it, which is \<open>None\<close> here (undefined behaviour).
\<close>

section \<open>Model\<close>

definition MAX_COLLAPSED_STACKS :: nat where "MAX_COLLAPSED_STACKS = 4096"
definition MAX_STACK_DEPTH :: nat where "MAX_STACK_DEPTH = 256"
definition STACK_BUF :: nat where "STACK_BUF = 8192"

record collapsed_entry =
  ce_stack :: string
  ce_count :: nat

text \<open>\<open>cl_names\<close> is \<open>names[0..depth-1]\<close>; \<open>cl_warned\<close> is the function-static flag of the limit warning.\<close>

record collapsed =
  cl_entries :: "collapsed_entry list"
  cl_capacity :: nat
  cl_names :: "cstr list"
  cl_prev_sym :: "sym_entry option"
  cl_prev_class :: pt_insn_class
  cl_warned :: bool

definition collapsed_init :: collapsed where
  "collapsed_init = \<lparr>cl_entries = [], cl_capacity = 0, cl_names = [], cl_prev_sym = None,
     cl_prev_class = ptic_unknown, cl_warned = False\<rparr>"

text \<open>
  The joining loop; the accumulated text is what \<open>off\<close> counts, also beyond the end of the buffer,
  since \<open>snprintf\<close> returns the length it would have written.
\<close>

fun stack_loop :: "string \<Rightarrow> bool \<Rightarrow> string list \<Rightarrow> string" where
  "stack_loop acc first [] = acc"
| "stack_loop acc first (n # ns) =
     (let acc1 = (if \<not> first \<and> length acc < STACK_BUF - 1 then acc @ '';'' else acc);
          acc2 = acc1 @ n
      in if length acc2 \<ge> STACK_BUF - 1 then acc2 else stack_loop acc2 False ns)"

text \<open>Outer \<open>None\<close>: \<open>buf[off] = 0\<close> is outside of the buffer. Inner \<open>None\<close>: the function returns NULL.\<close>

definition collapsed_build_stack :: "bool \<Rightarrow> string list \<Rightarrow> string option option" where
  "collapsed_build_stack ok_dup names =
     (if names = [] then Some None
      else let s = stack_loop [] True names
           in if length s < STACK_BUF then Some (if ok_dup then Some s else None) else None)"

definition collapsed_add :: "bool \<Rightarrow> collapsed \<Rightarrow> string \<Rightarrow> collapsed" where
  "collapsed_add ok_mem col stack =
     (let cnt = length (cl_entries col);
          new = \<lparr>ce_stack = stack, ce_count = 1\<rparr>
      in if cnt \<ge> cl_capacity col then
           (let newcap = min (if cl_capacity col = 0 then 256 else cl_capacity col * 2) MAX_COLLAPSED_STACKS
            in if cnt \<ge> newcap then col\<lparr>cl_warned := True\<rparr>
               else if \<not> ok_mem then col
               else col\<lparr>cl_entries := cl_entries col @ [new], cl_capacity := newcap\<rparr>)
         else col\<lparr>cl_entries := cl_entries col @ [new]\<rparr>)"

definition collapsed_count_stack :: "bool \<Rightarrow> bool \<Rightarrow> collapsed \<Rightarrow> collapsed option" where
  "collapsed_count_stack ok_mem ok_dup col =
     (case collapsed_build_stack ok_dup (map text_of (cl_names col)) of
        None \<Rightarrow> None
      | Some None \<Rightarrow> Some col
      | Some (Some stack) \<Rightarrow>
          (case find_idx (\<lambda>e. ce_stack e = stack) (cl_entries col) of
             Some i \<Rightarrow> Some (col\<lparr>cl_entries := (cl_entries col)
                           [i := (cl_entries col ! i)\<lparr>ce_count := ce_count (cl_entries col ! i) + 1\<rparr>]\<rparr>)
           | None \<Rightarrow> Some (collapsed_add ok_mem col stack)))"

definition collapsed_record :: "bool \<Rightarrow> bool \<Rightarrow> collapsed \<Rightarrow> insn_event \<Rightarrow> collapsed option" where
  "collapsed_record ok_mem ok_dup col ev =
     (let col1 = (if enters (cl_prev_class col) ev \<and> length (cl_names col) < MAX_STACK_DEPTH
                  then col\<lparr>cl_names := cl_names col @ [sy_name (the (ie_sym ev))]\<rparr> else col);
          col2 = (if is_return_class (ie_class ev)
                  then map_option (\<lambda>c. c\<lparr>cl_names := butlast (cl_names c)\<rparr>)
                         (collapsed_count_stack ok_mem ok_dup col1)
                  else Some col1)
      in map_option (\<lambda>c. c\<lparr>cl_prev_sym := ie_sym ev, cl_prev_class := ie_class ev\<rparr>) col2)"

definition collapsed_cmp_count :: "collapsed_entry \<Rightarrow> collapsed_entry \<Rightarrow> int" where
  "collapsed_cmp_count a b = int (ce_count b) - int (ce_count a)"

definition after_colon :: "string \<Rightarrow> string" where
  "after_colon tok = (case strrchr_rest (CHR '':'') tok of Some r \<Rightarrow> r | None \<Rightarrow> tok)"

definition collapsed_stack_matches :: "string \<Rightarrow> pt_decode_opts option \<Rightarrow> bool" where
  "collapsed_stack_matches stack opts =
     (case opts of
        None \<Rightarrow> True
      | Some o1 \<Rightarrow>
          if do_filter_funcs o1 = [] then True
          else list_ex (\<lambda>tok. filter_matches opts (Some (after_colon tok))) (strtok_all (CHR '';'') stack))"

definition collapsed_print :: "collapsed \<Rightarrow> pt_decode_opts option \<Rightarrow> string" where
  "collapsed_print col opts =
     concat (map (\<lambda>e. ce_stack e @ '' '' @ fmt_d (int (ce_count e)) @ nl)
       (filter (\<lambda>e. collapsed_stack_matches (ce_stack e) opts) (qsort collapsed_cmp_count (cl_entries col))))"

definition collapsed_free :: "collapsed \<Rightarrow> collapsed" where
  "collapsed_free col = col\<lparr>cl_entries := [], cl_capacity := 0\<rparr>"

section \<open>Joining\<close>

fun join_names :: "string list \<Rightarrow> string" where
  "join_names [] = []"
| "join_names [n] = n"
| "join_names (n # m # ns) = n @ CHR '';'' # join_names (m # ns)"

lemma join_snoc: "ns \<noteq> [] \<Longrightarrow> join_names (ns @ [n]) = join_names ns @ CHR '';'' # n"
  by (induction ns rule: join_names.induct) auto

lemma join_prefix_length: "m \<noteq> [] \<Longrightarrow> length (join_names m) \<le> length (join_names (m @ ns))"
proof (induction ns arbitrary: m)
  case (Cons n ns)
  have "length (join_names m) \<le> length (join_names (m @ [n]))" using Cons.prems by (simp add: join_snoc)
  also have "\<dots> \<le> length (join_names ((m @ [n]) @ ns))" by (rule Cons.IH) simp
  finally show ?case by simp
qed simp

text \<open>The loop stops at the first prefix of the names whose joined text has 8191 characters or more.\<close>

lemma stack_loop_prefix:
  assumes "done \<noteq> []" "length (join_names done) < STACK_BUF - 1"
  shows "\<exists>k \<le> length ns. stack_loop (join_names done) False ns = join_names (done @ take k ns) \<and>
           (\<forall>j < k. length (join_names (done @ take j ns)) < STACK_BUF - 1) \<and>
           (k = length ns \<or> STACK_BUF - 1 \<le> length (join_names (done @ take k ns)))"
  using assms
proof (induction ns arbitrary: "done")
  case (Cons n ns)
  let ?d = "done @ [n]"
  have acc: "join_names done @ CHR '';'' # n = join_names ?d" using Cons.prems by (simp add: join_snoc)
  then have len: "length (join_names ?d) = Suc (length (join_names done) + length n)"
    by (metis add_Suc_right length_Cons length_append)
  show ?case
  proof (cases "STACK_BUF - 1 \<le> length (join_names ?d)")
    case True
    then show ?thesis using Cons.prems acc len
      by (intro exI [of _ 1]) (auto simp: Let_def)
  next
    case False
    then obtain k where k: "k \<le> length ns" "stack_loop (join_names ?d) False ns = join_names (?d @ take k ns)"
      "\<forall>j < k. length (join_names (?d @ take j ns)) < STACK_BUF - 1"
      "k = length ns \<or> STACK_BUF - 1 \<le> length (join_names (?d @ take k ns))"
      using Cons.IH [of ?d] by auto
    have "length (join_names (done @ take j (n # ns))) < STACK_BUF - 1" if "j < Suc k" for j
      using that k(3) Cons.prems by (cases j) auto
    then show ?thesis using k acc Cons.prems False len
      by (intro exI [of _ "Suc k"]) (auto simp: Let_def not_le)
  qed
qed simp

lemma stack_loop_all:
  assumes "names \<noteq> []"
  shows "\<exists>k \<le> length names. 0 < k \<and> stack_loop [] True names = join_names (take k names) \<and>
           (\<forall>j < k. length (join_names (take j names)) < STACK_BUF - 1) \<and>
           (k = length names \<or> STACK_BUF - 1 \<le> length (join_names (take k names)))"
proof -
  obtain n ns where nm: "names = n # ns" using assms by (cases names) auto
  show ?thesis
  proof (cases "STACK_BUF - 1 \<le> length n")
    case True
    then show ?thesis by (intro exI [of _ 1]) (auto simp: nm STACK_BUF_def)
  next
    case False
    then obtain k where k: "k \<le> length ns" "stack_loop n False ns = join_names ([n] @ take k ns)"
      "\<forall>j < k. length (join_names ([n] @ take j ns)) < STACK_BUF - 1"
      "k = length ns \<or> STACK_BUF - 1 \<le> length (join_names ([n] @ take k ns))"
      using stack_loop_prefix [of "[n]" ns] by auto
    have "length (join_names (take j names)) < STACK_BUF - 1" if "j < Suc k" for j
      using that k(3) by (cases j) (auto simp: nm STACK_BUF_def)
    then show ?thesis using k False by (intro exI [of _ "Suc k"]) (auto simp: nm)
  qed
qed

lemma build_stack_fits:
  assumes "names \<noteq> []" "length (join_names names) < STACK_BUF"
  shows "collapsed_build_stack ok names = Some (if ok then Some (join_names names) else None)"
proof -
  obtain k where k: "k \<le> length names" "0 < k" "stack_loop [] True names = join_names (take k names)"
    "k = length names \<or> STACK_BUF - 1 \<le> length (join_names (take k names))"
    using stack_loop_all [OF assms(1)] by blast
  have "take k names \<noteq> []" using k(2) assms(1) by simp
  show ?thesis
  proof (cases "k = length names")
    case True
    then show ?thesis using k assms by (simp add: collapsed_build_stack_def Let_def)
  next
    case False
    obtain n where n: "take (Suc k) names = take k names @ [n]"
      using k(1) False take_Suc_conv_app_nth [of k names] by auto
    have "take (Suc k) names \<noteq> []" using n by simp
    from join_prefix_length [OF this, of "drop (Suc k) names"]
    have "length (join_names (take (Suc k) names)) \<le> length (join_names names)"
      by (simp only: append_take_drop_id)
    then have "length (join_names (take k names)) + 1 \<le> length (join_names names)"
      unfolding n using \<open>take k names \<noteq> []\<close> by (simp add: join_snoc)
    then show ?thesis using k(4) False assms(2) by simp
  qed
qed

text \<open>
  C33. A write outside of the stack buffer. Joining the names of the shadow stack ends in
  \<open>buf[off]\<close> with \<open>off\<close> behind the 8192 bytes of \<open>buf\<close> exactly when the joined text of the first
  names is below 8191 characters and one more name takes it above 8191: \<open>snprintf\<close>'s return value is
  added to \<open>off\<close> although it counts the characters that did not fit.
\<close>

theorem collapsed_build_stack_overflow_iff:
  "collapsed_build_stack ok names = None \<longleftrightarrow>
     (\<exists>k < length names. length (join_names (take k names)) < 8191 \<and>
                         8191 < length (join_names (take (Suc k) names)))"
proof (cases "names = []")
  case False
  obtain k where k: "k \<le> length names" "0 < k" "stack_loop [] True names = join_names (take k names)"
    "\<forall>j < k. length (join_names (take j names)) < 8191"
    "k = length names \<or> 8191 \<le> length (join_names (take k names))"
    using stack_loop_all [OF False] by (auto simp: STACK_BUF_def)
  have ub: "collapsed_build_stack ok names = None \<longleftrightarrow> 8191 < length (join_names (take k names))"
    using False k(3) by (auto simp: collapsed_build_stack_def Let_def STACK_BUF_def)
  show ?thesis
  proof
    assume "collapsed_build_stack ok names = None"
    then show "\<exists>k < length names. length (join_names (take k names)) < 8191 \<and>
        8191 < length (join_names (take (Suc k) names))"
      using ub k by (intro exI [of _ "k - 1"]) auto
  next
    assume "\<exists>k < length names. length (join_names (take k names)) < 8191 \<and>
        8191 < length (join_names (take (Suc k) names))"
    then obtain i where i: "i < length names" "length (join_names (take i names)) < 8191"
      "8191 < length (join_names (take (Suc i) names))" by blast
    have mono: "length (join_names (take a names)) \<le> length (join_names (take b names))"
      if "a \<le> b" "0 < a" for a b
      using join_prefix_length [of "take a names" "take (b - a) (drop a names)"] False that
      by (simp flip: take_add)
    have "k = Suc i"
    proof (rule ccontr)
      assume "k \<noteq> Suc i"
      then consider "k \<le> i" | "Suc i < k" by linarith
      then show False
      proof cases
        case 1
        then have "length (join_names (take k names)) < 8191" using mono [of k i] i k(2) by simp
        then show False using k(1,5) 1 i(1) by simp
      next
        case 2
        then show False using k(4) i(3) by (meson less_imp_not_less)
      qed
    qed
    then show "collapsed_build_stack ok names = None" using ub i(3) by simp
  qed
qed (simp add: collapsed_build_stack_def)

section \<open>Counting\<close>

text \<open>One counted stack, when the number of entries is below the limit and memory suffices.\<close>

definition stack_put :: "collapsed_entry list \<Rightarrow> string \<Rightarrow> collapsed_entry list" where
  "stack_put es s = upsert ce_stack \<lparr>ce_stack = s, ce_count = 0\<rparr> (\<lambda>e. e\<lparr>ce_count := ce_count e + 1\<rparr>) es"

interpretation stacks: counting_table ce_stack ce_count stack_put "\<lambda>s. s" "\<lambda>s. 1"
proof unfold_locales
  show "table_val ce_stack ce_count (stack_put xs i) k = table_val ce_stack ce_count xs k + (if k = i then 1 else 0)"
    for xs i k unfolding stack_put_def by (subst upsert_val [where d = 1]) simp_all
  show "map ce_stack (stack_put xs i) = (if i \<in> ce_stack ` set xs then map ce_stack xs else map ce_stack xs @ [i])"
    for xs i unfolding stack_put_def by (subst upsert_keys) simp_all
qed

text \<open>Entries and capacity: at most the limit, and the capacity is what the growth policy gives.\<close>

definition collapsed_ok :: "collapsed \<Rightarrow> bool" where
  "collapsed_ok col \<longleftrightarrow>
     distinct (map ce_stack (cl_entries col)) \<and> length (cl_entries col) \<le> cl_capacity col \<and>
     cl_capacity col \<le> MAX_COLLAPSED_STACKS \<and> length (cl_names col) \<le> MAX_STACK_DEPTH"

lemma add_entries:
  assumes "collapsed_ok col" "length (cl_entries col) < MAX_COLLAPSED_STACKS" "s \<notin> ce_stack ` set (cl_entries col)"
  shows "cl_entries (collapsed_add True col s) = stack_put (cl_entries col) s \<and> collapsed_ok (collapsed_add True col s) \<and>
         cl_names (collapsed_add True col s) = cl_names col \<and> cl_prev_class (collapsed_add True col s) = cl_prev_class col"
proof -
  have none: "find_idx (\<lambda>e. ce_stack e = s) (cl_entries col) = None"
    using assms(3) by (auto simp: find_idx_None)
  have put: "stack_put (cl_entries col) s = cl_entries col @ [\<lparr>ce_stack = s, ce_count = 1\<rparr>]"
    using none by (simp add: stack_put_def upsert_def)
  show ?thesis using assms unfolding put
    by (auto simp: collapsed_add_def Let_def collapsed_ok_def MAX_COLLAPSED_STACKS_def image_iff)
qed

lemma add_ok: "collapsed_ok col \<Longrightarrow> s \<notin> ce_stack ` set (cl_entries col) \<Longrightarrow> collapsed_ok (collapsed_add ok col s)"
  by (auto simp: collapsed_add_def Let_def collapsed_ok_def MAX_COLLAPSED_STACKS_def image_iff)

lemma count_ok [inv_rules]:
  assumes "collapsed_ok col" "collapsed_count_stack m d col = Some col'"
  shows "collapsed_ok col'"
proof -
  have "distinct (map ce_stack (es[i := (es ! i)\<lparr>ce_count := c\<rparr>]))" if "distinct (map ce_stack es)" for es i c
    using that by (simp add: map_update list_update_same_conv)
      (metis list_update_beyond list_update_same_conv nth_map not_le length_map)
  then show ?thesis using assms
    by (auto simp: collapsed_count_stack_def find_idx_None intro!: add_ok split: option.splits)
      (auto simp: collapsed_ok_def)
qed

lemma record_ok_inv [inv_rules]:
  assumes "collapsed_ok col" "collapsed_record m d col ev = Some col'"
  shows "collapsed_ok col'"
proof -
  let ?c1 = "if enters (cl_prev_class col) ev \<and> length (cl_names col) < MAX_STACK_DEPTH
             then col\<lparr>cl_names := cl_names col @ [sy_name (the (ie_sym ev))]\<rparr> else col"
  have c1: "collapsed_ok ?c1" using assms(1) by (auto simp: collapsed_ok_def)
  have keep: "collapsed_ok (c\<lparr>cl_names := butlast (cl_names c)\<rparr>)" if "collapsed_ok c" for c
    using that by (auto simp: collapsed_ok_def)
  have fin: "collapsed_ok (c\<lparr>cl_prev_sym := p, cl_prev_class := q\<rparr>)" if "collapsed_ok c" for c p q
    using that by (auto simp: collapsed_ok_def)
  show ?thesis
  proof (cases "is_return_class (ie_class ev)")
    case True
    then obtain c2 where c2: "collapsed_count_stack m d ?c1 = Some c2"
      "col' = c2\<lparr>cl_names := butlast (cl_names c2), cl_prev_sym := ie_sym ev, cl_prev_class := ie_class ev\<rparr>"
      using assms(2) by (auto simp: collapsed_record_def Let_def)
    show ?thesis using fin [OF keep [OF count_ok [OF c1 c2(1)]]] c2(2) by simp
  next
    case False
    then show ?thesis using assms(2) fin [OF c1] by (auto simp: collapsed_record_def Let_def)
  qed
qed

fun collapsed_run :: "collapsed \<Rightarrow> (bool \<times> bool \<times> insn_event) list \<Rightarrow> collapsed option" where
  "collapsed_run col [] = Some col"
| "collapsed_run col ((m, d, ev) # evs) = Option.bind (collapsed_record m d col ev) (\<lambda>c. collapsed_run c evs)"

lemma run_ok_inv: "collapsed_ok col \<Longrightarrow> collapsed_run col evs = Some col' \<Longrightarrow> collapsed_ok col'"
proof (induction evs arbitrary: col)
  case (Cons e evs)
  then show ?case by (cases e) (auto simp: bind_eq_Some_conv dest: record_ok_inv)
qed simp

text \<open>
  C24. The collapsed stacks keep their invariant: whatever the stream and whichever allocations fail,
  the stacks are pairwise different, at most 4096 are stored, never more than the array holds, and
  the shadow stack has at most 256 names.
\<close>

theorem collapsed_invariant:
  assumes "collapsed_run collapsed_init evs = Some col"
  shows "distinct (map ce_stack (cl_entries col)) \<and> length (cl_entries col) \<le> cl_capacity col \<and>
         cl_capacity col \<le> 4096 \<and> length (cl_names col) \<le> 256"
proof -
  have "collapsed_ok collapsed_init" by (simp add: collapsed_ok_def collapsed_init_def)
  from run_ok_inv [OF this assms] show ?thesis
    by (simp add: collapsed_ok_def MAX_COLLAPSED_STACKS_def MAX_STACK_DEPTH_def)
qed

definition ok_events :: "insn_event list \<Rightarrow> (bool \<times> bool \<times> insn_event) list" where
  "ok_events evs = map (\<lambda>e. (True, True, e)) evs"

lemma ok_events_simps [simp]: "ok_events [] = []" "ok_events (e # es) = (True, True, e) # ok_events es"
  by (simp_all add: ok_events_def)

theorem collapsed_invariant_witness:
  "\<exists>col. collapsed_run collapsed_init (ok_events call_stream) = Some col \<and> distinct (map ce_stack (cl_entries col))"
proof -
  obtain col where "collapsed_run collapsed_init (ok_events call_stream) = Some col"
    by (simp add: call_stream_def collapsed_init_def collapsed_record_def collapsed_count_stack_def
        collapsed_build_stack_def collapsed_add_def is_call_class_def is_return_class_def
        MAX_STACK_DEPTH_def MAX_COLLAPSED_STACKS_def STACK_BUF_def sym_g_def)
  with collapsed_invariant [OF this] show ?thesis by blast
qed

text \<open>The stacks a stream samples: the names on the shadow stack at each return.\<close>

fun samples :: "pt_insn_class \<Rightarrow> cstr list \<Rightarrow> insn_event list \<Rightarrow> string list" where
  "samples prev ns [] = []"
| "samples prev ns (e # es) =
     (let ns1 = (if enters prev e \<and> length ns < MAX_STACK_DEPTH then ns @ [sy_name (the (ie_sym e))] else ns)
      in if is_return_class (ie_class e)
         then (if ns1 = [] then [] else [join_names (map text_of ns1)]) @ samples (ie_class e) (butlast ns1) es
         else samples (ie_class e) ns1 es)"

lemma count_stack_put:
  assumes "collapsed_ok col" "s = join_names (map text_of (cl_names col))" "cl_names col \<noteq> []" "length s < STACK_BUF"
    and "card (insert s (ce_stack ` set (cl_entries col))) \<le> MAX_COLLAPSED_STACKS"
  shows "\<exists>col'. collapsed_count_stack True True col = Some col' \<and> cl_entries col' = stack_put (cl_entries col) s \<and>
           cl_names col' = cl_names col \<and> cl_prev_class col' = cl_prev_class col"
proof -
  have b: "collapsed_build_stack True (map text_of (cl_names col)) = Some (Some s)"
    using build_stack_fits [of "map text_of (cl_names col)" True] assms by simp
  show ?thesis
  proof (cases "find_idx (\<lambda>e. ce_stack e = s) (cl_entries col)")
    case None
    then have new: "s \<notin> ce_stack ` set (cl_entries col)" by (auto simp: find_idx_None)
    have "card (ce_stack ` set (cl_entries col)) = length (cl_entries col)"
      using assms(1) by (metis collapsed_ok_def distinct_card length_map list.set_map)
    then have "length (cl_entries col) < MAX_COLLAPSED_STACKS" using assms(5) new by simp
    from add_entries [OF assms(1) this new] None b show ?thesis by (simp add: collapsed_count_stack_def)
  next
    case (Some i)
    with b show ?thesis by (simp add: collapsed_count_stack_def stack_put_def upsert_def)
  qed
qed

definition after_entry :: "pt_insn_class \<Rightarrow> cstr list \<Rightarrow> insn_event \<Rightarrow> cstr list" where
  "after_entry prev ns e =
     (if enters prev e \<and> length ns < MAX_STACK_DEPTH then ns @ [sy_name (the (ie_sym e))] else ns)"

definition sample_of :: "cstr list \<Rightarrow> insn_event \<Rightarrow> string list" where
  "sample_of ns e = (if is_return_class (ie_class e) \<and> ns \<noteq> [] then [join_names (map text_of ns)] else [])"

lemma samples_step:
  "samples prev ns (e # es) =
     sample_of (after_entry prev ns e) e @
     samples (ie_class e) (if is_return_class (ie_class e) then butlast (after_entry prev ns e) else after_entry prev ns e) es"
  by (simp add: sample_of_def after_entry_def Let_def)

declare samples.simps(2) [simp del]

text \<open>One recorded instruction adds its sample to the table.\<close>

lemma record_counts:
  fixes col e
  defines "ns \<equiv> after_entry (cl_prev_class col) (cl_names col) e"
  assumes "collapsed_ok col" "\<forall>s \<in> set (sample_of ns e). length s < STACK_BUF"
    and card: "card (ce_stack ` set (cl_entries col) \<union> set (sample_of ns e)) \<le> MAX_COLLAPSED_STACKS"
  shows "\<exists>col'. collapsed_record True True col e = Some col' \<and> cl_prev_class col' = ie_class e \<and>
     cl_names col' = (if is_return_class (ie_class e) then butlast ns else ns) \<and>
     cl_entries col' = foldl stack_put (cl_entries col) (sample_of ns e)"
proof -
  define c1 where "c1 = (if enters (cl_prev_class col) e \<and> length (cl_names col) < MAX_STACK_DEPTH
             then col\<lparr>cl_names := cl_names col @ [sy_name (the (ie_sym e))]\<rparr> else col)"
  have c1: "collapsed_ok c1" "cl_entries c1 = cl_entries col" "cl_names c1 = ns"
    using assms(2) by (auto simp: c1_def collapsed_ok_def ns_def after_entry_def)
  consider "\<not> is_return_class (ie_class e)" | "is_return_class (ie_class e)" "ns = []"
    | "is_return_class (ie_class e)" "ns \<noteq> []" by blast
  then show ?thesis
  proof cases
    case 3
    let ?s = "join_names (map text_of ns)"
    have s: "sample_of ns e = [?s]" using 3 by (simp add: sample_of_def)
    obtain c where "collapsed_count_stack True True c1 = Some c" "cl_entries c = stack_put (cl_entries c1) ?s"
      "cl_names c = cl_names c1"
      using count_stack_put [OF c1(1), of ?s] c1(2,3) 3 assms(3) card by (auto simp: s)
    then show ?thesis using 3 c1 by (auto simp: collapsed_record_def Let_def c1_def [symmetric] s)
  qed (use c1 in \<open>auto simp: collapsed_record_def Let_def c1_def [symmetric] sample_of_def
        collapsed_count_stack_def collapsed_build_stack_def\<close>)
qed

lemma run_counts:
  assumes "collapsed_ok col" "\<forall>s \<in> set (samples (cl_prev_class col) (cl_names col) evs). length s < STACK_BUF"
    and "card (ce_stack ` set (cl_entries col) \<union> set (samples (cl_prev_class col) (cl_names col) evs)) \<le> MAX_COLLAPSED_STACKS"
  shows "\<exists>col'. collapsed_run col (ok_events evs) = Some col' \<and>
           cl_entries col' = foldl stack_put (cl_entries col) (samples (cl_prev_class col) (cl_names col) evs)"
  using assms
proof (induction evs arbitrary: col)
  case (Cons e evs)
  let ?ns = "after_entry (cl_prev_class col) (cl_names col) e"
  let ?all = "ce_stack ` set (cl_entries col) \<union> set (samples (cl_prev_class col) (cl_names col) (e # evs))"
  have "ce_stack ` set (cl_entries col) \<union> set (sample_of ?ns e) \<subseteq> ?all" by (auto simp: samples_step)
  then have "card (ce_stack ` set (cl_entries col) \<union> set (sample_of ?ns e)) \<le> MAX_COLLAPSED_STACKS"
    by (rule le_trans [OF card_mono Cons.prems(3), rotated]) simp
  with record_counts [OF Cons.prems(1)] Cons.prems(2)
  obtain c2 where c2: "collapsed_record True True col e = Some c2" "cl_prev_class c2 = ie_class e"
    "cl_names c2 = (if is_return_class (ie_class e) then butlast ?ns else ?ns)"
    "cl_entries c2 = foldl stack_put (cl_entries col) (sample_of ?ns e)" by (auto simp: samples_step)
  let ?rest = "samples (cl_prev_class c2) (cl_names c2) evs"
  have smp: "samples (cl_prev_class col) (cl_names col) (e # evs) = sample_of ?ns e @ ?rest"
    by (simp add: samples_step c2)
  have "ce_stack ` set (cl_entries c2) \<union> set ?rest = ?all"
    unfolding smp c2(4) stacks.put_all_keys by auto
  with Cons.IH [OF record_ok_inv [OF Cons.prems(1) c2(1)]] Cons.prems(2,3)
  obtain c' where "collapsed_run c2 (ok_events evs) = Some c'" "cl_entries c' = foldl stack_put (cl_entries c2) ?rest"
    unfolding smp by auto
  then show ?case unfolding smp using c2(1,4) by simp
qed simp

lemma count_list_filter: "count_list xs x = length (filter (\<lambda>y. y = x) xs)"
  by (induction xs) auto

text \<open>
  C23. The folded stacks count the samples: when every sampled stack text fits the buffer and there
  are at most 4096 different ones, the run ends, the stored stacks are exactly those sampled, and
  the count of each is the number of returns at which the shadow stack had that text.
\<close>

theorem collapsed_counts_samples:
  assumes "\<forall>s \<in> set (samples ptic_unknown [] evs). length s < 8192"
    and "card (set (samples ptic_unknown [] evs)) \<le> 4096"
  shows "\<exists>col. collapsed_run collapsed_init (ok_events evs) = Some col \<and>
           ce_stack ` set (cl_entries col) = set (samples ptic_unknown [] evs) \<and>
           (\<forall>e \<in> set (cl_entries col). ce_count e = count_list (samples ptic_unknown [] evs) (ce_stack e))"
proof -
  have "collapsed_ok collapsed_init" by (simp add: collapsed_ok_def collapsed_init_def)
  from run_counts [OF this, of evs] assms
  obtain col where col: "collapsed_run collapsed_init (ok_events evs) = Some col"
    "cl_entries col = foldl stack_put [] (samples ptic_unknown [] evs)"
    by (auto simp: collapsed_init_def STACK_BUF_def MAX_COLLAPSED_STACKS_def)
  have "ce_count e = count_list (samples ptic_unknown [] evs) (ce_stack e)" if "e \<in> set (cl_entries col)" for e
    using stacks.put_all_member [of "[]" e "samples ptic_unknown [] evs"] that col(2)
    by (simp add: sum_list_triv count_list_filter)
  then show ?thesis using col stacks.put_all_keys [of "[]" "samples ptic_unknown [] evs"] by auto
qed

lemma call_stream_samples: "samples ptic_unknown [] call_stream = [''g'']"
  by (simp add: call_stream_def samples_step sample_of_def after_entry_def is_call_class_def is_return_class_def
      MAX_STACK_DEPTH_def sym_g_def)

theorem collapsed_counts_samples_witness:
  "\<exists>col. collapsed_run collapsed_init (ok_events call_stream) = Some col \<and>
     ce_stack ` set (cl_entries col) = {''g''} \<and> (\<forall>e \<in> set (cl_entries col). ce_count e = 1)"
proof -
  have h: "\<forall>s \<in> set (samples ptic_unknown [] call_stream). length s < 8192"
    "card (set (samples ptic_unknown [] call_stream)) \<le> 4096"
    unfolding call_stream_samples by simp_all
  obtain col where col: "collapsed_run collapsed_init (ok_events call_stream) = Some col"
    "ce_stack ` set (cl_entries col) = {''g''}"
    "\<forall>e \<in> set (cl_entries col). ce_count e = count_list [''g''] (ce_stack e)"
    using collapsed_counts_samples [OF h] unfolding call_stream_samples by auto
  have "ce_count e = 1" if "e \<in> set (cl_entries col)" for e
    using col(3) imageI [OF that, of ce_stack] that unfolding col(2) by simp
  then show ?thesis using col(1,2) by blast
qed

end
