(* ===== verification/Speedscope.thy ===== *)
theory Speedscope
  imports Collapsed Format
begin

text \<open>
  \<open>decode.c\<close>, the Speedscope export: the frames of all stacks are collected once, and every stack is
  written as indices into that array. The allocations are not checked by the program; the model is
  of runs in which they succeed.
\<close>

section \<open>Model\<close>

definition speedscope_frame_idx :: "string list \<Rightarrow> string \<Rightarrow> nat \<times> string list" where
  "speedscope_frame_idx frames name =
     (case find_idx (\<lambda>f. f = name) frames of
        Some i \<Rightarrow> (i, frames)
      | None \<Rightarrow> (length frames, frames @ [name]))"

definition stack_tokens :: "collapsed_entry \<Rightarrow> string list" where
  "stack_tokens e = strtok_all (CHR '';'') (ce_stack e)"

text \<open>Phase 1: one pass over the tokens of all stacks.\<close>

definition collect_frames :: "collapsed_entry list \<Rightarrow> string list" where
  "collect_frames entries =
     foldl (\<lambda>fr tok. snd (speedscope_frame_idx fr tok)) [] (concat (map stack_tokens entries))"

text \<open>Phase 2: the indices of one stack; the frame array is threaded through, as in the code.\<close>

fun stack_indices :: "string list \<Rightarrow> string list \<Rightarrow> nat list \<times> string list" where
  "stack_indices frames [] = ([], frames)"
| "stack_indices frames (tok # toks) =
     (case speedscope_frame_idx frames tok of
        (i, fr1) \<Rightarrow> (case stack_indices fr1 toks of (is, fr2) \<Rightarrow> (i # is, fr2)))"

fun all_indices :: "string list \<Rightarrow> collapsed_entry list \<Rightarrow> nat list list \<times> string list" where
  "all_indices frames [] = ([], frames)"
| "all_indices frames (e # es) =
     (case stack_indices frames (stack_tokens e) of
        (is, fr1) \<Rightarrow> (case all_indices fr1 es of (iss, fr2) \<Rightarrow> (is # iss, fr2)))"

fun comma_join :: "string \<Rightarrow> string list \<Rightarrow> string" where
  "comma_join sep [] = []"
| "comma_join sep [x] = x"
| "comma_join sep (x # y # ys) = x @ sep @ comma_join sep (y # ys)"

fun frame_lines :: "string list \<Rightarrow> string" where
  "frame_lines [] = []"
| \<open>frame_lines (f # fs) =
     ''    {"name": "'' @ json_escape 256 f @ ''"}'' @ (if fs = [] then [] else '','') @ nl @ frame_lines fs\<close>

fun sample_lines :: "nat list list \<Rightarrow> string" where
  "sample_lines [] = []"
| "sample_lines (is # iss) =
     ''      ['' @ comma_join '','' (map (\<lambda>i. fmt_d (int i)) is) @ '']'' @
     (if iss = [] then [] else '','') @ nl @ sample_lines iss"

definition total_weight :: "collapsed_entry list \<Rightarrow> nat" where
  "total_weight entries = sum_list (map ce_count entries)"

definition speedscope_print :: "collapsed \<Rightarrow> string" where
  \<open>speedscope_print col =
     (let entries = cl_entries col;
          frames = collect_frames entries
      in ''{'' @ nl @
         ''  "$schema": "https://www.speedscope.app/file-format-spec.json",'' @ nl @
         ''  "shared": {"frames": ['' @ nl @ frame_lines frames @ ''  ]},'' @ nl @
         ''  "profiles": [{'' @ nl @ ''    "type": "sampled",'' @ nl @
         ''    "name": "bsdtrace",'' @ nl @ ''    "unit": "none",'' @ nl @
         ''    "startValue": 0,'' @ nl @
         ''    "endValue": '' @ fmt_d (int (total_weight entries)) @ '','' @ nl @
         ''    "samples": ['' @ nl @ sample_lines (fst (all_indices frames entries)) @ ''    ],'' @ nl @
         ''    "weights": ['' @ comma_join '','' (map (\<lambda>e. fmt_d (int (ce_count e))) entries) @ '']'' @ nl @
         ''  }],'' @ nl @ ''  "name": "bsdtrace trace",'' @ nl @
         ''  "exporter": "bsdtrace"'' @ nl @ ''}'' @ nl)\<close>

section \<open>Indices denote the stacks\<close>

lemma frame_idx_known:
  assumes "name \<in> set frames"
  shows "snd (speedscope_frame_idx frames name) = frames"
    and "fst (speedscope_frame_idx frames name) < length frames"
    and "frames ! fst (speedscope_frame_idx frames name) = name"
proof -
  obtain i where i: "find_idx (\<lambda>f. f = name) frames = Some i"
    using assms by (cases "find_idx (\<lambda>f. f = name) frames") (auto simp: find_idx_None)
  note d = find_idx_SomeD [OF i]
  show "snd (speedscope_frame_idx frames name) = frames" by (simp add: speedscope_frame_idx_def i)
  show "fst (speedscope_frame_idx frames name) < length frames"
    "frames ! fst (speedscope_frame_idx frames name) = name"
    using d by (simp_all add: speedscope_frame_idx_def i)
qed

lemma frame_idx_set: "set (snd (speedscope_frame_idx frames name)) = insert name (set frames)"
  using frame_idx_known(1) [of name frames]
  by (cases "name \<in> set frames") (auto simp: speedscope_frame_idx_def find_idx_None split: option.splits dest!: find_idx_SomeD)

lemma frame_idx_distinct: "distinct frames \<Longrightarrow> distinct (snd (speedscope_frame_idx frames name))"
  by (auto simp: speedscope_frame_idx_def find_idx_None split: option.splits)

lemma collect_fold_set:
  "set (foldl (\<lambda>fr tok. snd (speedscope_frame_idx fr tok)) fr toks) = set fr \<union> set toks"
  by (induction toks arbitrary: fr) (auto simp: frame_idx_set)

lemma collect_fold_distinct:
  "distinct fr \<Longrightarrow> distinct (foldl (\<lambda>fr tok. snd (speedscope_frame_idx fr tok)) fr toks)"
  by (induction toks arbitrary: fr) (auto simp: frame_idx_distinct)

lemma stack_indices_known:
  "set toks \<subseteq> set frames \<Longrightarrow> stack_indices frames toks = (is, fr) \<Longrightarrow>
   fr = frames \<and> map (nth frames) is = toks \<and> (\<forall>i \<in> set is. i < length frames)"
proof (induction toks arbitrary: "is")
  case (Cons tok toks)
  obtain i fr1 where i: "speedscope_frame_idx frames tok = (i, fr1)" by fastforce
  with Cons.prems(1) frame_idx_known [of tok frames]
  have k: "fr1 = frames" "i < length frames" "frames ! i = tok" by auto
  with Cons.prems i obtain js where "stack_indices frames toks = (js, fr)" "is = i # js"
    by (auto split: prod.splits)
  with Cons.IH [of js] Cons.prems(1) k show ?case by auto
qed simp

lemma all_indices_known:
  "(\<forall>e \<in> set es. set (stack_tokens e) \<subseteq> set frames) \<Longrightarrow> all_indices frames es = (iss, fr) \<Longrightarrow>
   fr = frames \<and> map (map (nth frames)) iss = map stack_tokens es \<and> (\<forall>is \<in> set iss. \<forall>i \<in> set is. i < length frames)"
proof (induction es arbitrary: iss)
  case (Cons e es)
  obtain is1 fr1 where i: "stack_indices frames (stack_tokens e) = (is1, fr1)" by fastforce
  with Cons.prems(1) stack_indices_known [of "stack_tokens e" frames is1 fr1]
  have k: "fr1 = frames" "map (nth frames) is1 = stack_tokens e" "\<forall>i \<in> set is1. i < length frames" by auto
  with Cons.prems i obtain js where "all_indices frames es = (js, fr)" "iss = is1 # js"
    by (auto split: prod.splits)
  with Cons.IH [of js] Cons.prems(1) k show ?case by auto
qed simp

text \<open>
  C34. The Speedscope file is consistent: the frame array that was written has no duplicates and is
  complete when the samples are written (writing them adds no frame), every index is inside the
  array, and looking the indices of a sample up in the array gives back the functions of its stack
  in order, one sample per stack.
\<close>

theorem speedscope_samples_denote_stacks:
  "case all_indices (collect_frames entries) entries of
     (iss, fr) \<Rightarrow>
       fr = collect_frames entries \<and> distinct (collect_frames entries) \<and>
       list_all (list_all (\<lambda>i. i < length fr)) iss \<and>
       map (map (nth fr)) iss = map (\<lambda>e. strtok_all (CHR '';'') (ce_stack e)) entries"
proof -
  obtain iss fr where i: "all_indices (collect_frames entries) entries = (iss, fr)" by fastforce
  have "\<forall>e \<in> set entries. set (stack_tokens e) \<subseteq> set (collect_frames entries)"
    by (auto simp: collect_frames_def collect_fold_set)
  note known = all_indices_known [OF this i]
  have "distinct (collect_frames entries)" by (simp add: collect_frames_def collect_fold_distinct)
  moreover have "stack_tokens = (\<lambda>e. strtok_all (CHR '';'') (ce_stack e))" by (simp add: stack_tokens_def fun_eq_iff)
  ultimately show ?thesis using known by (simp add: i list_all_iff)
qed

end
