(* ===== verification/Packets.thy ===== *)
theory Packets
  imports Bsdtrace_Types "HOL-Library.Monad_Syntax"
begin

text \<open>
  \<open>decode.c\<close>, the packet-level decoder: the text and JSON form of a packet and the loop over
  libipt's packet decoder. libipt is not part of the sources: a decoder is a state of any type with
  the two calls the loop makes, and what is known about them (\<open>pkt_progress\<close>) is that a packet read
  leaves fewer bytes to read and that synchronising forward moves to a later synchronisation point.
  Standard output is the string the loop builds, and the counters of the summary are its result.
\<close>

section \<open>libipt's answers\<close>

datatype pt_errcode = pte_eos | pte_nomap | pte_other int

text \<open>A status is an error or a set of flags, of which the program tests \<open>pts_event_pending\<close>.\<close>

datatype pt_status = St_ok (event_pending: bool) | St_err (st_code: pt_errcode)

datatype pt_exec_mode = ptem_unknown | ptem_16bit | ptem_32bit | ptem_64bit

text \<open>
  A packet with the part of its payload that is printed. For the IP packets the flag is
  \<open>ipc == pt_ipc_suppressed\<close>; a type without a case carries its number and size.
\<close>

datatype pt_packet =
  ppt_psb | ppt_psbend | ppt_tip bool u64 | ppt_tip_pge u64 | ppt_tip_pgd bool u64 | ppt_fup bool u64
| ppt_tnt u64 u8 | ppt_mode_exec pt_exec_mode | ppt_mode_tsx bool bool | ppt_mode_other nat
| ppt_pip u64 bool | ppt_tsc u64 | ppt_cbr nat | ppt_tma nat nat | ppt_mtc nat | ppt_cyc u64
| ppt_ovf | ppt_ptw bool u64 | ppt_stop | ppt_vmcs u64 | ppt_mnt u64 | ppt_exstop bool | ppt_pad
| ppt_unknown int nat

section \<open>Printing a packet\<close>

definition exec_mode_str :: "pt_exec_mode \<Rightarrow> string" where
  "exec_mode_str m =
     (case m of ptem_16bit \<Rightarrow> ''16-bit'' | ptem_32bit \<Rightarrow> ''32-bit'' | ptem_64bit \<Rightarrow> ''64-bit''
      | ptem_unknown \<Rightarrow> ''unknown'')"

definition tnt_str :: "nat \<Rightarrow> u64 \<Rightarrow> u8 \<Rightarrow> string" where
  "tnt_str bufsz payload bit_size =
     (let n = (if unat bit_size \<ge> bufsz then bufsz - 1 else unat bit_size)
      in map (\<lambda>i. if bit payload i then CHR ''!'' else CHR ''.'') (rev [0..<n]))"

definition hex16 :: "u64 \<Rightarrow> string" where
  "hex16 w = zpad 16 (fmt_lx w)"

definition fmt_x :: "nat \<Rightarrow> nat \<Rightarrow> string" where
  "fmt_x width n = zpad width (radix 16 n)"

definition flag_d :: "bool \<Rightarrow> string" where
  "flag_d b = (if b then ''1'' else ''0'')"

definition ip_text :: "bool \<Rightarrow> u64 \<Rightarrow> string" where
  "ip_text suppressed ip = (if suppressed then ''suppressed'' else ''0x'' @ hex16 ip)"

fun emit_packet_text :: "pt_packet \<Rightarrow> string" where
  "emit_packet_text ppt_psb = ''  PSB'' @ nl"
| "emit_packet_text ppt_psbend = ''  PSBEND'' @ nl"
| "emit_packet_text (ppt_tip s ip) = ''  TIP       '' @ ip_text s ip @ nl"
| "emit_packet_text (ppt_tip_pge ip) = ''  TIP.PGE   0x'' @ hex16 ip @ nl"
| "emit_packet_text (ppt_tip_pgd s ip) = ''  TIP.PGD   '' @ ip_text s ip @ nl"
| "emit_packet_text (ppt_fup s ip) = ''  FUP       '' @ ip_text s ip @ nl"
| "emit_packet_text (ppt_tnt p n) = ''  TNT       '' @ tnt_str 65 p n @ nl"
| "emit_packet_text (ppt_mode_exec m) = ''  MODE.Exec '' @ exec_mode_str m @ nl"
| "emit_packet_text (ppt_mode_tsx i a) = ''  MODE.TSX  intx='' @ flag_d i @ '' abrt='' @ flag_d a @ nl"
| "emit_packet_text (ppt_mode_other l) = ''  MODE      leaf=0x'' @ fmt_x 2 l @ nl"
| "emit_packet_text (ppt_pip c nr) = ''  PIP       cr3=0x'' @ hex16 c @ '' nr='' @ flag_d nr @ nl"
| "emit_packet_text (ppt_tsc t) = ''  TSC       0x'' @ fmt_lx t @ nl"
| "emit_packet_text (ppt_cbr r) = ''  CBR       ratio='' @ fmt_u r @ nl"
| "emit_packet_text (ppt_tma c f) = ''  TMA       ctc=0x'' @ fmt_x 4 c @ '' fc=0x'' @ fmt_x 4 f @ nl"
| "emit_packet_text (ppt_mtc c) = ''  MTC       ctc=0x'' @ fmt_x 2 c @ nl"
| "emit_packet_text (ppt_cyc v) = ''  CYC       0x'' @ fmt_lx v @ nl"
| "emit_packet_text ppt_ovf = ''  OVF'' @ nl"
| "emit_packet_text (ppt_ptw i p) = ''  PTW       ip='' @ flag_d i @ '' payload=0x'' @ hex16 p @ nl"
| "emit_packet_text ppt_stop = ''  STOP'' @ nl"
| "emit_packet_text (ppt_vmcs b) = ''  VMCS      0x'' @ hex16 b @ nl"
| "emit_packet_text (ppt_mnt p) = ''  MNT       0x'' @ hex16 p @ nl"
| "emit_packet_text (ppt_exstop i) = ''  EXSTOP    ip='' @ flag_d i @ nl"
| "emit_packet_text ppt_pad = []"
| "emit_packet_text (ppt_unknown t sz) = ''  ???       type='' @ fmt_d t @ '' size='' @ fmt_u sz @ nl"

definition ip_json :: "bool \<Rightarrow> u64 \<Rightarrow> string" where
  \<open>ip_json suppressed ip = (if suppressed then ''null'' else ''"0x'' @ fmt_lx ip @ ''"'')\<close>

fun emit_packet_json :: "pt_packet \<Rightarrow> string" where
  \<open>emit_packet_json ppt_psb = ''{"pkt":"psb"}'' @ nl\<close>
| \<open>emit_packet_json ppt_psbend = ''{"pkt":"psbend"}'' @ nl\<close>
| \<open>emit_packet_json (ppt_tip s ip) = ''{"pkt":"tip","ip":'' @ ip_json s ip @ ''}'' @ nl\<close>
| \<open>emit_packet_json (ppt_tip_pge ip) = ''{"pkt":"tip_pge","ip":"0x'' @ fmt_lx ip @ ''"}'' @ nl\<close>
| \<open>emit_packet_json (ppt_tip_pgd s ip) = ''{"pkt":"tip_pgd","ip":'' @ ip_json s ip @ ''}'' @ nl\<close>
| \<open>emit_packet_json (ppt_fup s ip) = ''{"pkt":"fup","ip":'' @ ip_json s ip @ ''}'' @ nl\<close>
| \<open>emit_packet_json (ppt_tnt p n) = ''{"pkt":"tnt","bits":"'' @ tnt_str 65 p n @ ''"}'' @ nl\<close>
| \<open>emit_packet_json (ppt_mode_exec m) = ''{"pkt":"mode_exec","mode":"'' @ exec_mode_str m @ ''"}'' @ nl\<close>
| \<open>emit_packet_json (ppt_mode_tsx i a) =
     ''{"pkt":"mode_tsx","intx":'' @ flag_d i @ '',"abrt":'' @ flag_d a @ ''}'' @ nl\<close>
| \<open>emit_packet_json (ppt_pip c nr) = ''{"pkt":"pip","cr3":"0x'' @ fmt_lx c @ ''","nr":'' @ flag_d nr @ ''}'' @ nl\<close>
| \<open>emit_packet_json (ppt_tsc t) = ''{"pkt":"tsc","tsc":'' @ fmt_lu t @ ''}'' @ nl\<close>
| \<open>emit_packet_json (ppt_cbr r) = ''{"pkt":"cbr","ratio":'' @ fmt_u r @ ''}'' @ nl\<close>
| \<open>emit_packet_json ppt_ovf = ''{"pkt":"ovf"}'' @ nl\<close>
| \<open>emit_packet_json (ppt_ptw i p) = ''{"pkt":"ptw","ip":'' @ flag_d i @ '',"payload":"0x'' @ fmt_lx p @ ''"}'' @ nl\<close>
| \<open>emit_packet_json ppt_stop = ''{"pkt":"stop"}'' @ nl\<close>
| \<open>emit_packet_json other = []\<close>

section \<open>The decode loop\<close>

record 'd pkt_decoder =
  pk_sync :: "'d \<Rightarrow> pt_status \<times> 'd"
  pk_next :: "'d \<Rightarrow> pt_status \<times> pt_packet \<times> 'd"

text \<open>Packets until the first error: the error, the decoder, the count and the output.\<close>

partial_function (option) pkt_inner ::
  "'d pkt_decoder \<Rightarrow> (pt_packet \<Rightarrow> string) \<Rightarrow> 'd \<Rightarrow> nat \<Rightarrow> string \<Rightarrow> (pt_errcode \<times> 'd \<times> nat \<times> string) option" where
  "pkt_inner D emit d tot out =
     (let r = pk_next D d
      in if \<not> is_St_ok (fst r) then Some (st_code (fst r), snd (snd r), tot, out)
         else pkt_inner D emit (snd (snd r)) (tot + 1) (out @ emit (fst (snd r))))"

record pkt_summary =
  ps_total :: nat
  ps_syncs :: nat
  ps_errors :: nat
  ps_out :: string

partial_function (option) pkt_outer ::
  "'d pkt_decoder \<Rightarrow> (pt_packet \<Rightarrow> string) \<Rightarrow> pt_status \<times> 'd \<Rightarrow> pkt_summary \<Rightarrow> pkt_summary option" where
  "pkt_outer D emit sd ps =
     (if \<not> is_St_ok (fst sd) then Some ps
      else Option.bind (pkt_inner D emit (snd sd) (ps_total ps) (ps_out ps))
        (\<lambda>r. let ps1 = ps\<lparr>ps_syncs := ps_syncs ps + 1, ps_total := fst (snd (snd r)), ps_out := snd (snd (snd r))\<rparr>
             in if fst r = pte_eos then Some ps1
                else pkt_outer D emit (pk_sync D (fst (snd r))) (ps1\<lparr>ps_errors := ps_errors ps1 + 1\<rparr>)))"

text \<open>
  \<open>alloc\<close> is the result of \<open>pt_pkt_alloc_decoder\<close>. The result is the return value and the summary;
  the outer \<open>None\<close> is a loop that does not end.
\<close>

definition ps_empty :: pkt_summary where
  "ps_empty = \<lparr>ps_total = 0, ps_syncs = 0, ps_errors = 0, ps_out = []\<rparr>"

definition decode_pt_buffer ::
  "'d pkt_decoder \<Rightarrow> 'd option \<Rightarrow> bool \<Rightarrow> nat \<Rightarrow> bsdtrace_fmt \<Rightarrow> (int \<times> pkt_summary) option" where
  "decode_pt_buffer D alloc buf_null len fmt =
     (if buf_null \<or> len = 0 then Some (- 1, ps_empty)
      else case alloc of
             None \<Rightarrow> Some (- 1, ps_empty)
           | Some d \<Rightarrow>
               do { ps \<leftarrow> pkt_outer D (if fmt = FMT_JSON then emit_packet_json else emit_packet_text) (pk_sync D d) ps_empty;
                    Some (if ps_total ps > 0 then 0 else - 1, ps) })"

section \<open>Branch bits\<close>

lemma tnt_length: "length (tnt_str bufsz p n) = (if unat n \<ge> bufsz then bufsz - 1 else unat n)"
  by (simp add: tnt_str_def Let_def)

text \<open>
  The branch history of a TNT packet is printed completely and in order: with the 65-byte buffer
  of both printers, a packet of at most 64 bits yields exactly \<open>bit_size\<close> characters, oldest branch
  (highest bit) first, and character \<open>j\<close> is \<open>!\<close> exactly when the corresponding bit is set; no size
  makes the text outgrow the buffer or the bit index reach 64.
\<close>

theorem tnt_str_bits:
  "length (tnt_str 65 p n) = min (unat n) 64 \<and>
   list_all (\<lambda>j. tnt_str 65 p n ! j = (if bit p (min (unat n) 64 - 1 - j) then CHR ''!'' else CHR ''.''))
     [0..<min (unat n) 64]"
proof -
  obtain m where m: "min (unat n) 64 = m" by simp
  have "(if unat n \<ge> 65 then 65 - 1 else unat n) = m" using m by (auto simp: min_def)
  then have s: "tnt_str 65 p n = map (\<lambda>i. if bit p i then CHR ''!'' else CHR ''.'') (rev [0..<m])"
    by (simp add: tnt_str_def Let_def)
  have "tnt_str 65 p n ! j = (if bit p (m - 1 - j) then CHR ''!'' else CHR ''.'')" if "j < m" for j
    using that unfolding s by (simp add: rev_nth)
  then show ?thesis unfolding m by (simp add: s list_all_iff)
qed

section \<open>The loop ends\<close>

text \<open>
  What the loop needs of libipt. \<open>left d\<close> is a bound on the bytes behind the decoder's position and
  \<open>ahead d\<close> one on the bytes behind its synchronisation point: reading a packet consumes bytes and
  does not move the synchronisation point back, and a successful \<open>pt_pkt_sync_forward\<close> moves it on.
\<close>

definition pkt_progress :: "'d pkt_decoder \<Rightarrow> ('d \<Rightarrow> nat) \<Rightarrow> ('d \<Rightarrow> nat) \<Rightarrow> bool" where
  "pkt_progress D left ahead \<longleftrightarrow>
     (\<forall>d. is_St_ok (fst (pk_next D d)) \<longrightarrow> left (snd (snd (pk_next D d))) < left d) \<and>
     (\<forall>d. ahead (snd (snd (pk_next D d))) \<le> ahead d) \<and>
     (\<forall>d. is_St_ok (fst (pk_sync D d)) \<longrightarrow> ahead (snd (pk_sync D d)) < ahead d)"

lemma pkt_inner_returns:
  assumes "pkt_progress D left ahead"
  shows "\<exists>e d' pkts. pkt_inner D emit d tot out = Some (e, d', tot + length pkts, out @ concat (map emit pkts)) \<and>
           ahead d' \<le> ahead d"
proof (induction "left d" arbitrary: d tot out rule: less_induct)
  case less
  obtain st p d1 where n: "pk_next D d = (st, p, d1)" by (cases "pk_next D d")
  have a: "ahead d1 \<le> ahead d" using assms n by (auto simp: pkt_progress_def dest: spec [of _ d])
  show ?case
  proof (cases "is_St_ok st")
    case False
    then show ?thesis using n a pkt_inner.simps [of D emit d tot out]
      by (intro exI [of _ "st_code st"] exI [of _ d1] exI [of _ "[]"]) simp
  next
    case True
    then have "left d1 < left d" using assms n by (auto simp: pkt_progress_def dest: spec [of _ d])
    from less [OF this, of "tot + 1" "out @ emit p"] obtain e d' pkts where
      "pkt_inner D emit d1 (tot + 1) (out @ emit p) = Some (e, d', tot + 1 + length pkts, (out @ emit p) @ concat (map emit pkts))"
      "ahead d' \<le> ahead d1" by blast
    then show ?thesis using n True a pkt_inner.simps [of D emit d tot out]
      by (intro exI [of _ e] exI [of _ d'] exI [of _ "p # pkts"]) simp
  qed
qed

lemma pkt_outer_returns:
  assumes "pkt_progress D left ahead"
  shows "\<exists>ps' pkts. pkt_outer D emit (st, d) ps = Some ps' \<and> ps_total ps' = ps_total ps + length pkts \<and>
           ps_out ps' = ps_out ps @ concat (map emit pkts) \<and>
           ps_errors ps' \<le> ps_errors ps + (ps_syncs ps' - ps_syncs ps) \<and> ps_syncs ps \<le> ps_syncs ps'"
proof (induction "ahead d" arbitrary: st d ps rule: less_induct)
  case less
  note unfold_step = pkt_outer.simps [of D emit "(st, d)" ps]
  show ?case
  proof (cases "is_St_ok st")
    case False
    then show ?thesis using unfold_step by (intro exI [of _ ps] exI [of _ "[]"]) simp
  next
    case True
    obtain e d1 pkts where i: "pkt_inner D emit d (ps_total ps) (ps_out ps) =
        Some (e, d1, ps_total ps + length pkts, ps_out ps @ concat (map emit pkts))" "ahead d1 \<le> ahead d"
      using pkt_inner_returns [OF assms] by blast
    define ps1 where "ps1 = ps\<lparr>ps_syncs := ps_syncs ps + 1, ps_total := ps_total ps + length pkts,
        ps_out := ps_out ps @ concat (map emit pkts)\<rparr>"
    obtain st2 d2 where s: "pk_sync D d1 = (st2, d2)" by fastforce
    have step: "pkt_outer D emit (st, d) ps =
        (if e = pte_eos then Some ps1 else pkt_outer D emit (st2, d2) (ps1\<lparr>ps_errors := ps_errors ps1 + 1\<rparr>))"
      using unfold_step True i(1) s by (simp add: ps1_def Let_def)
    show ?thesis
    proof (cases "e = pte_eos \<or> \<not> is_St_ok st2")
      case True
      then have "pkt_outer D emit (st, d) ps = Some (if e = pte_eos then ps1 else ps1\<lparr>ps_errors := ps_errors ps1 + 1\<rparr>)"
        using step pkt_outer.simps [of D emit "(st2, d2)"] by auto
      then show ?thesis
        by (intro exI [of _ "if e = pte_eos then ps1 else ps1\<lparr>ps_errors := ps_errors ps1 + 1\<rparr>"] exI [of _ pkts])
          (simp add: ps1_def)
    next
      case False
      then have "ahead d2 < ahead d1" using assms s by (auto simp: pkt_progress_def dest: spec [of _ d1])
      then have "ahead d2 < ahead d" using i(2) by simp
      from less [OF this, of st2 "ps1\<lparr>ps_errors := ps_errors ps1 + 1\<rparr>"] obtain ps' pkts2 where
        "pkt_outer D emit (st2, d2) (ps1\<lparr>ps_errors := ps_errors ps1 + 1\<rparr>) = Some ps'"
        "ps_total ps' = ps_total ps1 + length pkts2" "ps_out ps' = ps_out ps1 @ concat (map emit pkts2)"
        "ps_errors ps' \<le> ps_errors ps1 + 1 + (ps_syncs ps' - ps_syncs ps1)" "ps_syncs ps1 \<le> ps_syncs ps'"
        by auto
      then show ?thesis using step False
        by (intro exI [of _ ps'] exI [of _ "pkts @ pkts2"]) (auto simp: ps1_def)
    qed
  qed
qed

lemma decode_buffer_returns:
  assumes "pkt_progress D left ahead"
  shows "\<exists>rc ps pkts. decode_pt_buffer D alloc buf_null len fmt = Some (rc, ps) \<and>
           ps_total ps = length pkts \<and>
           ps_out ps = concat (map (if fmt = FMT_JSON then emit_packet_json else emit_packet_text) pkts) \<and>
           ps_errors ps \<le> ps_syncs ps \<and> (rc = 0 \<longleftrightarrow> pkts \<noteq> [])"
proof (cases "buf_null \<or> len = 0 \<or> alloc = None")
  case True
  then show ?thesis
    by (intro exI [of _ "- 1"] exI [of _ ps_empty] exI [of _ "[]"]) (auto simp: decode_pt_buffer_def ps_empty_def)
next
  case False
  then obtain d where d: "alloc = Some d" by auto
  obtain st d1 where s: "pk_sync D d = (st, d1)" by fastforce
  let ?emit = "if fmt = FMT_JSON then emit_packet_json else emit_packet_text"
  obtain ps pkts where o: "pkt_outer D ?emit (st, d1) ps_empty = Some ps" "ps_total ps = length pkts"
    "ps_out ps = concat (map ?emit pkts)" "ps_errors ps \<le> ps_syncs ps"
    using pkt_outer_returns [OF assms, of ?emit st d1 ps_empty] by (auto simp: ps_empty_def)
  then show ?thesis using False d s
    by (intro exI [of _ "if ps_total ps > 0 then 0 else - 1"] exI [of _ ps] exI [of _ pkts])
      (auto simp: decode_pt_buffer_def)
qed


text \<open>A decoder over a list of packets with a count of the synchronisation points left.\<close>

definition list_decoder :: "(nat \<times> pt_packet list) pkt_decoder" where
  "list_decoder =
     \<lparr>pk_sync = (\<lambda>(n, ps). case n of 0 \<Rightarrow> (St_err pte_eos, n, ps) | Suc m \<Rightarrow> (St_ok False, m, ps)),
      pk_next = (\<lambda>(n, ps). case ps of [] \<Rightarrow> (St_err pte_eos, ppt_pad, n, ps) | p # q \<Rightarrow> (St_ok False, p, n, q))\<rparr>"


end
