(* ===== verification/Insn_Loop.thy ===== *)
theory Insn_Loop
  imports Packets
begin

text \<open>
  \<open>decode.c\<close>, the loop that \<open>decode_pt_probe\<close> and \<open>decode_pt_insn\<close> run over libipt's instruction
  decoder: drain the pending events, read an instruction, synchronise after an error, stop at the end
  of the stream. libipt is a parameter, a state of any type with the calls the loop makes; what each
  of the two callers does with an event, an instruction or an error is the handler \<open>h\<close>, whose \<open>None\<close>
  stands for undefined behaviour. The lemmas show that the loop ends when libipt makes progress and
  that it is then a fold of the handler over the list of items that libipt delivers.
\<close>

section \<open>Model\<close>

datatype pt_event = ptev_overflow | ptev_ptwrite u64 u64 | ptev_other

record 'd insn_decoder =
  in_sync :: "'d \<Rightarrow> pt_status \<times> 'd"
  in_event :: "'d \<Rightarrow> pt_status \<times> pt_event \<times> 'd"
  in_next :: "'d \<Rightarrow> pt_status \<times> (u64 \<times> pt_insn_class) \<times> 'd"
  in_time :: "'d \<Rightarrow> u64 \<times> u32 \<times> u32"

text \<open>What one turn of the loop handles; an instruction carries what \<open>pt_insn_time\<close> says of it.\<close>

datatype dec_item = It_event pt_event | It_insn u64 pt_insn_class "u64 \<times> u32 \<times> u32" | It_err pt_errcode

partial_function (option) event_loop ::
  "'d insn_decoder \<Rightarrow> (dec_item \<Rightarrow> 's \<Rightarrow> 's option) \<Rightarrow> pt_status \<times> 'd \<Rightarrow> 's \<Rightarrow> ((pt_status \<times> 'd) \<times> 's) option" where
  "event_loop D h sd s =
     (if is_St_ok (fst sd) \<and> event_pending (fst sd)
      then let r = in_event D (snd sd)
           in if \<not> is_St_ok (fst r) then Some ((fst r, snd (snd r)), s)
              else Option.bind (h (It_event (fst (snd r))) s) (\<lambda>s1. event_loop D h (fst r, snd (snd r)) s1)
      else Some (sd, s))"

partial_function (option) insn_loop ::
  "'d insn_decoder \<Rightarrow> (dec_item \<Rightarrow> 's \<Rightarrow> 's option) \<Rightarrow> pt_status \<times> 'd \<Rightarrow> 's \<Rightarrow> 's option" where
  "insn_loop D h sd s =
     (if \<not> is_St_ok (fst sd) then Some s
      else Option.bind (event_loop D h sd s)
        (\<lambda>e. if \<not> is_St_ok (fst (fst e)) then Some (snd e)
             else let n = in_next D (snd (fst e))
                  in if \<not> is_St_ok (fst n)
                     then if st_code (fst n) = pte_eos then Some (snd e)
                          else Option.bind (h (It_err (st_code (fst n))) (snd e))
                                 (\<lambda>s2. insn_loop D h (in_sync D (snd (snd n))) s2)
                     else Option.bind (h (It_insn (fst (fst (snd n))) (snd (fst (snd n))) (in_time D (snd (snd n)))) (snd e))
                            (\<lambda>s2. insn_loop D h (fst n, snd (snd n)) s2)))"

section \<open>A run is a fold over the delivered items\<close>

fun run_items :: "(dec_item \<Rightarrow> 's \<Rightarrow> 's option) \<Rightarrow> dec_item list \<Rightarrow> 's \<Rightarrow> 's option" where
  "run_items h [] s = Some s"
| "run_items h (it # its) s = Option.bind (h it s) (run_items h its)"

lemma run_items_append: "run_items h (xs @ ys) s = Option.bind (run_items h xs s) (run_items h ys)"
  by (induction xs arbitrary: s) (auto simp: bind_eq_Some_conv split: bind_split)

text \<open>
  What the loop needs of libipt: an event or an instruction read leaves less behind the decoder's
  position and does not move its synchronisation point back, and synchronising moves on.
\<close>

definition insn_progress :: "'d insn_decoder \<Rightarrow> ('d \<Rightarrow> nat) \<Rightarrow> ('d \<Rightarrow> nat) \<Rightarrow> bool" where
  "insn_progress D left ahead \<longleftrightarrow>
     (\<forall>d. (is_St_ok (fst (in_event D d)) \<longrightarrow> left (snd (snd (in_event D d))) < left d) \<and>
          ahead (snd (snd (in_event D d))) \<le> ahead d) \<and>
     (\<forall>d. (is_St_ok (fst (in_next D d)) \<longrightarrow> left (snd (snd (in_next D d))) < left d) \<and>
          ahead (snd (snd (in_next D d))) \<le> ahead d) \<and>
     (\<forall>d. is_St_ok (fst (in_sync D d)) \<longrightarrow> ahead (snd (in_sync D d)) < ahead d)"

lemma progress_event:
  "insn_progress D left ahead \<Longrightarrow> in_event D d = (st, ev, d') \<Longrightarrow> ahead d' \<le> ahead d \<and> (is_St_ok st \<longrightarrow> left d' < left d)"
  by (auto simp: insn_progress_def dest: spec [of _ d])

lemma progress_next:
  "insn_progress D left ahead \<Longrightarrow> in_next D d = (st, i, d') \<Longrightarrow> ahead d' \<le> ahead d \<and> (is_St_ok st \<longrightarrow> left d' < left d)"
  by (auto simp: insn_progress_def dest: spec [of _ d])

lemma progress_sync:
  "insn_progress D left ahead \<Longrightarrow> in_sync D d = (st, d') \<Longrightarrow> is_St_ok st \<longrightarrow> ahead d' < ahead d"
  by (auto simp: insn_progress_def dest: spec [of _ d])

lemma event_loop_fold:
  assumes "insn_progress D left ahead"
  shows "\<exists>its st' d'. ahead d' \<le> ahead d \<and> (is_St_ok st' \<longrightarrow> left d' \<le> left d) \<and>
           (\<forall>s. event_loop D h (st, d) s = map_option (Pair (st', d')) (run_items h its s)) \<and>
           (\<forall>a. event_loop D (\<lambda>it acc. Some (acc @ [it])) (st, d) a = Some ((st', d'), a @ its))"
proof (induction "left d" arbitrary: st d rule: less_induct)
  case less
  note un = event_loop.simps [of D _ "(st, d)"]
  obtain st1 ev d1 where e: "in_event D d = (st1, ev, d1)" by (cases "in_event D d")
  note pr = progress_event [OF assms e]
  show ?case
  proof (cases "is_St_ok st \<and> event_pending st")
    case False
    then show ?thesis by (intro exI [of _ "[]"] exI [of _ st] exI [of _ d]) (auto simp: un)
  next
    case pending: True
    show ?thesis
    proof (cases "is_St_ok st1")
      case False
      then show ?thesis using pending e pr by (intro exI [of _ "[]"] exI [of _ st1] exI [of _ d1]) (simp add: un)
    next
      case True
      with pr have "left d1 < left d" by simp
      from less [OF this, of st1] obtain its st' d' where ih: "ahead d' \<le> ahead d1"
        "is_St_ok st' \<longrightarrow> left d' \<le> left d1"
        "\<forall>s. event_loop D h (st1, d1) s = map_option (Pair (st', d')) (run_items h its s)"
        "\<forall>a. event_loop D (\<lambda>it acc. Some (acc @ [it])) (st1, d1) a = Some ((st', d'), a @ its)" by blast
      have "event_loop D h (st, d) s = map_option (Pair (st', d')) (run_items h (It_event ev # its) s)" for s
        using pending e True ih(3) by (cases "h (It_event ev) s") (simp_all add: un)
      moreover have "event_loop D (\<lambda>it acc. Some (acc @ [it])) (st, d) a = Some ((st', d'), a @ It_event ev # its)" for a
        using pending e True ih(4) by (simp add: un)
      ultimately show ?thesis using ih(1,2) pr True
        by (intro exI [of _ "It_event ev # its"] exI [of _ st'] exI [of _ d']) auto
    qed
  qed
qed

text \<open>The items are those that a handler which only collects them sees.\<close>

definition collected :: "'d insn_decoder \<Rightarrow> pt_status \<times> 'd \<Rightarrow> dec_item list option" where
  "collected D sd = insn_loop D (\<lambda>it acc. Some (acc @ [it])) sd []"

lemma insn_loop_fold:
  assumes "insn_progress D left ahead"
  shows "\<exists>its. (\<forall>s. insn_loop D h (st, d) s = run_items h its s) \<and>
               (\<forall>a. insn_loop D (\<lambda>it acc. Some (acc @ [it])) (st, d) a = Some (a @ its))"
proof (induction "(ahead d, left d)" arbitrary: st d rule: wf_induct_rule [OF wf_lex_prod [OF wf_less_than wf_less_than]])
  case 1
  note un = insn_loop.simps [of D _ "(st, d)"]
  let ?c = "\<lambda>it acc. Some (acc @ [it])"
  show ?case
  proof (cases "is_St_ok st")
    case False
    then show ?thesis by (intro exI [of _ "[]"]) (simp add: un)
  next
    case ok: True
    obtain evs st1 d1 where e: "ahead d1 \<le> ahead d" "is_St_ok st1 \<longrightarrow> left d1 \<le> left d"
      "event_loop D h (st, d) s = map_option (Pair (st1, d1)) (run_items h evs s)"
      "event_loop D ?c (st, d) a = Some ((st1, d1), a @ evs)" for s a
      using event_loop_fold [OF assms, of d h st] by auto
    obtain st2 ip cl d2 where n: "in_next D d1 = (st2, (ip, cl), d2)" by (metis prod.exhaust)
    note pr = progress_next [OF assms n]
    let ?stop = "\<not> is_St_ok st1 \<or> \<not> is_St_ok st2 \<and> st_code st2 = pte_eos"
    obtain it sd3 where nx: "it = (if is_St_ok st2 then It_insn ip cl (in_time D d2) else It_err (st_code st2))"
      "sd3 = (if is_St_ok st2 then (st2, d2) else in_sync D d2)" by blast
    obtain st3 d3 where sd3: "sd3 = (st3, d3)" by (cases sd3)
    have unf: "insn_loop D k (st, d) s = Option.bind (event_loop D k (st, d) s) (\<lambda>e.
        if ?stop then Some (snd e) else Option.bind (k it (snd e)) (insn_loop D k sd3))"
      if "\<And>s. fst ` set_option (event_loop D k (st, d) s) \<subseteq> {(st1, d1)}" for k :: "dec_item \<Rightarrow> 'x \<Rightarrow> 'x option" and s
      using that [of s] ok n nx by (cases "event_loop D k (st, d) s") (auto simp: un Let_def)
    have eh: "insn_loop D h (st, d) s = Option.bind (run_items h evs s) (\<lambda>s1.
        if ?stop then Some s1 else Option.bind (h it s1) (insn_loop D h sd3))" for s
    proof -
      have "\<And>s. fst ` set_option (event_loop D h (st, d) s) \<subseteq> {(st1, d1)}" by (auto simp: e(3))
      from unf [OF this, of s] show ?thesis by (cases "run_items h evs s") (simp_all add: e(3))
    qed
    have ec: "insn_loop D ?c (st, d) a =
        (if ?stop then Some (a @ evs) else insn_loop D ?c sd3 (a @ evs @ [it]))" for a
    proof -
      have "\<And>a. fst ` set_option (event_loop D ?c (st, d) a) \<subseteq> {(st1, d1)}" by (simp add: e(4))
      from unf [OF this, of a] show ?thesis by (simp add: e(4))
    qed
    show ?thesis
    proof (cases ?stop)
      case True
      then show ?thesis using eh ec by (intro exI [of _ evs]) (auto split: bind_split)
    next
      case False
      have "\<exists>its. (\<forall>s. insn_loop D h sd3 s = run_items h its s) \<and> (\<forall>a. insn_loop D ?c sd3 a = Some (a @ its))"
      proof (cases "is_St_ok st3")
        case True
        have "((ahead d3, left d3), (ahead d, left d)) \<in> less_than <*lex*> less_than"
          using False True pr e(1,2) progress_sync [OF assms, of d2 st3 d3] sd3 nx(2) by (cases "is_St_ok st2") auto
        from 1 [OF this, of st3] show ?thesis by (simp add: sd3)
      next
        case False
        then show ?thesis
          by (intro exI [of _ "[]"]) (simp add: sd3 insn_loop.simps [of D _ "(st3, d3)"])
      qed
      then obtain its where "\<forall>s. insn_loop D h sd3 s = run_items h its s" "\<forall>a. insn_loop D ?c sd3 a = Some (a @ its)"
        by blast
      then show ?thesis using False eh ec
        by (intro exI [of _ "evs @ it # its"]) (auto simp: run_items_append cong: bind_option_cong)
    qed
  qed
qed

lemma insn_loop_collected:
  assumes "insn_progress D left ahead"
  shows "\<exists>its. collected D sd = Some its \<and> (\<forall>s. insn_loop D h sd s = run_items h its s)"
  using insn_loop_fold [OF assms, of h "fst sd" "snd sd"] by (auto simp: collected_def)

end
