(* ===== verification/Decode.thy ===== *)
theory Decode
  imports Image Callers Speedscope Insn_Loop
begin

text \<open>
  \<open>decode.c\<close>, the two decoders of instructions: \<open>decode_pt_probe\<close>, which rates a candidate buffer, and
  \<open>decode_pt_insn\<close>, which prints the instructions or feeds one of the aggregators. libipt, libelf and
  libdwarf are parameters, collected in \<open>decode_env\<close>. Standard output is a string; the counters that
  the summary on standard error prints are the fields of the final state. \<open>None\<close> as a result stands
  for undefined behaviour or a loop that does not end.
\<close>

section \<open>Environment\<close>

text \<open>
  \<open>de_alloc f\<close> is \<open>pt_insn_alloc_decoder\<close> for the configuration with \<open>mtc_freq = f\<close> (0 when it is not
  set), \<open>de_set_image\<close> is \<open>pt_insn_set_image\<close>, \<open>de_mem n\<close> tells which of the two allocations of an
  aggregator succeed at the \<open>n\<close>-th instruction, \<open>de_heap\<close> is the next address of \<open>strdup\<close>.
\<close>

record ('d, 'p) decode_env =
  de_elf :: elf_env
  de_img_alloc :: bool
  de_add :: add_result
  de_dwarf :: dwarf_env
  de_heap :: nat
  de_mem :: "nat \<Rightarrow> bool \<times> bool"
  de_ct_alloc :: bool
  de_insn :: "'d insn_decoder"
  de_alloc :: "u8 \<Rightarrow> 'd option"
  de_set_image :: "image_seg list \<Rightarrow> 'd \<Rightarrow> 'd option"
  de_pkt :: "'p pkt_decoder"
  de_pkt_alloc :: "'p option"

section \<open>Rating a buffer\<close>

definition path_basename :: "string \<Rightarrow> string" where
  "path_basename path =
     (case strrchr_rest (CHR ''/'') path of
        None \<Rightarrow> path
      | Some r \<Rightarrow> if r \<noteq> [] then r else path)"

fun exec_bins_loop :: "nat \<Rightarrow> string list \<Rightarrow> pt_image_info list \<Rightarrow> string list" where
  "exec_bins_loop maxbins bins [] = bins"
| "exec_bins_loop maxbins bins (s # ss) =
     (if \<not> length bins < maxbins then bins
      else if pi_type s \<noteq> HWT_RECORD_EXECUTABLE then exec_bins_loop maxbins bins ss
      else if pi_path s = [] then exec_bins_loop maxbins bins ss
      else if path_basename (pi_path s) \<in> set bins then exec_bins_loop maxbins bins ss
      else exec_bins_loop maxbins (bins @ [strlcpy 64 (path_basename (pi_path s))]) ss)"

definition collect_exec_binaries :: "pt_image_info list \<Rightarrow> nat \<Rightarrow> string list" where
  "collect_exec_binaries sections maxbins = exec_bins_loop maxbins [] sections"

definition is_exec_binary :: "string option \<Rightarrow> string list \<Rightarrow> bool" where
  "is_exec_binary binary bins =
     (case binary of None \<Rightarrow> False | Some b \<Rightarrow> if b = [] then False else list_ex (\<lambda>x. x = b) bins)"

record decode_probe_result =
  pr_total :: nat
  pr_exec_hits :: nat

definition probe_zero :: decode_probe_result where
  "probe_zero = \<lparr>pr_total = 0, pr_exec_hits = 0\<rparr>"

definition probe_hit :: "sym_table \<Rightarrow> bin_range list \<Rightarrow> string list \<Rightarrow> u64 \<Rightarrow> bool" where
  "probe_hit st ranges bins ip =
     (case sym_table_lookup st ip of
        Some sy \<Rightarrow> is_exec_binary (Some (text_of (sy_binary sy))) bins
      | None \<Rightarrow> is_exec_binary (map_option fst (find_binary_for_ip ranges ip)) bins)"

fun probe_item :: "sym_table \<Rightarrow> bin_range list \<Rightarrow> string list \<Rightarrow> dec_item \<Rightarrow> decode_probe_result \<Rightarrow> decode_probe_result option" where
  "probe_item st ranges bins (It_insn ip cl tm) p =
     Some (p\<lparr>pr_total := pr_total p + 1,
             pr_exec_hits := (if probe_hit st ranges bins ip then pr_exec_hits p + 1 else pr_exec_hits p)\<rparr>)"
| "probe_item st ranges bins other p = Some p"

definition decode_pt_probe ::
  "('d, 'p) decode_env \<Rightarrow> bool \<Rightarrow> nat \<Rightarrow> pt_image_info list \<Rightarrow> (int \<times> decode_probe_result) option" where
  "decode_pt_probe E buf_null len sections =
     (if buf_null \<or> len = 0 \<or> sections = [] then Some (- 1, probe_zero)
      else (case build_pt_image (de_elf E) (de_img_alloc E) (de_add E) sections (sym_table_init (de_heap E)) of
              (None, st) \<Rightarrow> Some (- 1, probe_zero)
            | (Some img, st) \<Rightarrow>
                let bins = collect_exec_binaries sections 16;
                    ranges = build_bin_ranges (de_elf E) sections MAX_BIN_RANGES
                in (case de_alloc E 0 of
                      None \<Rightarrow> Some (- 1, probe_zero)
                    | Some d0 \<Rightarrow>
                        (case de_set_image E img d0 of
                           None \<Rightarrow> Some (- 1, probe_zero)
                         | Some d \<Rightarrow>
                             do { p \<leftarrow> insn_loop (de_insn E) (probe_item st ranges bins) (in_sync (de_insn E) d) probe_zero;
                                  Some (if pr_total p > 0 then 0 else - 1, p) }))))"

section \<open>Printing an instruction\<close>

text \<open>Where an instruction lies: in a symbol, in a binary without symbols, or nowhere known.\<close>

definition SYSCALL_PREFIX :: string where "SYSCALL_PREFIX = ''__sys_''"

definition syscall_name :: "pt_insn_class \<Rightarrow> sym_entry option \<Rightarrow> string option" where
  "syscall_name iclass sy =
     (case sy of
        None \<Rightarrow> None
      | Some s \<Rightarrow>
          if iclass = ptic_far_call \<and> take (length SYSCALL_PREFIX) (text_of (sy_name s)) = SYSCALL_PREFIX
          then Some (drop (length SYSCALL_PREFIX) (text_of (sy_name s))) else None)"

definition emit_insn_json ::
  "string \<Rightarrow> u64 \<Rightarrow> sym_entry option \<Rightarrow> (string \<times> u64) option \<Rightarrow> string option \<Rightarrow> u64 \<Rightarrow> int \<Rightarrow> string" where
  \<open>emit_insn_json label ip sy bn sysc tsc tid =
     (case sy of
        Some s \<Rightarrow>
          ''{"insn":"'' @ label @ ''","ip":"0x'' @ fmt_lx ip @ ''","sym":"'' @ json_escape 256 (text_of (sy_name s)) @
          ''","off":'' @ fmt_lu (ip - sy_addr s) @ '',"bin":"'' @ json_escape 256 (text_of (sy_binary s)) @ ''"'' @
          (case sysc of Some n \<Rightarrow> '',"syscall":"'' @ json_escape 256 n @ ''"'' | None \<Rightarrow> [])
      | None \<Rightarrow>
          (case bn of
             Some (b, boff) \<Rightarrow>
               ''{"insn":"'' @ label @ ''","ip":"0x'' @ fmt_lx ip @ ''","off":'' @ fmt_lu boff @
               '',"bin":"'' @ json_escape 256 b @ ''"''
           | None \<Rightarrow> ''{"insn":"'' @ label @ ''","ip":"0x'' @ fmt_lx ip @ ''"'')) @
     (if tsc > 0 then '',"tsc":'' @ fmt_lu tsc else []) @
     (if tid \<ge> 0 then '',"tid":'' @ fmt_d tid else []) @ ''}'' @ nl\<close>

definition emit_insn_text ::
  "string \<Rightarrow> u64 \<Rightarrow> sym_entry option \<Rightarrow> (string \<times> u64) option \<Rightarrow> string option \<Rightarrow> string" where
  "emit_insn_text label ip sy bn sysc =
     ''  '' @ ljust 9 label @ '' '' @
     (case sy of
        Some s \<Rightarrow>
          let off = ip - sy_addr s;
              place = text_of (sy_binary s) @ '':'' @ text_of (sy_name s) @ (if off = 0 then [] else ''+0x'' @ fmt_lx off)
          in (case sysc of Some n \<Rightarrow> n @ '' ('' @ place @ '')'' | None \<Rightarrow> place)
      | None \<Rightarrow>
          (case bn of
             Some (b, boff) \<Rightarrow> b @ ''+0x'' @ fmt_lx boff
           | None \<Rightarrow> ''0x'' @ hex16 ip)) @ nl"

section \<open>Decoding instructions\<close>

record insn_state =
  is_total :: nat
  is_calls :: nat
  is_branches :: nat
  is_returns :: nat
  is_syscalls :: nat
  is_nomaps :: nat
  is_errors :: nat
  is_ovf :: nat
  is_lost_mtc :: u32
  is_lost_cyc :: u32
  is_prof :: "profile \<times> dwarf_state"
  is_ct :: calltree
  is_col :: collapsed
  is_out :: string

definition insn_state_init :: "calltree \<Rightarrow> insn_state" where
  "insn_state_init ct =
     \<lparr>is_total = 0, is_calls = 0, is_branches = 0, is_returns = 0, is_syscalls = 0, is_nomaps = 0, is_errors = 0,
      is_ovf = 0, is_lost_mtc = 0, is_lost_cyc = 0, is_prof = (profile_init, dwarf_state_init), is_ct = ct,
      is_col = collapsed_init, is_out = []\<rparr>"

definition decode_event :: "bsdtrace_fmt \<Rightarrow> pt_event \<Rightarrow> insn_state \<Rightarrow> insn_state" where
  \<open>decode_event fmt ev s =
     (case ev of
        ptev_overflow \<Rightarrow> s\<lparr>is_ovf := is_ovf s + 1\<rparr>
      | ptev_ptwrite payload ip \<Rightarrow>
          s\<lparr>is_out := is_out s @
             (if fmt = FMT_JSON then ''{"ptwrite":"0x'' @ fmt_lx payload @ ''","ip":"0x'' @ fmt_lx ip @ ''"}'' @ nl
              else if fmt = FMT_TEXT then ''  PTWRITE   0x'' @ hex16 payload @ ''  ip=0x'' @ fmt_lx ip @ nl
              else [])\<rparr>
      | ptev_other \<Rightarrow> s)\<close>

definition decode_err :: "pt_errcode \<Rightarrow> insn_state \<Rightarrow> insn_state" where
  "decode_err e s = (if e = pte_nomap then s\<lparr>is_nomaps := is_nomaps s + 1\<rparr> else s\<lparr>is_errors := is_errors s + 1\<rparr>)"

definition count_class :: "pt_insn_class \<Rightarrow> insn_state \<Rightarrow> insn_state" where
  "count_class c s =
     (case c of
        ptic_call \<Rightarrow> s\<lparr>is_calls := is_calls s + 1\<rparr>
      | ptic_jump \<Rightarrow> s\<lparr>is_branches := is_branches s + 1\<rparr>
      | ptic_cond_jump \<Rightarrow> s\<lparr>is_branches := is_branches s + 1\<rparr>
      | ptic_return \<Rightarrow> s\<lparr>is_returns := is_returns s + 1\<rparr>
      | ptic_far_call \<Rightarrow> s\<lparr>is_syscalls := is_syscalls s + 1\<rparr>
      | _ \<Rightarrow> s)"

definition is_aggregate :: "bsdtrace_fmt \<Rightarrow> bool" where
  "is_aggregate fmt \<longleftrightarrow>
     fmt = FMT_PROFILE \<or> fmt = FMT_TREE \<or> fmt = FMT_COLLAPSED \<or> fmt = FMT_SPEEDSCOPE \<or> fmt = FMT_CALLERS"

definition insn_event_of :: "sym_table \<Rightarrow> u64 \<Rightarrow> pt_insn_class \<Rightarrow> u64 \<Rightarrow> insn_event" where
  "insn_event_of st ip cl tsc = \<lparr>ie_sym = sym_table_lookup st ip, ie_ip = ip, ie_class = cl, ie_tsc = tsc\<rparr>"

text \<open>The three aggregators.\<close>

definition aggregate_insn ::
  "('d, 'p) decode_env \<Rightarrow> bsdtrace_fmt \<Rightarrow> pt_image_info list \<Rightarrow> bool \<times> bool \<Rightarrow> insn_event \<Rightarrow> insn_state \<Rightarrow> insn_state option" where
  "aggregate_insn E fmt sections m ev s =
     (if fmt = FMT_PROFILE
      then Some (s\<lparr>is_prof := profile_record (fst m) (snd m) (de_dwarf E) (Some sections) (is_prof s) ev\<rparr>)
      else if fmt = FMT_TREE \<or> fmt = FMT_CALLERS
      then map_option (\<lambda>ct. s\<lparr>is_ct := ct\<rparr>) (calltree_record (fst m) (snd m) (is_ct s) ev)
      else map_option (\<lambda>col. s\<lparr>is_col := col\<rparr>) (collapsed_record (fst m) (snd m) (is_col s) ev))"

text \<open>The line of an instruction in the text and JSON formats; empty when it is not shown.\<close>

definition insn_line ::
  "bsdtrace_fmt \<Rightarrow> pt_decode_opts option \<Rightarrow> int \<Rightarrow> sym_table \<Rightarrow> bin_range list \<Rightarrow> u64 \<Rightarrow> pt_insn_class \<Rightarrow> u64 \<Rightarrow> string" where
  "insn_line fmt opts tid st ranges ip cl tsc =
     (case insn_class_str cl of
        None \<Rightarrow> []
      | Some label \<Rightarrow>
          let sy = sym_table_lookup st ip
          in if \<not> filter_matches opts (map_option (\<lambda>s. text_of (sy_name s)) sy) then []
             else let bn = (if sy = None then find_binary_for_ip ranges ip else None);
                      sysc = syscall_name cl sy
                  in if fmt = FMT_JSON then emit_insn_json label ip sy bn sysc tsc tid
                     else emit_insn_text label ip sy bn sysc)"

definition decode_insn ::
  "('d, 'p) decode_env \<Rightarrow> bsdtrace_fmt \<Rightarrow> pt_decode_opts option \<Rightarrow> int \<Rightarrow> pt_image_info list \<Rightarrow> sym_table \<Rightarrow>
   bin_range list \<Rightarrow> u64 \<Rightarrow> pt_insn_class \<Rightarrow> u64 \<times> u32 \<times> u32 \<Rightarrow> insn_state \<Rightarrow> insn_state option" where
  "decode_insn E fmt opts tid sections st ranges ip cl tm s =
     (case tm of (tsc, lost_mtc, lost_cyc) \<Rightarrow>
        let s1 = count_class cl (s\<lparr>is_lost_mtc := is_lost_mtc s + lost_mtc, is_lost_cyc := is_lost_cyc s + lost_cyc,
                                   is_total := is_total s + 1\<rparr>)
        in if is_aggregate fmt
           then aggregate_insn E fmt sections (de_mem E (is_total s)) (insn_event_of st ip cl tsc) s1
           else Some (s1\<lparr>is_out := is_out s1 @ insn_line fmt opts tid st ranges ip cl tsc\<rparr>))"

fun decode_item ::
  "('d, 'p) decode_env \<Rightarrow> bsdtrace_fmt \<Rightarrow> pt_decode_opts option \<Rightarrow> int \<Rightarrow> pt_image_info list \<Rightarrow> sym_table \<Rightarrow>
   bin_range list \<Rightarrow> dec_item \<Rightarrow> insn_state \<Rightarrow> insn_state option" where
  "decode_item E fmt opts tid sections st ranges (It_event ev) s = Some (decode_event fmt ev s)"
| "decode_item E fmt opts tid sections st ranges (It_err e) s = Some (decode_err e s)"
| "decode_item E fmt opts tid sections st ranges (It_insn ip cl tm) s =
     decode_insn E fmt opts tid sections st ranges ip cl tm s"

text \<open>The report behind the loop.\<close>

definition thread_head :: "int \<Rightarrow> string" where
  "thread_head tid = (if tid \<ge> 0 then ''Thread '' @ fmt_d tid @ '':'' @ nl else [])"

definition decode_report :: "bsdtrace_fmt \<Rightarrow> pt_decode_opts option \<Rightarrow> int \<Rightarrow> insn_state \<Rightarrow> string option" where
  "decode_report fmt opts tid s =
     (case fmt of
        FMT_PROFILE \<Rightarrow> Some (thread_head tid @ profile_print (fst (is_prof s)) opts)
      | FMT_TREE \<Rightarrow> map_option (\<lambda>t. thread_head tid @ t) (calltree_print (is_ct s))
      | FMT_COLLAPSED \<Rightarrow> Some (collapsed_print (is_col s) opts)
      | FMT_SPEEDSCOPE \<Rightarrow> Some (speedscope_print (is_col s))
      | FMT_CALLERS \<Rightarrow> map_option (\<lambda>t. thread_head tid @ t) (callers_print (is_ct s) opts)
      | _ \<Rightarrow> Some [])"

text \<open>The frees before the return.\<close>

definition decode_cleanup :: "insn_state \<Rightarrow> insn_state option" where
  "decode_cleanup s =
     map_option (\<lambda>ct. s\<lparr>is_col := collapsed_free (is_col s), is_ct := ct,
         is_prof := (profile_free (fst (is_prof s)), dwarf_cache_close_all (snd (is_prof s)))\<rparr>)
       (calltree_free (is_ct s))"

text \<open>
  The result: the return value, standard output, and the locals as they are when the function
  returns (\<open>None\<close> when they have not been initialised, or when packets were decoded instead, whose
  counters are not those of the locals).
\<close>

record decode_result =
  dr_rc :: int
  dr_out :: string
  dr_locals :: "insn_state option"

definition packet_result :: "insn_state option \<Rightarrow> int \<times> pkt_summary \<Rightarrow> decode_result" where
  "packet_result loc r = \<lparr>dr_rc = fst r, dr_out = ps_out (snd r), dr_locals = loc\<rparr>"

definition opt_tid :: "pt_decode_opts option \<Rightarrow> int" where
  "opt_tid opts = (case opts of Some q \<Rightarrow> do_tid q | None \<Rightarrow> - 1)"

definition opt_mtc :: "pt_decode_opts option \<Rightarrow> u8" where
  "opt_mtc opts = (case opts of Some q \<Rightarrow> do_mtc_freq q | None \<Rightarrow> 0)"

definition decode_pt_insn ::
  "('d, 'p) decode_env \<Rightarrow> bool \<Rightarrow> nat \<Rightarrow> pt_image_info list \<Rightarrow> bsdtrace_fmt \<Rightarrow> pt_decode_opts option \<Rightarrow> decode_result option" where
  "decode_pt_insn E buf_null len sections fmt opts =
     (if buf_null \<or> len = 0 then Some \<lparr>dr_rc = - 1, dr_out = [], dr_locals = None\<rparr>
      else if sections = []
      then (if fmt = FMT_TEXT \<or> fmt = FMT_JSON
            then map_option (packet_result None) (decode_pt_buffer (de_pkt E) (de_pkt_alloc E) buf_null len fmt)
            else Some \<lparr>dr_rc = - 1, dr_out = [], dr_locals = None\<rparr>)
      else do {
        ct \<leftarrow> calltree_init (de_ct_alloc E);
        let s0 = insn_state_init ct;
        (case build_pt_image (de_elf E) (de_img_alloc E) (de_add E) sections (sym_table_init (de_heap E)) of
           (None, st) \<Rightarrow> map_option (packet_result (Some s0)) (decode_pt_buffer (de_pkt E) (de_pkt_alloc E) buf_null len fmt)
         | (Some img, st) \<Rightarrow>
             (let ranges = build_bin_ranges (de_elf E) sections MAX_BIN_RANGES;
                  tid = opt_tid opts
              in (case Option.bind (de_alloc E (opt_mtc opts)) (de_set_image E img) of
                    None \<Rightarrow> Some \<lparr>dr_rc = - 1, dr_out = [], dr_locals = Some s0\<rparr>
                  | Some d \<Rightarrow> do {
                      s1 \<leftarrow> insn_loop (de_insn E) (decode_item E fmt opts tid sections st ranges) (in_sync (de_insn E) d) s0;
                      rep \<leftarrow> decode_report fmt opts tid s1;
                      s2 \<leftarrow> decode_cleanup s1;
                      Some \<lparr>dr_rc = (if is_total s2 > 0 then 0 else - 1), dr_out = is_out s2 @ rep, dr_locals = Some s2\<rparr> })))
      })"

end
