(* ===== verification/Decode_Props.thy ===== *)
theory Decode_Props
  imports Decode
begin

text \<open>
  What the instruction decoder does with the items libipt delivers: the counters, the lines of the
  text and JSON formats, the aggregators as folds over the symbolised stream, the rating of a buffer,
  and the release of every resource.
\<close>

section \<open>The stream\<close>

text \<open>The instructions among the items, and what they look like to the aggregators.\<close>

fun insns :: "dec_item list \<Rightarrow> (u64 \<times> pt_insn_class \<times> u64) list" where
  "insns [] = []"
| "insns (It_insn ip cl tm # its) = (ip, cl, fst tm) # insns its"
| "insns (It_event ev # its) = insns its"
| "insns (It_err e # its) = insns its"

definition stream_events :: "sym_table \<Rightarrow> dec_item list \<Rightarrow> insn_event list" where
  "stream_events st its = map (\<lambda>(ip, cl, tsc). insn_event_of st ip cl tsc) (insns its)"

definition count_insns :: "(pt_insn_class \<Rightarrow> bool) \<Rightarrow> dec_item list \<Rightarrow> nat" where
  "count_insns P its = length (filter (\<lambda>(ip, cl, tsc). P cl) (insns its))"

definition count_items :: "(dec_item \<Rightarrow> bool) \<Rightarrow> dec_item list \<Rightarrow> nat" where
  "count_items P its = length (filter P its)"

lemma stream_simps [simp]:
  "stream_events st [] = []"
  "stream_events st (It_insn ip cl tm # its) = insn_event_of st ip cl (fst tm) # stream_events st its"
  "stream_events st (It_event ev # its) = stream_events st its"
  "stream_events st (It_err e # its) = stream_events st its"
  "count_insns P [] = 0"
  "count_insns P (It_insn ip cl tm # its) = (if P cl then Suc (count_insns P its) else count_insns P its)"
  "count_insns P (It_event ev # its) = count_insns P its"
  "count_insns P (It_err e # its) = count_insns P its"
  "count_items Q [] = 0"
  "count_items Q (it # its) = (if Q it then Suc (count_items Q its) else count_items Q its)"
  by (simp_all add: stream_events_def count_insns_def count_items_def)

section \<open>Counters\<close>

lemma count_class_fields [simp]:
  "is_total (count_class c s) = is_total s" "is_nomaps (count_class c s) = is_nomaps s"
  "is_errors (count_class c s) = is_errors s" "is_ovf (count_class c s) = is_ovf s"
  "is_prof (count_class c s) = is_prof s" "is_ct (count_class c s) = is_ct s"
  "is_col (count_class c s) = is_col s" "is_out (count_class c s) = is_out s"
  "is_calls (count_class c s) = is_calls s + (if c = ptic_call then 1 else 0)"
  "is_branches (count_class c s) = is_branches s + (if c = ptic_jump \<or> c = ptic_cond_jump then 1 else 0)"
  "is_returns (count_class c s) = is_returns s + (if c = ptic_return then 1 else 0)"
  "is_syscalls (count_class c s) = is_syscalls s + (if c = ptic_far_call then 1 else 0)"
  by (simp_all add: count_class_def split: pt_insn_class.split)

definition counters :: "insn_state \<Rightarrow> nat list" where
  "counters s = [is_total s, is_calls s, is_branches s, is_returns s, is_syscalls s, is_nomaps s, is_errors s, is_ovf s]"

definition item_counts :: "dec_item list \<Rightarrow> nat list" where
  "item_counts its =
     [length (insns its), count_insns (\<lambda>c. c = ptic_call) its, count_insns (\<lambda>c. c = ptic_jump \<or> c = ptic_cond_jump) its,
      count_insns (\<lambda>c. c = ptic_return) its, count_insns (\<lambda>c. c = ptic_far_call) its,
      count_items (\<lambda>it. it = It_err pte_nomap) its, count_items (\<lambda>it. \<exists>e. it = It_err e \<and> e \<noteq> pte_nomap) its,
      count_items (\<lambda>it. it = It_event ptev_overflow) its]"

lemma aggregate_counters: "aggregate_insn E fmt secs m ev s = Some s' \<Longrightarrow> counters s' = counters s \<and> is_out s' = is_out s"
  by (auto simp: aggregate_insn_def counters_def split: if_splits)

lemma run_counters:
  "run_items (decode_item E fmt opts tid secs st rs) its s = Some s' \<Longrightarrow>
   counters s' = map2 (+) (counters s) (item_counts its)"
proof (induction its arbitrary: s)
  case Nil
  then show ?case by (simp add: counters_def item_counts_def)
next
  case (Cons it its)
  then obtain s1 where s1: "decode_item E fmt opts tid secs st rs it s = Some s1"
    "run_items (decode_item E fmt opts tid secs st rs) its s1 = Some s'" by (auto simp: bind_eq_Some_conv)
  note ih = Cons.IH [OF s1(2)]
  show ?case
  proof (cases it)
    case (It_event ev)
    with s1(1) ih show ?thesis by (auto simp: decode_event_def counters_def item_counts_def split: pt_event.splits)
  next
    case (It_err e)
    with s1(1) ih show ?thesis by (auto simp: decode_err_def counters_def item_counts_def split: if_splits)
  next
    case (It_insn ip cl tm)
    obtain tsc lm lc where tm: "tm = (tsc, lm, lc)" by (cases tm)
    define s0 where "s0 = count_class cl (s\<lparr>is_lost_mtc := is_lost_mtc s + lm, is_lost_cyc := is_lost_cyc s + lc,
                                   is_total := is_total s + 1\<rparr>)"
    have "counters s1 = counters s0"
    proof (cases "is_aggregate fmt")
      case True
      with s1(1) have "aggregate_insn E fmt secs (de_mem E (is_total s)) (insn_event_of st ip cl tsc) s0 = Some s1"
        by (simp add: It_insn tm decode_insn_def Let_def s0_def)
      then show ?thesis by (simp add: aggregate_counters)
    next
      case False
      with s1(1) have "s1 = s0\<lparr>is_out := is_out s0 @ insn_line fmt opts tid st rs ip cl tsc\<rparr>"
        by (simp add: It_insn tm decode_insn_def Let_def s0_def)
      then show ?thesis by (simp add: counters_def)
    qed
    then have "counters s1 = counters (count_class cl (s\<lparr>is_total := is_total s + 1\<rparr>))"
      by (simp add: s0_def counters_def)
    with ih show ?thesis by (simp add: It_insn counters_def item_counts_def)
  qed
qed

section \<open>Lines\<close>

fun item_line ::
  "bsdtrace_fmt \<Rightarrow> pt_decode_opts option \<Rightarrow> int \<Rightarrow> sym_table \<Rightarrow> bin_range list \<Rightarrow> dec_item \<Rightarrow> string" where
  "item_line fmt opts tid st rs (It_insn ip cl tm) = insn_line fmt opts tid st rs ip cl (fst tm)"
| "item_line fmt opts tid st rs (It_err e) = []"
| \<open>item_line fmt opts tid st rs (It_event ev) =
     (case ev of
        ptev_ptwrite payload ip \<Rightarrow>
          if fmt = FMT_JSON then ''{"ptwrite":"0x'' @ fmt_lx payload @ ''","ip":"0x'' @ fmt_lx ip @ ''"}'' @ nl
          else ''  PTWRITE   0x'' @ hex16 payload @ ''  ip=0x'' @ fmt_lx ip @ nl
      | _ \<Rightarrow> [])\<close>

lemma text_run:
  assumes "fmt = FMT_TEXT \<or> fmt = FMT_JSON"
  shows "\<exists>s'. run_items (decode_item E fmt opts tid secs st rs) its s = Some s' \<and>
           is_out s' = is_out s @ concat (map (item_line fmt opts tid st rs) its) \<and>
           is_ct s' = is_ct s \<and> is_prof s' = is_prof s"
proof (induction its arbitrary: s)
  case (Cons it its)
  have "\<exists>s1. decode_item E fmt opts tid secs st rs it s = Some s1 \<and>
      is_out s1 = is_out s @ item_line fmt opts tid st rs it \<and> is_ct s1 = is_ct s \<and> is_prof s1 = is_prof s"
  proof (cases it)
    case (It_insn ip cl tm)
    then show ?thesis using assms by (cases tm) (auto simp: decode_insn_def is_aggregate_def Let_def)
  next
    case (It_event ev)
    then show ?thesis using assms by (auto simp: decode_event_def split: pt_event.splits)
  next
    case (It_err e)
    then show ?thesis by (simp add: decode_err_def)
  qed
  then obtain s1 where s1: "decode_item E fmt opts tid secs st rs it s = Some s1"
    "is_out s1 = is_out s @ item_line fmt opts tid st rs it" "is_ct s1 = is_ct s" "is_prof s1 = is_prof s" by blast
  from Cons.IH [of s1] s1 show ?case by auto
qed simp

section \<open>Aggregators\<close>

fun mem_events :: "(nat \<Rightarrow> bool \<times> bool) \<Rightarrow> nat \<Rightarrow> insn_event list \<Rightarrow> (bool \<times> bool \<times> insn_event) list" where
  "mem_events mem n [] = []"
| "mem_events mem n (e # es) = (fst (mem n), snd (mem n), e) # mem_events mem (Suc n) es"

lemma mem_events_ok: "(\<And>n. mem n = (True, True)) \<Longrightarrow> mem_events mem n es = map (\<lambda>e. (True, True, e)) es"
  by (induction es arbitrary: n) auto

lemma quiet_item:
  assumes "is_aggregate fmt" "\<not> (\<exists>ip cl tm. it = It_insn ip cl tm)"
  obtains s1 where "decode_item E fmt opts tid secs st rs it s = Some s1" "is_out s1 = is_out s"
    "is_ct s1 = is_ct s" "is_prof s1 = is_prof s" "is_total s1 = is_total s" "stream_events st (it # its) = stream_events st its"
  using assms
  by (cases it) (auto simp: decode_event_def decode_err_def is_aggregate_def split: pt_event.splits)

lemma insn_item:
  assumes "is_aggregate fmt"
  obtains s0 where "is_out s0 = is_out s" "is_ct s0 = is_ct s" "is_prof s0 = is_prof s" "is_total s0 = Suc (is_total s)"
    "decode_item E fmt opts tid secs st rs (It_insn ip cl tm) s =
     aggregate_insn E fmt secs (de_mem E (is_total s)) (insn_event_of st ip cl (fst tm)) s0"
proof -
  obtain tsc lm lc where tm: "tm = (tsc, lm, lc)" by (cases tm)
  define s0 where "s0 = count_class cl (s\<lparr>is_lost_mtc := is_lost_mtc s + lm, is_lost_cyc := is_lost_cyc s + lc,
                                   is_total := is_total s + 1\<rparr>)"
  show thesis by (rule that [of s0]) (use assms in \<open>simp_all add: s0_def tm decode_insn_def Let_def\<close>)
qed

lemma tree_run:
  assumes "fmt = FMT_TREE \<or> fmt = FMT_CALLERS"
  shows "calltree_run (is_ct s) (mem_events (de_mem E) (is_total s) (stream_events st its)) = Some ct' \<Longrightarrow>
    \<exists>s'. run_items (decode_item E fmt opts tid secs st rs) its s = Some s' \<and> is_ct s' = ct' \<and>
         is_out s' = is_out s \<and> is_prof s' = is_prof s"
proof (induction its arbitrary: s)
  case (Cons it its)
  have agg: "is_aggregate fmt" using assms by (auto simp: is_aggregate_def)
  have "\<exists>s1. decode_item E fmt opts tid secs st rs it s = Some s1 \<and>
      calltree_run (is_ct s1) (mem_events (de_mem E) (is_total s1) (stream_events st its)) = Some ct' \<and>
      is_out s1 = is_out s \<and> is_prof s1 = is_prof s"
  proof (cases "\<exists>ip cl tm. it = It_insn ip cl tm")
    case True
    then obtain ip cl tm where it: "it = It_insn ip cl tm" by blast
    obtain s0 where s0: "is_out s0 = is_out s" "is_ct s0 = is_ct s" "is_prof s0 = is_prof s" "is_total s0 = Suc (is_total s)"
      "decode_item E fmt opts tid secs st rs it s =
       aggregate_insn E fmt secs (de_mem E (is_total s)) (insn_event_of st ip cl (fst tm)) s0"
      unfolding it by (rule insn_item [OF agg])
    from Cons.prems obtain ct1 where
      "calltree_record (fst (de_mem E (is_total s))) (snd (de_mem E (is_total s))) (is_ct s) (insn_event_of st ip cl (fst tm)) = Some ct1"
      "calltree_run ct1 (mem_events (de_mem E) (Suc (is_total s)) (stream_events st its)) = Some ct'"
      by (auto simp: it bind_eq_Some_conv)
    then show ?thesis using assms s0 by (intro exI [of _ "s0\<lparr>is_ct := ct1\<rparr>"]) (auto simp: aggregate_insn_def)
  next
    case False
    then obtain s1 where "decode_item E fmt opts tid secs st rs it s = Some s1" "is_out s1 = is_out s"
      "is_ct s1 = is_ct s" "is_prof s1 = is_prof s" "is_total s1 = is_total s"
      "stream_events st (it # its) = stream_events st its" by (rule quiet_item [OF agg])
    then show ?thesis using Cons.prems by auto
  qed
  then show ?case using Cons.IH by fastforce
qed simp

lemma profile_run_items:
  "\<exists>s'. run_items (decode_item E FMT_PROFILE opts tid secs st rs) its s = Some s' \<and> is_ct s' = is_ct s \<and>
        is_out s' = is_out s \<and>
        is_prof s' = foldl (\<lambda>p (m, d, e). profile_record m d (de_dwarf E) (Some secs) p e) (is_prof s)
          (mem_events (de_mem E) (is_total s) (stream_events st its))"
proof (induction its arbitrary: s)
  case (Cons it its)
  have agg: "is_aggregate FMT_PROFILE" by (auto simp: is_aggregate_def)
  let ?f = "foldl (\<lambda>p (m, d, e). profile_record m d (de_dwarf E) (Some secs) p e)"
  have "\<exists>s1. decode_item E FMT_PROFILE opts tid secs st rs it s = Some s1 \<and> is_ct s1 = is_ct s \<and> is_out s1 = is_out s \<and>
      ?f (is_prof s) (mem_events (de_mem E) (is_total s) (stream_events st (it # its))) =
      ?f (is_prof s1) (mem_events (de_mem E) (is_total s1) (stream_events st its))"
  proof (cases "\<exists>ip cl tm. it = It_insn ip cl tm")
    case True
    then obtain ip cl tm where it: "it = It_insn ip cl tm" by blast
    obtain s0 where "is_out s0 = is_out s" "is_ct s0 = is_ct s" "is_prof s0 = is_prof s" "is_total s0 = Suc (is_total s)"
      "decode_item E FMT_PROFILE opts tid secs st rs it s =
       aggregate_insn E FMT_PROFILE secs (de_mem E (is_total s)) (insn_event_of st ip cl (fst tm)) s0"
      unfolding it by (rule insn_item [OF agg])
    then show ?thesis by (auto simp: aggregate_insn_def it)
  next
    case False
    then obtain s1 where "decode_item E FMT_PROFILE opts tid secs st rs it s = Some s1" "is_out s1 = is_out s"
      "is_ct s1 = is_ct s" "is_prof s1 = is_prof s" "is_total s1 = is_total s"
      "stream_events st (it # its) = stream_events st its" by (rule quiet_item [OF agg])
    then show ?thesis by auto
  qed
  then show ?case using Cons.IH by fastforce
qed simp

section \<open>The whole call\<close>

lemma decode_unfold:
  assumes "0 < len" "sections \<noteq> []" "calltree_init (de_ct_alloc E) = Some ct"
    and "build_pt_image (de_elf E) (de_img_alloc E) (de_add E) sections (sym_table_init (de_heap E)) = (Some img, st)"
    and "Option.bind (de_alloc E (opt_mtc opts)) (de_set_image E img) = Some d"
    and "run_items (decode_item E fmt opts (opt_tid opts) sections st
          (build_bin_ranges (de_elf E) sections MAX_BIN_RANGES)) its (insn_state_init ct) = Some s1"
    and "insn_loop (de_insn E) (decode_item E fmt opts (opt_tid opts) sections st
          (build_bin_ranges (de_elf E) sections MAX_BIN_RANGES)) (in_sync (de_insn E) d) (insn_state_init ct) =
         run_items (decode_item E fmt opts (opt_tid opts) sections st
          (build_bin_ranges (de_elf E) sections MAX_BIN_RANGES)) its (insn_state_init ct)"
    and "decode_report fmt opts (opt_tid opts) s1 = Some rep" "decode_cleanup s1 = Some s2"
  shows "decode_pt_insn E False len sections fmt opts =
    Some \<lparr>dr_rc = (if is_total s2 > 0 then 0 else - 1), dr_out = is_out s2 @ rep, dr_locals = Some s2\<rparr>"
  using assms by (simp add: decode_pt_insn_def Let_def)

lemma cache_open_inv:
  "dwarf_cache_open env ds p sl = (x, ds') \<Longrightarrow> dwarf_inv ds \<Longrightarrow> fds_valid env \<Longrightarrow> dwarf_inv ds'"
  using dwarf_inv_open [of ds env p sl] by simp

lemma profile_dwarf_inv:
  "fds_valid dw \<Longrightarrow> dwarf_inv (snd p) \<Longrightarrow> dwarf_inv (snd (profile_record m d dw secs p e))"
  by (cases p) (auto simp: profile_record_def profile_source_def Let_def cache_open_inv
      split: option.splits prod.splits)

lemma profile_fold_inv:
  "fds_valid dw \<Longrightarrow> dwarf_inv (snd p) \<Longrightarrow>
   dwarf_inv (snd (foldl (\<lambda>p (m, d, e). profile_record m d dw secs p e) p evs))"
proof (induction evs arbitrary: p)
  case (Cons e evs)
  then show ?case using profile_dwarf_inv by (cases e) simp
qed simp

lemma decode_run_ok:
  assumes "fmt \<noteq> FMT_COLLAPSED" "fmt \<noteq> FMT_SPEEDSCOPE" "calltree_init True = Some ct" "fds_valid (de_dwarf E)"
  shows "\<exists>s1 rep a. run_items (decode_item E fmt opts tid secs st rs) its (insn_state_init ct) = Some s1 \<and>
           decode_report fmt opts tid s1 = Some rep \<and> sim (is_ct s1) a \<and> dwarf_inv (snd (is_prof s1)) \<and>
           (fmt = FMT_TEXT \<or> fmt = FMT_JSON \<longrightarrow>
              is_out s1 @ rep = concat (map (item_line fmt opts tid st rs) its))"
proof -
  let ?s = "insn_state_init ct"
  have f: "is_ct ?s = ct" "is_total ?s = 0" "is_out ?s = []" "is_prof ?s = (profile_init, dwarf_state_init)"
    by (simp_all add: insn_state_init_def)
  note i = init_sim [OF assms(3)]
  consider "fmt = FMT_TEXT \<or> fmt = FMT_JSON" | "fmt = FMT_PROFILE" | "fmt = FMT_TREE \<or> fmt = FMT_CALLERS"
    using assms(1,2) by (cases fmt) auto
  then show ?thesis
  proof cases
    case 1
    then show ?thesis using text_run [OF 1, of E opts tid secs st rs its ?s] i f dwarf_inv_init
      by (auto simp: decode_report_def)
  next
    case 2
    obtain s1 where "run_items (decode_item E FMT_PROFILE opts tid secs st rs) its ?s = Some s1" "is_ct s1 = ct"
      "is_prof s1 = foldl (\<lambda>p (m, d, e). profile_record m d (de_dwarf E) (Some secs) p e) (is_prof ?s)
          (mem_events (de_mem E) (is_total ?s) (stream_events st its))"
      using profile_run_items [of E opts tid secs st rs its ?s] f by auto
    moreover from this have "dwarf_inv (snd (is_prof s1))"
      using profile_fold_inv [OF assms(4)] dwarf_inv_init by (simp add: f)
    ultimately show ?thesis using 2 i by (auto simp: decode_report_def)
  next
    case 3
    obtain ct' a where "calltree_run ct (mem_events (de_mem E) 0 (stream_events st its)) = Some ct'" "sim ct' a"
      using run_sim [OF i] by blast
    then obtain s1 where s1: "run_items (decode_item E fmt opts tid secs st rs) its ?s = Some s1"
      "sim (is_ct s1) a" "is_prof s1 = is_prof ?s"
      using tree_run [OF 3, of ?s E st its ct' opts tid secs rs] f by auto
    moreover have "\<exists>rep. decode_report fmt opts tid s1 = Some rep"
      using 3 ct_tree_total [OF s1(2)] by (auto simp: decode_report_def calltree_print_def callers_print_def)
    ultimately show ?thesis using 3 f dwarf_inv_init by auto
  qed
qed

lemma cleanup_ok:
  assumes "sim (is_ct s1) a" "dwarf_inv (snd (is_prof s1))"
  obtains s2 where "decode_cleanup s1 = Some s2" "counters s2 = counters s1" "is_out s2 = is_out s1"
    "\<forall>b. ct_blocks (is_ct s2) b = None" "ct_stack (is_ct s2) = []" "ds_fds (snd (is_prof s2)) = []"
proof -
  obtain ct2 where ct2: "calltree_free (is_ct s1) = Some ct2" "\<forall>b. ct_blocks ct2 b = None"
    using sim_free [OF assms(1)] by blast
  from ct2(1) have "ct_stack ct2 = []" by (auto simp: calltree_free_def bind_eq_Some_conv)
  with ct2 assms(2) show thesis
    by (intro that [of "s1\<lparr>is_col := collapsed_free (is_col s1), is_ct := ct2,
         is_prof := (profile_free (fst (is_prof s1)), dwarf_cache_close_all (snd (is_prof s1)))\<rparr>"])
      (simp_all add: decode_cleanup_def counters_def close_all_empty)
qed

lemma decode_insn_correct:
  assumes "insn_progress (de_insn E) left ahead" "fds_valid (de_dwarf E)" "de_ct_alloc E" "0 < len" "sections \<noteq> []"
    and "build_pt_image (de_elf E) (de_img_alloc E) (de_add E) sections (sym_table_init (de_heap E)) = (Some img, st)"
    and "Option.bind (de_alloc E (opt_mtc opts)) (de_set_image E img) = Some d"
    and "fmt \<noteq> FMT_COLLAPSED" "fmt \<noteq> FMT_SPEEDSCOPE"
  shows "\<exists>its r s. collected (de_insn E) (in_sync (de_insn E) d) = Some its \<and>
           decode_pt_insn E False len sections fmt opts = Some r \<and> dr_locals r = Some s \<and>
           counters s = item_counts its \<and> (dr_rc r = 0 \<longleftrightarrow> insns its \<noteq> []) \<and>
           (fmt = FMT_TEXT \<or> fmt = FMT_JSON \<longrightarrow>
              dr_out r = concat (map (item_line fmt opts (opt_tid opts) st
                                       (build_bin_ranges (de_elf E) sections MAX_BIN_RANGES)) its)) \<and>
           (\<forall>b. ct_blocks (is_ct s) b = None) \<and> ct_stack (is_ct s) = [] \<and> ds_fds (snd (is_prof s)) = []"
proof -
  obtain ct where ct: "calltree_init True = Some ct" by (simp add: calltree_init_def)
  let ?rs = "build_bin_ranges (de_elf E) sections MAX_BIN_RANGES"
  obtain its where its: "collected (de_insn E) (in_sync (de_insn E) d) = Some its"
    "\<forall>s. insn_loop (de_insn E) (decode_item E fmt opts (opt_tid opts) sections st ?rs) (in_sync (de_insn E) d) s =
         run_items (decode_item E fmt opts (opt_tid opts) sections st ?rs) its s"
    using insn_loop_collected [OF assms(1), of "in_sync (de_insn E) d"
          "decode_item E fmt opts (opt_tid opts) sections st ?rs"] by blast
  obtain s1 rep a where s1: "run_items (decode_item E fmt opts (opt_tid opts) sections st ?rs) its (insn_state_init ct) = Some s1"
    "decode_report fmt opts (opt_tid opts) s1 = Some rep" "sim (is_ct s1) a" "dwarf_inv (snd (is_prof s1))"
    "fmt = FMT_TEXT \<or> fmt = FMT_JSON \<longrightarrow> is_out s1 @ rep = concat (map (item_line fmt opts (opt_tid opts) st ?rs) its)"
    using decode_run_ok [OF assms(8,9) ct assms(2), of opts "opt_tid opts" sections st ?rs its] by blast
  obtain s2 where s2: "decode_cleanup s1 = Some s2" "counters s2 = counters s1" "is_out s2 = is_out s1"
    "\<forall>b. ct_blocks (is_ct s2) b = None" "ct_stack (is_ct s2) = []" "ds_fds (snd (is_prof s2)) = []"
    by (rule cleanup_ok [OF s1(3,4)])
  have cs: "counters s2 = item_counts its"
    using run_counters [OF s1(1)] s2(2) by (simp add: insn_state_init_def counters_def item_counts_def)
  then have "is_total s2 = length (insns its)" by (simp add: counters_def item_counts_def)
  with cs s1 s2 its decode_unfold [OF assms(4,5) _ assms(6,7) s1(1) its(2) [rule_format] s1(2) s2(1)] assms(3) ct
  show ?thesis by (intro exI [of _ its] exI conjI impI) auto
qed


text \<open>A libipt that delivers a list of instructions after one synchronisation.\<close>

definition list_insn_decoder :: "(nat \<times> (u64 \<times> pt_insn_class) list) insn_decoder" where
  "list_insn_decoder =
     \<lparr>in_sync = (\<lambda>(n, is). case n of 0 \<Rightarrow> (St_err pte_eos, n, is) | Suc m \<Rightarrow> (St_ok False, m, is)),
      in_event = (\<lambda>d. (St_err pte_eos, ptev_other, d)),
      in_next = (\<lambda>(n, is). case is of [] \<Rightarrow> (St_err pte_eos, (0, ptic_unknown), n, is)
                                   | i # js \<Rightarrow> (St_ok False, i, n, js)),
      in_time = (\<lambda>d. (0, 0, 0))\<rparr>"

lemma list_insn_progress: "insn_progress list_insn_decoder (\<lambda>(n, is). length is) (\<lambda>(n, is). n)"
  by (auto simp: insn_progress_def list_insn_decoder_def split: nat.splits list.splits)

text \<open>The program of \<open>func_elf\<close>, whose \<open>main\<close> is called and returns.\<close>

definition sample_env :: "(nat \<times> (u64 \<times> pt_insn_class) list, nat \<times> pt_packet list) decode_env" where
  "sample_env =
     \<lparr>de_elf = func_env, de_img_alloc = True, de_add = (\<lambda>_ _. True), de_dwarf = no_dwarf, de_heap = 0,
      de_mem = (\<lambda>_. (True, True)), de_ct_alloc = True, de_insn = list_insn_decoder,
      de_alloc = (\<lambda>_. Some (1, [(0x21004, ptic_call), (0x21010, ptic_other), (0x21011, ptic_return)])),
      de_set_image = (\<lambda>_ d. Some d), de_pkt = list_decoder, de_pkt_alloc = Some (1, [ppt_psb])\<rparr>"

lemma sample_env_simps [simp]:
  "de_elf sample_env = func_env" "de_img_alloc sample_env = True" "de_add sample_env = (\<lambda>_ _. True)"
  "de_dwarf sample_env = no_dwarf" "de_heap sample_env = 0" "de_mem sample_env = (\<lambda>_. (True, True))"
  "de_ct_alloc sample_env = True" "de_insn sample_env = list_insn_decoder"
  "de_set_image sample_env = (\<lambda>_ d. Some d)" "de_pkt sample_env = list_decoder"
  "de_alloc sample_env = (\<lambda>_. Some (1, [(0x21004, ptic_call), (0x21010, ptic_other), (0x21011, ptic_return)]))"
  "de_pkt_alloc sample_env = Some (1, [ppt_psb])"
  by (simp_all add: sample_env_def)

lemma sample_collected:
  "collected list_insn_decoder (in_sync list_insn_decoder (1, [(0x21004, ptic_call), (0x21010, ptic_other), (0x21011, ptic_return)])) =
   Some [It_insn 0x21004 ptic_call (0, 0, 0), It_insn 0x21010 ptic_other (0, 0, 0), It_insn 0x21011 ptic_return (0, 0, 0)]"
  by (simp add: collected_def list_insn_decoder_def insn_loop.simps event_loop.simps)

lemma sample_hyps:
  "insn_progress (de_insn sample_env) (\<lambda>(n, is). length is) (\<lambda>(n, is). n)" "fds_valid (de_dwarf sample_env)"
  "de_ct_alloc sample_env" "0 < (16::nat)" "one_section \<noteq> []"
  "build_pt_image (de_elf sample_env) (de_img_alloc sample_env) (de_add sample_env) one_section (sym_table_init (de_heap sample_env)) =
    (Some [\<lparr>is_path = ''/bin/a'', is_offset = 0, is_filesz = 0x100, is_vaddr = 0x21000\<rparr>],
    \<lparr>st_entries = [sym_main], st_capacity = 256, st_next = 2\<rparr>)"
  "Option.bind (de_alloc sample_env (opt_mtc opts)) (de_set_image sample_env img) =
    Some (1, [(0x21004, ptic_call), (0x21010, ptic_other), (0x21011, ptic_return)])"
  using list_insn_progress func_build
  by (simp_all add: fds_valid_def no_dwarf_def one_section_def)


section \<open>The tree and the profile of a trace\<close>

lemma decode_from_run:
  assumes "insn_progress (de_insn E) left ahead" "de_ct_alloc E" "0 < len" "sections \<noteq> []"
    and "build_pt_image (de_elf E) (de_img_alloc E) (de_add E) sections (sym_table_init (de_heap E)) = (Some img, st)"
    and "Option.bind (de_alloc E (opt_mtc opts)) (de_set_image E img) = Some d"
    and "collected (de_insn E) (in_sync (de_insn E) d) = Some its" "calltree_init True = Some ct"
    and "run_items (decode_item E fmt opts (opt_tid opts) sections st
          (build_bin_ranges (de_elf E) sections MAX_BIN_RANGES)) its (insn_state_init ct) = Some s1"
    and "decode_report fmt opts (opt_tid opts) s1 = Some rep" "sim (is_ct s1) a" "dwarf_inv (snd (is_prof s1))"
  shows "\<exists>r. decode_pt_insn E False len sections fmt opts = Some r \<and> dr_out r = is_out s1 @ rep"
proof -
  let ?h = "decode_item E fmt opts (opt_tid opts) sections st (build_bin_ranges (de_elf E) sections MAX_BIN_RANGES)"
  have l: "insn_loop (de_insn E) ?h (in_sync (de_insn E) d) (insn_state_init ct) = run_items ?h its (insn_state_init ct)"
    using insn_loop_collected [OF assms(1), of "in_sync (de_insn E) d" ?h] assms(7) by auto
  obtain s2 where s2: "decode_cleanup s1 = Some s2" "is_out s2 = is_out s1"
    by (rule cleanup_ok [OF assms(11,12)])
  from decode_unfold [OF assms(3,4) _ assms(5,6,9) l assms(10) s2(1)] assms(2,8) s2(2) show ?thesis by auto
qed

text \<open>
  C5. The call tree that is printed is the one of the trace. With memory for the tree, the tree format
  prints a tree whose node at every call path carries the number of times the traced program entered
  a function along exactly that path, where the functions are those the symbol table of the image
  gives for the instruction addresses libipt delivered.
\<close>

theorem decode_tree_of_trace:
  assumes "insn_progress (de_insn E) left ahead" "de_ct_alloc E" "0 < len" "sections \<noteq> []"
    and "build_pt_image (de_elf E) (de_img_alloc E) (de_add E) sections (sym_table_init (de_heap E)) = (Some img, st)"
    and "Option.bind (de_alloc E (opt_mtc opts)) (de_set_image E img) = Some d"
    and "de_mem E = (\<lambda>_. (True, True))"
  shows "\<exists>its ct tx r. collected (de_insn E) (in_sync (de_insn E) d) = Some its \<and>
           decode_pt_insn E False len sections FMT_TREE opts = Some r \<and>
           dr_out r = thread_head (opt_tid opts) @ tx \<and> calltree_print ct = Some tx \<and>
           (\<forall>p. fst (data_or_new (path_data ct p)) = count_list (call_paths ptic_unknown [] (stream_events st its)) p)"
proof -
  obtain ct where ct: "calltree_init True = Some ct" by (simp add: calltree_init_def)
  let ?rs = "build_bin_ranges (de_elf E) sections MAX_BIN_RANGES"
  obtain its where its: "collected (de_insn E) (in_sync (de_insn E) d) = Some its"
    using insn_loop_collected [OF assms(1)] by blast
  obtain ct' where ct': "calltree_run ct (map (\<lambda>e. (True, True, e)) (stream_events st its)) = Some ct'"
    "sim ct' (foldl ac_record ac_init (stream_events st its))" by (rule run_all_sim [OF ct])
  have "mem_events (de_mem E) 0 (stream_events st its) = map (\<lambda>e. (True, True, e)) (stream_events st its)"
    by (rule mem_events_ok) (simp add: assms(7))
  with ct'(1) obtain s1 where s1: "is_ct s1 = ct'" "is_out s1 = []" "is_prof s1 = (profile_init, dwarf_state_init)"
    "run_items (decode_item E FMT_TREE opts (opt_tid opts) sections st ?rs) its (insn_state_init ct) = Some s1"
    using tree_run [of FMT_TREE "insn_state_init ct" E st its ct' opts "opt_tid opts" sections ?rs]
    by (auto simp: insn_state_init_def)
  obtain tx where tx: "calltree_print ct' = Some tx"
    using ct_tree_total [OF ct'(2)] by (auto simp: calltree_print_def)
  then have rep: "decode_report FMT_TREE opts (opt_tid opts) s1 = Some (thread_head (opt_tid opts) @ tx)"
    by (simp add: decode_report_def s1(1))
  have "sim (is_ct s1) (foldl ac_record ac_init (stream_events st its))" "dwarf_inv (snd (is_prof s1))"
    using ct'(2) dwarf_inv_init by (simp_all add: s1)
  from decode_from_run [OF assms(1-6) its ct s1(4) rep this] s1(2) its tx sim_counts(3) [OF ct'(2)]
  show ?thesis by auto
qed

theorem decode_tree_of_trace_witness:
  "\<exists>ct tx r. decode_pt_insn sample_env False 16 one_section FMT_TREE None = Some r \<and> dr_out r = tx \<and>
     calltree_print ct = Some tx \<and> fst (data_or_new (path_data ct [skey sym_main])) = 1"
proof -
  let ?st = "\<lparr>st_entries = [sym_main], st_capacity = 256, st_next = 2\<rparr>"
  let ?its = "[It_insn 0x21004 ptic_call (0, 0, 0), It_insn 0x21010 ptic_other (0, 0, 0), It_insn 0x21011 ptic_return (0, 0, 0)]"
  have "stream_events ?st ?its =
      [ev_at None 0x21004 ptic_call, ev_at (Some sym_main) 0x21010 ptic_other, ev_at (Some sym_main) 0x21011 ptic_return]"
    by (simp add: insn_event_of_def ev_at_def sym_table_lookup_def lookup_loop.simps arr_get_def sym_main_def sym_covers_def)
  then have cp: "call_paths ptic_unknown [] (stream_events ?st ?its) = [[skey sym_main]]"
    by (simp add: is_call_class_def is_return_class_def sym_main_def)
  have m: "de_mem sample_env = (\<lambda>_. (True, True))" by simp
  obtain ct tx r where w: "decode_pt_insn sample_env False 16 one_section FMT_TREE None = Some r"
    "dr_out r = thread_head (opt_tid None) @ tx" "calltree_print ct = Some tx"
    "\<forall>p. fst (data_or_new (path_data ct p)) = count_list (call_paths ptic_unknown [] (stream_events ?st ?its)) p"
    using decode_tree_of_trace [OF sample_hyps(1,3-7) m, of None] sample_collected
    by (simp del: stream_simps call_paths.simps split_paired_All split_paired_Ex) blast
  from w(4) cp have "fst (data_or_new (path_data ct [skey sym_main])) = 1" by (metis count_list.simps add_0)
  with w show ?thesis by (auto simp: thread_head_def opt_tid_def)
qed

text \<open>
  C14. The profile that is printed is the one of the trace: with memory for the table, the profile format
  prints a table in which every function's calls, returns and branches are those of the symbolised
  instruction stream libipt delivered.
\<close>

theorem decode_profile_of_trace:
  assumes "insn_progress (de_insn E) left ahead" "fds_valid (de_dwarf E)" "de_ct_alloc E" "0 < len" "sections \<noteq> []"
    and "build_pt_image (de_elf E) (de_img_alloc E) (de_add E) sections (sym_table_init (de_heap E)) = (Some img, st)"
    and "Option.bind (de_alloc E (opt_mtc opts)) (de_set_image E img) = Some d"
    and "de_mem E = (\<lambda>_. (True, True))"
  shows "\<exists>its p r. collected (de_insn E) (in_sync (de_insn E) d) = Some its \<and>
           decode_pt_insn E False len sections FMT_PROFILE opts = Some r \<and>
           dr_out r = thread_head (opt_tid opts) @ profile_print p opts \<and> profile_spec (stream_events st its) p"
proof -
  obtain ct where ct: "calltree_init True = Some ct" by (simp add: calltree_init_def)
  let ?rs = "build_bin_ranges (de_elf E) sections MAX_BIN_RANGES"
  obtain its where its: "collected (de_insn E) (in_sync (de_insn E) d) = Some its"
    using insn_loop_collected [OF assms(1)] by blast
  let ?evs = "stream_events st its"
  let ?p = "profile_run (de_dwarf E) (Some sections) ?evs"
  have "mem_events (de_mem E) 0 ?evs = map (\<lambda>e. (True, True, e)) ?evs"
    by (rule mem_events_ok) (simp add: assms(8))
  moreover have "foldl (\<lambda>p (m, d, e). profile_record m d dw secs p e) q (map (\<lambda>e. (True, True, e)) evs) =
      foldl (profile_record True True dw secs) q evs" for dw secs q evs
    by (induction evs arbitrary: q) auto
  ultimately obtain s1 where s1: "is_ct s1 = ct" "is_out s1 = []" "is_prof s1 = ?p"
    "run_items (decode_item E FMT_PROFILE opts (opt_tid opts) sections st ?rs) its (insn_state_init ct) = Some s1"
    using profile_run_items [of E opts "opt_tid opts" sections st ?rs its "insn_state_init ct"]
    by (auto simp: insn_state_init_def profile_run_def)
  have rep: "decode_report FMT_PROFILE opts (opt_tid opts) s1 = Some (thread_head (opt_tid opts) @ profile_print (fst ?p) opts)"
    by (simp add: decode_report_def s1(3))
  have "dwarf_inv (snd (foldl (profile_record True True (de_dwarf E) (Some sections)) q evs))"
    if "dwarf_inv (snd q)" for q evs
    using that by (induction evs arbitrary: q) (simp_all add: profile_dwarf_inv [OF assms(2)])
  then have "sim (is_ct s1) ac_init" "dwarf_inv (snd (is_prof s1))"
    using init_sim [OF ct] dwarf_inv_init by (simp_all add: s1 profile_run_def)
  from decode_from_run [OF assms(1,3-7) its ct s1(4) rep this] s1(2) its profile_run_spec [of ?evs "de_dwarf E" "Some sections"]
  show ?thesis by auto
qed

theorem decode_profile_of_trace_witness:
  "\<exists>p r. decode_pt_insn sample_env False 16 one_section FMT_PROFILE None = Some r \<and> dr_out r = profile_print p None"
proof -
  have m: "de_mem sample_env = (\<lambda>_. (True, True))" by simp
  from decode_profile_of_trace [OF sample_hyps m, of None] show ?thesis
    by (auto simp: thread_head_def opt_tid_def)
qed

section \<open>Rating\<close>

lemma probe_run:
  "run_items (probe_item st rs bins) its p =
   Some (p\<lparr>pr_total := pr_total p + length (insns its),
           pr_exec_hits := pr_exec_hits p + length (filter (\<lambda>(ip, cl, tsc). probe_hit st rs bins ip) (insns its))\<rparr>)"
proof (induction its arbitrary: p)
  case (Cons it its)
  then show ?case by (cases it) auto
qed simp



section \<open>Errors\<close>


definition no_image_env :: "(nat \<times> (u64 \<times> pt_insn_class) list, nat \<times> pt_packet list) decode_env" where
  "no_image_env = sample_env\<lparr>de_img_alloc := False\<rparr>"


end
