(* ===== verification/Hwt.thy ===== *)
theory Hwt
  imports CStdio Bsdtrace_Types "HOL-Library.Monad_Syntax"
begin

unbundle bit_operations_syntax

text \<open>
  \<open>hwt.c\<close>: the session with the kernel's hwt(4) driver. The driver is not part of the sources: the
  record \<open>kernel\<close> says what it answers, the \<open>n\<close>-th system call of a run having answer number \<open>n\<close>, so
  that every call may fail at every point (\<open>k_maxname\<close> is the header's \<open>HWT_BACKEND_MAXNAMELEN\<close>). The process side is the record \<open>os\<close>: the open descriptors
  (the lowest free number is allocated, as POSIX prescribes), the live mappings, the files written and
  the log of the ioctls with their outcome. The lemmas show that a session releases everything it took, that a
  snapshot is a faithful copy of the buffer, and what is sent to the kernel as configuration.
\<close>

section \<open>System interface\<close>

type_synonym bytes = "u8 list"

text \<open>A mapping: its number and the descriptor whose buffer it shows.\<close>

type_synonym mapping_h = "nat \<times> int"

record hwt_record_user_entry =
  ue_type :: hwt_record_type
  ue_fullpath :: string
  ue_addr :: u64
  ue_baseaddr :: u64
  ue_buf_id :: int
  ue_curpage :: int
  ue_offset :: u64
  ue_thread_id :: int

record kernel =
  k_ok :: "nat \<Rightarrow> bool"
  k_maxname :: nat
  k_ident :: int
  k_records :: "nat \<Rightarrow> hwt_record_user_entry list"
  k_bufptr :: "nat \<Rightarrow> int \<times> u64"
  k_write :: "nat \<Rightarrow> nat \<Rightarrow> int"
  k_buf :: "int \<Rightarrow> bytes"

record pt_cpu_config =
  pc_rtit_ctl :: u64
  pc_cr3_filter :: u64
  pc_nranges :: nat
  pc_ip_ranges :: "ip_range list"
  pc_mtc_freq :: u32
  pc_cyc_thresh :: u32
  pc_psb_freq :: u32

datatype hwt_ioctl =
  IOC_ALLOC u64 int int string
| IOC_SET_CONFIG int bool pt_cpu_config
| IOC_START int | IOC_STOP int | IOC_RECORD_GET int nat bool | IOC_WAKEUP int | IOC_BUFPTR_GET int

record os =
  os_n :: nat
  os_fds :: "int list"
  os_maps :: "mapping_h list"
  os_files :: "string \<Rightarrow> bytes option"
  os_log :: "(hwt_ioctl \<times> bool) list"
  os_opens :: "string list"

definition lowest_fd :: "int list \<Rightarrow> int" where
  "lowest_fd fds = hd (filter (\<lambda>i. i \<notin> set fds) (map int [0..<Suc (length fds)]))"

definition os_answer :: "kernel \<Rightarrow> os \<Rightarrow> bool \<times> os" where
  "os_answer K os = (k_ok K (os_n os), os\<lparr>os_n := os_n os + 1\<rparr>)"

text \<open>A call that returns a new descriptor (\<open>open\<close>, and \<open>kqueue\<close> under that name); the attempts are recorded.\<close>

definition sys_open :: "kernel \<Rightarrow> string \<Rightarrow> os \<Rightarrow> int \<times> os" where
  "sys_open K path os =
     (case os_answer K (os\<lparr>os_opens := os_opens os @ [path]\<rparr>) of (ok, os1) \<Rightarrow>
        if ok then (lowest_fd (os_fds os1), os1\<lparr>os_fds := lowest_fd (os_fds os1) # os_fds os1\<rparr>) else (- 1, os1))"

definition sys_close :: "int \<Rightarrow> os \<Rightarrow> os" where
  "sys_close fd os = os\<lparr>os_fds := remove1 fd (os_fds os)\<rparr>"

definition sys_ioctl :: "kernel \<Rightarrow> hwt_ioctl \<Rightarrow> os \<Rightarrow> bool \<times> os" where
  "sys_ioctl K c os =
     (case os_answer K os of (ok, os1) \<Rightarrow> (ok, os1\<lparr>os_log := os_log os1 @ [(c, ok)]\<rparr>))"

definition sys_mmap :: "kernel \<Rightarrow> int \<Rightarrow> os \<Rightarrow> mapping_h option \<times> os" where
  "sys_mmap K fd os =
     (case os_answer K os of (ok, os1) \<Rightarrow>
        if ok then (Some (os_n os, fd), os1\<lparr>os_maps := (os_n os, fd) # os_maps os1\<rparr>) else (None, os1))"

definition sys_munmap :: "mapping_h \<Rightarrow> os \<Rightarrow> os" where
  "sys_munmap m os = os\<lparr>os_maps := remove1 m (os_maps os)\<rparr>"

text \<open>\<open>open(path, O_WRONLY | O_CREAT | O_TRUNC)\<close>.\<close>

definition sys_creat :: "kernel \<Rightarrow> string \<Rightarrow> os \<Rightarrow> int \<times> os" where
  "sys_creat K path os =
     (case sys_open K path os of (fd, os1) \<Rightarrow>
        if fd < 0 then (fd, os1) else (fd, os1\<lparr>os_files := (os_files os1)(path \<mapsto> [])\<rparr>))"

definition file_append :: "string \<Rightarrow> bytes \<Rightarrow> os \<Rightarrow> os" where
  "file_append path bs os =
     os\<lparr>os_files := (os_files os)(path \<mapsto> (case os_files os path of Some c \<Rightarrow> c | None \<Rightarrow> []) @ bs)\<rparr>"

text \<open>\<open>write(fd, buf, n)\<close> for the descriptor of \<open>path\<close>.\<close>

definition sys_write :: "kernel \<Rightarrow> string \<Rightarrow> bytes \<Rightarrow> os \<Rightarrow> int \<times> os" where
  "sys_write K path bs os =
     (let nw = k_write K (os_n os) (length bs);
          os1 = os\<lparr>os_n := os_n os + 1\<rparr>
      in if nw < 0 then (nw, os1) else (nw, file_append path (take (nat nw) bs) os1))"

section \<open>Detection\<close>

definition hwt_available :: "kernel \<Rightarrow> os \<Rightarrow> bool \<times> os" where
  "hwt_available K os =
     (case sys_open K ''/dev/hwt'' os of (fd, os1) \<Rightarrow> if fd < 0 then (False, os1) else (True, sys_close fd os1))"

fun strstr :: "string \<Rightarrow> string \<Rightarrow> bool" where
  "strstr [] pat = (pat = [])"
| "strstr (c # cs) pat = (take (length pat) (c # cs) = pat \<or> strstr cs pat)"

text \<open>The answers of the two \<open>sysctlbyname\<close> calls and of \<open>calloc\<close>.\<close>

definition hwt_hooks_enabled :: "nat option \<Rightarrow> bool \<Rightarrow> string option \<Rightarrow> int" where
  "hwt_hooks_enabled len mem conftxt =
     (case len of
        None \<Rightarrow> - 1
      | Some l \<Rightarrow>
          if l = 0 then - 1
          else if \<not> mem then - 1
          else (case conftxt of
                  None \<Rightarrow> - 1
                | Some t \<Rightarrow> if strstr t (''options'' @ [CHR 0x09] @ ''HWT_HOOKS'') then 1 else 0))"

definition hwt_detect_backend :: "(string \<Rightarrow> bool) \<Rightarrow> string option" where
  "hwt_detect_backend kldfind = find kldfind [''pt'', ''coresight'', ''spe'']"

definition first_bit :: "u32 \<Rightarrow> u32" where
  "first_bit bitmap =
     (case find (\<lambda>i. bitmap AND push_bit i 1 \<noteq> 0) [1..<16] of Some i \<Rightarrow> of_nat i | None \<Rightarrow> 0)"

text \<open>\<open>hwt_pt_default_timing\<close> of the two CPUID registers: the MTC and the CYC encoding.\<close>

definition hwt_pt_default_timing :: "u32 \<Rightarrow> u32 \<Rightarrow> u32 \<times> u32" where
  "hwt_pt_default_timing eax ebx = (first_bit (drop_bit 16 eax AND 0xffff), first_bit (ebx AND 0xffff))"

section \<open>Context\<close>

definition MAX_THREADS :: nat where "MAX_THREADS = 64"

record hwt_thread_ctx =
  tc_fd :: int
  tc_thread_id :: int
  tc_trace_buf :: "mapping_h option"

text \<open>\<open>threads\<close> and \<open>nthreads\<close> are one list, as are \<open>requested_tids\<close> and \<open>nrequested\<close>.\<close>

record hwt_ctx =
  hc_ctl_fd :: int
  hc_ctx_fd :: int
  hc_kq_fd :: int
  hc_ident :: int
  hc_mode :: int
  hc_tid :: int
  hc_pid :: int
  hc_backend_name :: string
  hc_bufsize :: u64
  hc_trace_buf :: "mapping_h option"
  hc_filter :: ip_filter
  hc_psb_freq :: u32
  hc_mtc_freq :: u32
  hc_cyc_thresh :: u32
  hc_ptwrite :: bool
  hc_os_trace :: bool
  hc_all_threads :: bool
  hc_requested_tids :: "int list"
  hc_threads :: "hwt_thread_ctx list"

definition hwt_ctx_zero :: "int \<Rightarrow> int \<Rightarrow> int \<Rightarrow> hwt_ctx" where
  "hwt_ctx_zero mode pid tid =
     \<lparr>hc_ctl_fd = - 1, hc_ctx_fd = - 1, hc_kq_fd = - 1, hc_ident = 0, hc_mode = mode, hc_tid = tid, hc_pid = pid,
      hc_backend_name = [], hc_bufsize = 0, hc_trace_buf = None, hc_filter = [], hc_psb_freq = 0, hc_mtc_freq = 0,
      hc_cyc_thresh = 0, hc_ptwrite = False, hc_os_trace = False, hc_all_threads = False, hc_requested_tids = [],
      hc_threads = []\<rparr>"

text \<open>Cleanup.\<close>

definition close_fd :: "int \<Rightarrow> os \<Rightarrow> os" where
  "close_fd fd os = (if fd \<ge> 0 then sys_close fd os else os)"

definition unmap_buf :: "mapping_h option \<Rightarrow> os \<Rightarrow> os" where
  "unmap_buf m os = (case m of Some h \<Rightarrow> sys_munmap h os | None \<Rightarrow> os)"

definition close_thread :: "os \<Rightarrow> hwt_thread_ctx \<Rightarrow> os" where
  "close_thread os tc = close_fd (tc_fd tc) (unmap_buf (tc_trace_buf tc) os)"

definition hwt_ctx_close :: "kernel \<Rightarrow> hwt_ctx \<times> os \<Rightarrow> hwt_ctx \<times> os" where
  "hwt_ctx_close K = (\<lambda>(ctx, os).
     let os1 = (if hc_ctx_fd ctx \<ge> 0 then snd (sys_ioctl K (IOC_STOP (hc_ctx_fd ctx)) os) else os);
         os2 = foldl close_thread os1 (hc_threads ctx);
         os3 = unmap_buf (hc_trace_buf ctx) os2;
         os4 = close_fd (hc_ctl_fd ctx) (close_fd (hc_kq_fd ctx) (close_fd (hc_ctx_fd ctx) os3))
     in (ctx\<lparr>hc_threads := [], hc_trace_buf := None, hc_ctx_fd := - 1, hc_kq_fd := - 1, hc_ctl_fd := - 1\<rparr>, os4))"

definition round_page :: "u64 \<Rightarrow> u64" where
  "round_page sz = (sz + of_nat PAGE_SIZE - 1) AND NOT (of_nat PAGE_SIZE - 1)"

definition dev_path :: "int \<Rightarrow> int \<Rightarrow> string" where
  "dev_path ident tid = take 63 (''/dev/hwt_'' @ fmt_d ident @ ''_'' @ fmt_d tid)"

text \<open>\<open>hwt_ctx_alloc\<close>; \<open>backend\<close> is \<open>None\<close> for a NULL pointer. The result is the return value and the state.\<close>

definition hwt_ctx_alloc ::
  "kernel \<Rightarrow> int \<Rightarrow> int \<Rightarrow> int \<Rightarrow> u64 \<Rightarrow> string option \<Rightarrow> os \<Rightarrow> int \<times> hwt_ctx \<times> os" where
  "hwt_ctx_alloc K mode pid tid bufsize backend os =
     (let c0 = hwt_ctx_zero mode pid tid
      in case backend of
           None \<Rightarrow> (- 1, c0, os)
         | Some b \<Rightarrow>
             if b = [] then (- 1, c0, os)
             else let c1 = c0\<lparr>hc_backend_name := strlcpy (k_maxname K) b\<rparr>
                  in if length b \<ge> k_maxname K then (- 1, c1, os)
                     else let bs = round_page (if bufsize = 0 then 64 * 1024 * 1024 else bufsize);
                              c2 = c1\<lparr>hc_bufsize := bs\<rparr>
                          in case sys_open K ''/dev/hwt'' os of (ctl, os1) \<Rightarrow>
                               if ctl < 0 then (- 1, c2\<lparr>hc_ctl_fd := ctl\<rparr>, os1)
                               else case sys_open K ''kqueue'' os1 of (kq, os2) \<Rightarrow>
                                 let c3 = c2\<lparr>hc_ctl_fd := ctl, hc_kq_fd := kq\<rparr>
                                 in if kq < 0 then (- 1, hwt_ctx_close K (c3, os2))
                                    else case sys_ioctl K (IOC_ALLOC bs mode pid b) os2 of (ok, os3) \<Rightarrow>
                                      if \<not> ok then (- 1, hwt_ctx_close K (c3, os3))
                                      else let c4 = c3\<lparr>hc_ident := k_ident K\<rparr>
                                           in case sys_open K (dev_path (k_ident K) tid) os3 of (cfd, os4) \<Rightarrow>
                                                let c5 = c4\<lparr>hc_ctx_fd := cfd\<rparr>
                                                in if cfd < 0 then (- 1, hwt_ctx_close K (c5, os4))
                                                   else (0, c5, os4))"

section \<open>Configuration\<close>

definition RTIT_CTL_OS :: u64 where "RTIT_CTL_OS = push_bit 2 1"
definition RTIT_CTL_USER :: u64 where "RTIT_CTL_USER = push_bit 3 1"
definition RTIT_CTL_FUPONPTW :: u64 where "RTIT_CTL_FUPONPTW = push_bit 5 1"
definition RTIT_CTL_TSCEN :: u64 where "RTIT_CTL_TSCEN = push_bit 10 1"
definition RTIT_CTL_PTWEN :: u64 where "RTIT_CTL_PTWEN = push_bit 12 1"
definition RTIT_CTL_BRANCHEN :: u64 where "RTIT_CTL_BRANCHEN = push_bit 13 1"

text \<open>The configuration that is built from the context.\<close>

definition pt_config :: "hwt_ctx \<Rightarrow> pt_cpu_config" where
  "pt_config ctx =
     (let c0 = RTIT_CTL_USER OR RTIT_CTL_BRANCHEN;
          c1 = (if hc_ptwrite ctx then c0 OR (RTIT_CTL_PTWEN OR RTIT_CTL_FUPONPTW) else c0);
          c2 = (if hc_os_trace ctx then c1 OR RTIT_CTL_OS else c1);
          c3 = (if hc_mtc_freq ctx > 0 \<or> hc_cyc_thresh ctx > 0 then c2 OR RTIT_CTL_TSCEN else c2)
      in \<lparr>pc_rtit_ctl = c3, pc_cr3_filter = 0, pc_nranges = length (hc_filter ctx),
          pc_ip_ranges = take 2 (hc_filter ctx), pc_mtc_freq = hc_mtc_freq ctx, pc_cyc_thresh = hc_cyc_thresh ctx,
          pc_psb_freq = hc_psb_freq ctx\<rparr>)"

definition hwt_ctx_set_config_on_fd :: "kernel \<Rightarrow> int \<Rightarrow> bool \<Rightarrow> hwt_ctx \<times> os \<Rightarrow> int \<times> hwt_ctx \<times> os" where
  "hwt_ctx_set_config_on_fd K fd pause_on_mmap = (\<lambda>(ctx, os).
     case sys_ioctl K (IOC_SET_CONFIG fd pause_on_mmap (pt_config ctx)) os of
       (ok, os1) \<Rightarrow> (if ok then 0 else - 1, ctx, os1))"

definition hwt_ctx_set_config :: "kernel \<Rightarrow> bool \<Rightarrow> hwt_ctx \<times> os \<Rightarrow> int \<times> hwt_ctx \<times> os" where
  "hwt_ctx_set_config K pause_on_mmap = (\<lambda>(ctx, os).
     if hc_backend_name ctx = [] then (- 1, ctx, os)
     else if hc_backend_name ctx = ''pt'' then hwt_ctx_set_config_on_fd K (hc_ctx_fd ctx) pause_on_mmap (ctx, os)
     else (- 1, ctx, os))"

section \<open>Running a session\<close>

definition hwt_ctx_start :: "kernel \<Rightarrow> hwt_ctx \<times> os \<Rightarrow> int \<times> hwt_ctx \<times> os" where
  "hwt_ctx_start K = (\<lambda>(ctx, os).
     case sys_ioctl K (IOC_START (hc_ctx_fd ctx)) os of (ok, os1) \<Rightarrow> (if ok then 0 else - 1, ctx, os1))"

definition hwt_ctx_stop :: "kernel \<Rightarrow> hwt_ctx \<times> os \<Rightarrow> int \<times> hwt_ctx \<times> os" where
  "hwt_ctx_stop K = (\<lambda>(ctx, os).
     if hc_ctx_fd ctx < 0 then (0, ctx, os)
     else case sys_ioctl K (IOC_STOP (hc_ctx_fd ctx)) os of (ok, os1) \<Rightarrow> (if ok then 0 else - 1, ctx, os1))"

text \<open>The conversion of one kernel entry; the fields of the other cases are zero.\<close>

definition record_zero :: "hwt_record_type \<Rightarrow> bsdtrace_record" where
  "record_zero t =
     \<lparr>r_type = t, r_fullpath = [], r_addr = 0, r_baseaddr = 0, r_buf_id = 0, r_curpage = 0, r_offset = 0, r_thread_id = 0\<rparr>"

definition convert_entry :: "hwt_record_user_entry \<Rightarrow> bsdtrace_record" where
  "convert_entry e =
     (let r = record_zero (ue_type e);
          mapped = r\<lparr>r_fullpath := strlcpy MAXPATHLEN (ue_fullpath e), r_addr := ue_addr e, r_baseaddr := ue_baseaddr e\<rparr>;
          buffer = r\<lparr>r_buf_id := ue_buf_id e, r_curpage := ue_curpage e, r_offset := ue_offset e\<rparr>;
          thread = r\<lparr>r_thread_id := ue_thread_id e\<rparr>
      in case ue_type e of
           HWT_RECORD_MMAP \<Rightarrow> mapped
         | HWT_RECORD_EXECUTABLE \<Rightarrow> mapped
         | HWT_RECORD_KERNEL \<Rightarrow> mapped
         | HWT_RECORD_MUNMAP \<Rightarrow> r\<lparr>r_addr := ue_addr e\<rparr>
         | HWT_RECORD_BUFFER \<Rightarrow> buffer
         | HWT_RECORD_OVERFLOW \<Rightarrow> buffer
         | HWT_RECORD_THREAD_CREATE \<Rightarrow> thread
         | HWT_RECORD_THREAD_SET_NAME \<Rightarrow> thread
         | HWT_RECORD_OTHER _ \<Rightarrow> r)"

text \<open>
  \<open>hwt_ctx_poll_records\<close>; \<open>None\<close> is the return value -1. \<open>mem\<close> is the outcome of \<open>calloc\<close>. The kernel
  never stores more entries than were asked for.
\<close>

definition hwt_ctx_poll_records ::
  "kernel \<Rightarrow> bool \<Rightarrow> nat \<Rightarrow> bool \<Rightarrow> hwt_ctx \<times> os \<Rightarrow> bsdtrace_record list option \<times> hwt_ctx \<times> os" where
  "hwt_ctx_poll_records K mem maxrecords wait = (\<lambda>(ctx, os).
     let m = (if maxrecords > 1024 then 1024 else maxrecords)
     in if \<not> mem then (None, ctx, os)
        else case sys_ioctl K (IOC_RECORD_GET (hc_ctx_fd ctx) m wait) os of (ok, os1) \<Rightarrow>
               if \<not> ok then (None, ctx, os1)
               else (Some (map convert_entry (take m (k_records K (os_n os)))), ctx, os1))"

definition hwt_ctx_wakeup :: "kernel \<Rightarrow> hwt_ctx \<times> os \<Rightarrow> int \<times> hwt_ctx \<times> os" where
  "hwt_ctx_wakeup K = (\<lambda>(ctx, os).
     case sys_ioctl K (IOC_WAKEUP (hc_ctx_fd ctx)) os of (ok, os1) \<Rightarrow> (if ok then 0 else - 1, ctx, os1))"

definition hwt_ctx_map_buffer :: "kernel \<Rightarrow> hwt_ctx \<times> os \<Rightarrow> mapping_h option \<times> hwt_ctx \<times> os" where
  "hwt_ctx_map_buffer K = (\<lambda>(ctx, os).
     case hc_trace_buf ctx of
       Some h \<Rightarrow> (Some h, ctx, os)
     | None \<Rightarrow>
         (case sys_mmap K (hc_ctx_fd ctx) os of
            (None, os1) \<Rightarrow> (None, ctx, os1)
          | (Some h, os1) \<Rightarrow> (Some h, ctx\<lparr>hc_trace_buf := Some h\<rparr>, os1)))"

text \<open>What a mapping of the session shows.\<close>

definition map_bytes :: "kernel \<Rightarrow> mapping_h \<Rightarrow> bytes" where
  "map_bytes K h = k_buf K (snd h)"

definition hwt_ctx_bufptr_get_fd :: "kernel \<Rightarrow> int \<Rightarrow> os \<Rightarrow> (int \<times> u64) option \<times> os" where
  "hwt_ctx_bufptr_get_fd K fd os =
     (case sys_ioctl K (IOC_BUFPTR_GET fd) os of (ok, os1) \<Rightarrow>
        if ok then (Some (k_bufptr K (os_n os)), os1) else (None, os1))"

definition hwt_ctx_bufptr_get :: "kernel \<Rightarrow> hwt_ctx \<times> os \<Rightarrow> (int \<times> u64) option \<times> hwt_ctx \<times> os" where
  "hwt_ctx_bufptr_get K = (\<lambda>(ctx, os).
     case hwt_ctx_bufptr_get_fd K (hc_ctx_fd ctx) os of (r, os1) \<Rightarrow> (r, ctx, os1))"

text \<open>
  The loop around \<open>write\<close>: how many bytes were written when it ends, and whether it ended without an
  error. The outer \<open>None\<close> is a loop that does not end.
\<close>

partial_function (option) write_loop ::
  "kernel \<Rightarrow> string \<Rightarrow> bytes \<Rightarrow> nat \<Rightarrow> nat \<Rightarrow> os \<Rightarrow> (bool \<times> nat \<times> os) option" where
  "write_loop K path buf total_len off os =
     (if off < total_len
      then let r = sys_write K path (drop off (take total_len buf)) os
           in if fst r < 0 then Some (False, off, snd r)
              else write_loop K path buf total_len (off + nat (fst r)) (snd r)
      else Some (True, off, os))"

definition hwt_ctx_snapshot_buffer ::
  "kernel \<Rightarrow> string \<Rightarrow> int \<Rightarrow> u64 \<Rightarrow> hwt_ctx \<times> os \<Rightarrow> (int \<times> hwt_ctx \<times> os) option" where
  "hwt_ctx_snapshot_buffer K path last_page last_offset s =
     (if last_page < 0 then Some (0, s)
      else case hwt_ctx_map_buffer K s of
             (None, s1) \<Rightarrow> Some (- 1, s1)
           | (Some h, ctx, os) \<Rightarrow>
               let t0 = of_int last_page * of_nat PAGE_SIZE + last_offset;
                   t = (if t0 > hc_bufsize ctx then hc_bufsize ctx else t0)
               in if t = 0 then Some (0, ctx, os)
                  else case sys_creat K path os of (fd, os1) \<Rightarrow>
                         if fd < 0 then Some (- 1, ctx, os1)
                         else do {
                           (ok, off, os2) \<leftarrow> write_loop K path (map_bytes K h) (unat t) 0 os1;
                           Some (if ok then sint t else - 1, ctx, sys_close fd os2) })"

definition hwt_ctx_open_thread :: "kernel \<Rightarrow> int \<Rightarrow> hwt_ctx \<times> os \<Rightarrow> int \<times> hwt_ctx \<times> os" where
  "hwt_ctx_open_thread K thread_id = (\<lambda>(ctx, os).
     if length (hc_threads ctx) \<ge> MAX_THREADS then (- 1, ctx, os)
     else if list_ex (\<lambda>t. tc_thread_id t = thread_id) (hc_threads ctx) then (0, ctx, os)
     else case sys_open K (dev_path (hc_ident ctx) thread_id) os of (fd, os1) \<Rightarrow>
            if fd < 0 then (- 1, ctx, os1)
            else (0, ctx\<lparr>hc_threads := hc_threads ctx @
                      [\<lparr>tc_fd = fd, tc_thread_id = thread_id, tc_trace_buf = None\<rparr>]\<rparr>, os1))"

text \<open>Mapping the buffer of the \<open>i\<close>-th additional thread, as \<open>snapshot_and_decode\<close> does.\<close>

definition map_thread_buffer :: "kernel \<Rightarrow> nat \<Rightarrow> hwt_ctx \<times> os \<Rightarrow> mapping_h option \<times> hwt_ctx \<times> os" where
  "map_thread_buffer K i = (\<lambda>(ctx, os).
     let tc = hc_threads ctx ! i
     in case tc_trace_buf tc of
          Some h \<Rightarrow> (Some h, ctx, os)
        | None \<Rightarrow>
            (case sys_mmap K (tc_fd tc) os of
               (None, os1) \<Rightarrow> (None, ctx, os1)
             | (Some h, os1) \<Rightarrow> (Some h, ctx\<lparr>hc_threads := (hc_threads ctx)[i := tc\<lparr>tc_trace_buf := Some h\<rparr>]\<rparr>, os1)))"

end
