(* ===== verification/Hwt_Props.thy ===== *)
theory Hwt_Props
  imports Hwt "HOL-Library.Multiset"
begin

text \<open>
  What holds of every session with the driver: the step relation \<open>hwt_step\<close> of all the calls a command
  makes between allocation and close, the invariant of the reachable states, the release of every
  descriptor and mapping, the contract of the allocation, the configuration that is sent, and the
  snapshot of a buffer.
\<close>

section \<open>Descriptors and mappings\<close>

lemma lowest_fd_free: "lowest_fd fds \<notin> set fds" "0 \<le> lowest_fd fds"
proof -
  let ?c = "map int [0..<Suc (length fds)]"
  have "card (set ?c) = Suc (length fds)" by (subst distinct_card) (auto simp: distinct_map)
  then have "\<not> set ?c \<subseteq> set fds"
    using card_mono [of "set fds" "set ?c"] card_length [of fds] by auto
  then have "filter (\<lambda>i. i \<notin> set fds) ?c \<noteq> []" by (auto simp: filter_empty_conv)
  from hd_in_set [OF this] show "lowest_fd fds \<notin> set fds" "0 \<le> lowest_fd fds"
    by (auto simp: lowest_fd_def)
qed

lemma sys_open_effect:
  "sys_open K p os = (fd, os1) \<Longrightarrow>
   os_maps os1 = os_maps os \<and> os_files os1 = os_files os \<and> os_log os1 = os_log os \<and>
   (if fd < 0 then os_fds os1 = os_fds os else os_fds os1 = fd # os_fds os \<and> fd \<notin> set (os_fds os))"
  using lowest_fd_free [of "os_fds os"]
  by (auto simp: sys_open_def os_answer_def split: if_splits)

lemma sys_ioctl_effect:
  "sys_ioctl K c os = (ok, os1) \<Longrightarrow>
   os_fds os1 = os_fds os \<and> os_maps os1 = os_maps os \<and> os_files os1 = os_files os \<and> os_log os1 = os_log os @ [(c, ok)]"
  by (auto simp: sys_ioctl_def os_answer_def)

lemma sys_mmap_effect:
  "sys_mmap K fd os = (m, os1) \<Longrightarrow>
   os_fds os1 = os_fds os \<and> os_files os1 = os_files os \<and> os_log os1 = os_log os \<and>
   os_maps os1 = (case m of Some h \<Rightarrow> h # os_maps os | None \<Rightarrow> os_maps os) \<and> (\<forall>h. m = Some h \<longrightarrow> snd h = fd)"
  by (auto simp: sys_mmap_def os_answer_def split: if_splits)

lemma sys_write_effect:
  "sys_write K path bs os = (nw, os1) \<Longrightarrow>
   os_fds os1 = os_fds os \<and> os_maps os1 = os_maps os \<and> os_log os1 = os_log os"
  by (auto simp: sys_write_def file_append_def Let_def split: if_splits)

section \<open>What a context owns\<close>

definition valid_fds :: "int list \<Rightarrow> int list" where
  "valid_fds fds = filter (\<lambda>fd. fd \<ge> 0) fds"

definition ctx_fds :: "hwt_ctx \<Rightarrow> int list" where
  "ctx_fds ctx = valid_fds ([hc_ctl_fd ctx, hc_kq_fd ctx, hc_ctx_fd ctx] @ map tc_fd (hc_threads ctx))"

fun somes :: "'a option list \<Rightarrow> 'a list" where
  "somes [] = []"
| "somes (None # xs) = somes xs"
| "somes (Some x # xs) = x # somes xs"

definition ctx_maps :: "hwt_ctx \<Rightarrow> mapping_h list" where
  "ctx_maps ctx = somes (hc_trace_buf ctx # map tc_trace_buf (hc_threads ctx))"

text \<open>The descriptors and mappings of the process are those of before and those of the context.\<close>

definition owns :: "int list \<Rightarrow> mapping_h list \<Rightarrow> hwt_ctx \<times> os \<Rightarrow> bool" where
  "owns fds maps s \<longleftrightarrow>
     mset (os_fds (snd s)) = mset fds + mset (ctx_fds (fst s)) \<and>
     mset (os_maps (snd s)) = mset maps + mset (ctx_maps (fst s))"

lemma close_threads_effect:
  "mset (os_fds os) = M + mset (valid_fds (map tc_fd ts)) \<Longrightarrow>
   mset (os_maps os) = N + mset (somes (map tc_trace_buf ts)) \<Longrightarrow>
   mset (os_fds (foldl close_thread os ts)) = M \<and> mset (os_maps (foldl close_thread os ts)) = N \<and>
   os_log (foldl close_thread os ts) = os_log os"
proof (induction ts arbitrary: os)
  case (Cons t ts)
  let ?os = "close_thread os t"
  have "mset (os_fds ?os) = M + mset (valid_fds (map tc_fd ts))"
    "mset (os_maps ?os) = N + mset (somes (map tc_trace_buf ts))" "os_log ?os = os_log os"
    using Cons.prems
    by (cases "tc_trace_buf t"; auto simp: close_thread_def close_fd_def unmap_buf_def sys_close_def sys_munmap_def valid_fds_def)+
  from Cons.IH [OF this(1,2)] this(3) show ?case by simp
qed (simp add: valid_fds_def)

lemma hwt_ctx_close_releases:
  assumes "owns fds maps (ctx, os)" "hwt_ctx_close K (ctx, os) = (ctx', os')"
  shows "mset (os_fds os') = mset fds" "mset (os_maps os') = mset maps"
    "os_log os' = os_log os @ (if hc_ctx_fd ctx \<ge> 0 then [(IOC_STOP (hc_ctx_fd ctx), k_ok K (os_n os))] else [])"
    "owns fds maps (ctx', os')"
proof -
  define os1 where "os1 = (if hc_ctx_fd ctx \<ge> 0 then snd (sys_ioctl K (IOC_STOP (hc_ctx_fd ctx)) os) else os)"
  have e1: "os_fds os1 = os_fds os" "os_maps os1 = os_maps os"
    "os_log os1 = os_log os @ (if hc_ctx_fd ctx \<ge> 0 then [(IOC_STOP (hc_ctx_fd ctx), k_ok K (os_n os))] else [])"
    by (simp_all add: os1_def sys_ioctl_def os_answer_def)
  let ?M = "mset fds + mset (valid_fds [hc_ctl_fd ctx, hc_kq_fd ctx, hc_ctx_fd ctx])"
  let ?N = "mset maps + mset (somes [hc_trace_buf ctx])"
  let ?os2 = "foldl close_thread os1 (hc_threads ctx)"
  have "mset (os_fds os1) = ?M + mset (valid_fds (map tc_fd (hc_threads ctx)))"
    "mset (os_maps os1) = ?N + mset (somes (map tc_trace_buf (hc_threads ctx)))"
    using assms(1) by (cases "hc_trace_buf ctx"; simp add: owns_def e1 ctx_fds_def ctx_maps_def valid_fds_def)+
  from close_threads_effect [OF this] have e2: "mset (os_fds ?os2) = ?M" "mset (os_maps ?os2) = ?N" "os_log ?os2 = os_log os1"
    by auto
  have os': "os' = close_fd (hc_ctl_fd ctx) (close_fd (hc_kq_fd ctx) (close_fd (hc_ctx_fd ctx) (unmap_buf (hc_trace_buf ctx) ?os2)))"
    "ctx' = ctx\<lparr>hc_threads := [], hc_trace_buf := None, hc_ctx_fd := - 1, hc_kq_fd := - 1, hc_ctl_fd := - 1\<rparr>"
    using assms(2) by (auto simp: hwt_ctx_close_def Let_def os1_def)
  show m: "mset (os_fds os') = mset fds" "mset (os_maps os') = mset maps"
    using e2 by (cases "hc_trace_buf ctx"; simp add: os'(1) close_fd_def unmap_buf_def sys_close_def sys_munmap_def valid_fds_def)+
  show "os_log os' = os_log os @ (if hc_ctx_fd ctx \<ge> 0 then [(IOC_STOP (hc_ctx_fd ctx), k_ok K (os_n os))] else [])"
    using e2 e1 by (auto simp: os'(1) close_fd_def unmap_buf_def sys_close_def sys_munmap_def split: option.splits)
  show "owns fds maps (ctx', os')"
    using m by (simp add: owns_def os'(2) ctx_fds_def ctx_maps_def valid_fds_def)
qed

section \<open>Sessions\<close>

text \<open>One call on an allocated context; the last rule is a command storing its options.\<close>

inductive hwt_step :: "kernel \<Rightarrow> hwt_ctx \<times> os \<Rightarrow> hwt_ctx \<times> os \<Rightarrow> bool" for K where
  step_config: "hwt_ctx_set_config K pause s = (rc, s') \<Longrightarrow> hwt_step K s s'"
| step_start: "hwt_ctx_start K s = (rc, s') \<Longrightarrow> hwt_step K s s'"
| step_stop: "hwt_ctx_stop K s = (rc, s') \<Longrightarrow> hwt_step K s s'"
| step_poll: "hwt_ctx_poll_records K mem n wait s = (recs, s') \<Longrightarrow> hwt_step K s s'"
| step_wakeup: "hwt_ctx_wakeup K s = (rc, s') \<Longrightarrow> hwt_step K s s'"
| step_map: "hwt_ctx_map_buffer K s = (h, s') \<Longrightarrow> hwt_step K s s'"
| step_bufptr: "hwt_ctx_bufptr_get K s = (r, s') \<Longrightarrow> hwt_step K s s'"
| step_snapshot: "hwt_ctx_snapshot_buffer K path page off s = Some (rc, s') \<Longrightarrow> hwt_step K s s'"
| step_thread: "hwt_ctx_open_thread K t s = (rc, s') \<Longrightarrow> hwt_step K s s'"
| step_map_thread: "i < length (hc_threads (fst s)) \<Longrightarrow> map_thread_buffer K i s = (h, s') \<Longrightarrow> hwt_step K s s'"
| step_options: "hwt_step K (ctx, os) (ctx\<lparr>hc_filter := f, hc_psb_freq := p, hc_mtc_freq := m, hc_cyc_thresh := c,
      hc_ptwrite := w, hc_os_trace := k, hc_all_threads := a, hc_requested_tids := r\<rparr>, os)"

definition session_inv :: "int list \<Rightarrow> mapping_h list \<Rightarrow> hwt_ctx \<times> os \<Rightarrow> bool" where
  "session_inv fds maps s \<longleftrightarrow>
     owns fds maps s \<and> 0 \<le> hc_ctx_fd (fst s) \<and> length (hc_threads (fst s)) \<le> MAX_THREADS \<and>
     distinct (map tc_thread_id (hc_threads (fst s)))"

text \<open>A call that leaves the context's handles and the process's descriptors and mappings alone.\<close>

lemma inv_same:
  assumes "session_inv fds maps s" "hc_ctl_fd (fst s') = hc_ctl_fd (fst s)" "hc_kq_fd (fst s') = hc_kq_fd (fst s)"
    "hc_ctx_fd (fst s') = hc_ctx_fd (fst s)" "hc_threads (fst s') = hc_threads (fst s)"
    "hc_trace_buf (fst s') = hc_trace_buf (fst s)" "mset (os_fds (snd s')) = mset (os_fds (snd s))"
    "os_maps (snd s') = os_maps (snd s)"
  shows "session_inv fds maps s'"
  using assms by (simp add: session_inv_def owns_def ctx_fds_def ctx_maps_def)

lemma ioctl_inv:
  assumes "session_inv fds maps (ctx, os)" "sys_ioctl K c os = (ok, os1)"
  shows "session_inv fds maps (ctx, os1)"
  by (rule inv_same [OF assms(1)]) (use sys_ioctl_effect [OF assms(2)] in simp_all)

lemma map_buffer_inv:
  assumes "session_inv fds maps (ctx, os)" "hwt_ctx_map_buffer K (ctx, os) = (h, ctx', os')"
  shows "session_inv fds maps (ctx', os') \<and> hc_bufsize ctx' = hc_bufsize ctx \<and> hc_trace_buf ctx' = h \<and>
         os_fds os' = os_fds os \<and> os_files os' = os_files os"
proof (cases "hc_trace_buf ctx")
  case (Some m)
  then show ?thesis using assms by (simp add: hwt_ctx_map_buffer_def)
next
  case None
  obtain m os1 where m: "sys_mmap K (hc_ctx_fd ctx) os = (m, os1)" by fastforce
  note e = sys_mmap_effect [OF m]
  have "h = m" "os' = os1" "ctx' = (case m of None \<Rightarrow> ctx | Some x \<Rightarrow> ctx\<lparr>hc_trace_buf := Some x\<rparr>)"
    using assms(2) None m by (auto simp: hwt_ctx_map_buffer_def split: option.splits)
  then show ?thesis using assms(1) e None
    by (cases m) (simp_all add: session_inv_def owns_def ctx_fds_def ctx_maps_def)
qed

lemma somes_append: "somes (xs @ ys) = somes xs @ somes ys"
  by (induction xs rule: somes.induct) auto

lemma map_thread_inv:
  assumes "session_inv fds maps (ctx, os)" "i < length (hc_threads ctx)" "map_thread_buffer K i (ctx, os) = (h, ctx', os')"
  shows "session_inv fds maps (ctx', os')"
proof (cases "tc_trace_buf (hc_threads ctx ! i)")
  case (Some m)
  then show ?thesis using assms by (simp add: map_thread_buffer_def Let_def)
next
  case None
  let ?ts = "hc_threads ctx" and ?t = "hc_threads ctx ! i"
  obtain m os1 where m: "sys_mmap K (tc_fd ?t) os = (m, os1)" by fastforce
  note e = sys_mmap_effect [OF m]
  have r: "os' = os1" "ctx' = (case m of None \<Rightarrow> ctx | Some x \<Rightarrow> ctx\<lparr>hc_threads := ?ts[i := ?t\<lparr>tc_trace_buf := Some x\<rparr>]\<rparr>)"
    using assms(3) None m by (auto simp: map_thread_buffer_def Let_def split: option.splits)
  show ?thesis
  proof (cases m)
    case None
    then show ?thesis using assms(1) e r by (simp add: session_inv_def owns_def)
  next
    case (Some x)
    let ?ts' = "?ts[i := ?t\<lparr>tc_trace_buf := Some x\<rparr>]"
    have "map tc_fd ?ts' = map tc_fd ?ts" "map tc_thread_id ?ts' = map tc_thread_id ?ts"
      using list_update_id [of "map tc_fd ?ts" i] list_update_id [of "map tc_thread_id ?ts" i] assms(2)
      by (simp_all add: map_update)
    moreover have "mset (somes (map tc_trace_buf ?ts')) = add_mset x (mset (somes (map tc_trace_buf ?ts)))"
      using assms(2) None id_take_nth_drop [OF assms(2)]
      by (simp add: upd_conv_take_nth_drop somes_append) (metis (no_types, lifting) list.map(2) map_append mset_append
          somes.simps(2) somes_append)
    ultimately show ?thesis using assms(1) e r Some
      by (cases "hc_trace_buf ctx") (simp_all add: session_inv_def owns_def ctx_fds_def ctx_maps_def)
  qed
qed

lemma open_thread_inv:
  assumes "session_inv fds maps (ctx, os)" "hwt_ctx_open_thread K t (ctx, os) = (rc, ctx', os')"
  shows "session_inv fds maps (ctx', os')"
proof (cases "length (hc_threads ctx) \<ge> MAX_THREADS \<or> list_ex (\<lambda>c. tc_thread_id c = t) (hc_threads ctx)")
  case True
  then show ?thesis using assms by (auto simp: hwt_ctx_open_thread_def split: if_splits)
next
  case False
  obtain fd os1 where o: "sys_open K (dev_path (hc_ident ctx) t) os = (fd, os1)" by fastforce
  note e = sys_open_effect [OF o]
  show ?thesis
  proof (cases "fd < 0")
    case True
    then show ?thesis using assms False o e by (auto simp: hwt_ctx_open_thread_def session_inv_def owns_def)
  next
    case fd: False
    then have "ctx' = ctx\<lparr>hc_threads := hc_threads ctx @ [\<lparr>tc_fd = fd, tc_thread_id = t, tc_trace_buf = None\<rparr>]\<rparr>" "os' = os1"
      using assms(2) False o by (auto simp: hwt_ctx_open_thread_def)
    moreover have "t \<notin> tc_thread_id ` set (hc_threads ctx)" using False by (auto simp: list_ex_iff)
    moreover have "somes (hc_trace_buf ctx # map tc_trace_buf (hc_threads ctx) @ [None]) =
        somes (hc_trace_buf ctx # map tc_trace_buf (hc_threads ctx))"
      by (simp add: somes_append flip: append_Cons)
    ultimately show ?thesis using assms(1) e fd False
      by (simp add: session_inv_def owns_def ctx_fds_def ctx_maps_def valid_fds_def)
  qed
qed

lemma write_loop_state:
  assumes "write_loop K path buf n off os = Some r"
  shows "os_fds (snd (snd r)) = os_fds os \<and> os_maps (snd (snd r)) = os_maps os \<and> os_log (snd (snd r)) = os_log os"
proof (rule write_loop.raw_induct [OF _ assms], goal_cases)
  case (1 wl K path buf n off os r)
  obtain nw os1 where w: "sys_write K path (drop off (take n buf)) os = (nw, os1)" by fastforce
  from 1(2) 1(1) [of K path buf n "off + nat nw" os1 r] sys_write_effect [OF w] w show ?case
    by (auto simp: Let_def split: if_splits)
qed

lemmas write_loop_effect = write_loop_state [where r = "(ok, off', os')" for ok off' os', simplified]

lemma snapshot_inv:
  assumes "session_inv fds maps (ctx, os)" "hwt_ctx_snapshot_buffer K path page off (ctx, os) = Some (rc, ctx', os')"
  shows "session_inv fds maps (ctx', os')"
proof (cases "page < 0")
  case True
  then show ?thesis using assms by (simp add: hwt_ctx_snapshot_buffer_def)
next
  case False
  obtain h ctx1 os1 where m: "hwt_ctx_map_buffer K (ctx, os) = (h, ctx1, os1)" by (metis prod.exhaust)
  have i1: "session_inv fds maps (ctx1, os1)" using map_buffer_inv [OF assms(1) m] by simp
  obtain fd os2 where c: "sys_creat K path os1 = (fd, os2)" by fastforce
  then obtain os2' where o: "sys_open K path os1 = (fd, os2')" "os_fds os2 = os_fds os2'" "os_maps os2 = os_maps os2'"
    by (auto simp: sys_creat_def split: prod.splits if_splits)
  note e = sys_open_effect [OF o(1)]
  have i2: "session_inv fds maps (ctx1, os2)" if "fd < 0"
    by (rule inv_same [OF i1]) (use e o(2,3) that in simp_all)
  have i3: "session_inv fds maps (ctx1, sys_close fd os3)"
    if "write_loop K path buf n 0 os2 = Some (ok, off', os3)" "\<not> fd < 0" for buf n ok off' os3
    by (rule inv_same [OF i1]) (use e o(2,3) that write_loop_effect [OF that(1)] in \<open>simp_all add: sys_close_def\<close>)
  show ?thesis
  proof (cases h)
    case None
    then show ?thesis using assms(2) False m i1 by (simp add: hwt_ctx_snapshot_buffer_def)
  next
    case (Some x)
    then show ?thesis using assms(2) False m c i1 i2 i3
      by (auto simp: hwt_ctx_snapshot_buffer_def Let_def bind_eq_Some_conv split: if_splits)
  qed
qed

lemma step_inv: "hwt_step K s s' \<Longrightarrow> session_inv fds maps s \<Longrightarrow> session_inv fds maps s'"
proof (induction rule: hwt_step.induct)
  case (step_config pause s rc s')
  then show ?case by (cases s) (auto simp: hwt_ctx_set_config_def hwt_ctx_set_config_on_fd_def
        split: if_splits prod.splits intro: ioctl_inv)
next
  case (step_start s rc s')
  then show ?case by (cases s) (auto simp: hwt_ctx_start_def split: prod.splits intro: ioctl_inv)
next
  case (step_stop s rc s')
  then show ?case by (cases s) (auto simp: hwt_ctx_stop_def split: prod.splits if_splits intro: ioctl_inv)
next
  case (step_poll mem n wait s recs s')
  then show ?case by (cases s) (auto simp: hwt_ctx_poll_records_def Let_def split: prod.splits if_splits intro: ioctl_inv)
next
  case (step_wakeup s rc s')
  then show ?case by (cases s) (auto simp: hwt_ctx_wakeup_def split: prod.splits intro: ioctl_inv)
next
  case (step_map s h s')
  then show ?case by (cases s; cases s') (simp add: map_buffer_inv)
next
  case (step_bufptr s r s')
  then show ?case by (cases s) (auto simp: hwt_ctx_bufptr_get_def hwt_ctx_bufptr_get_fd_def
        split: prod.splits if_splits intro: ioctl_inv)
next
  case (step_snapshot path page off s rc s')
  then show ?case by (cases s; cases s') (simp add: snapshot_inv)
next
  case (step_thread t s rc s')
  then show ?case by (cases s; cases s') (simp add: open_thread_inv)
next
  case (step_map_thread i s h s')
  then show ?case by (cases s; cases s') (simp add: map_thread_inv)
next
  case (step_options ctx os f p m c w k a r)
  then show ?case by (rule inv_same) simp_all
qed

lemma steps_inv: "(hwt_step K)\<^sup>*\<^sup>* s s' \<Longrightarrow> session_inv fds maps s \<Longrightarrow> session_inv fds maps s'"
  by (induction rule: rtranclp_induct) (auto intro: step_inv)

section \<open>Allocation\<close>

lemma alloc_cases:
  assumes "hwt_ctx_alloc K mode pid tid sz backend os = (rc, ctx, os')"
  shows "rc = 0 \<and> session_inv (os_fds os) (os_maps os) (ctx, os') \<and> backend = Some (hc_backend_name ctx) \<and>
           hc_bufsize ctx = round_page (if sz = 0 then 64 * 1024 * 1024 else sz) \<and>
           (\<exists>b. os_log os' = os_log os @ [(IOC_ALLOC (hc_bufsize ctx) mode pid b, True)]) \<or>
         rc = - 1 \<and> mset (os_fds os') = mset (os_fds os) \<and> mset (os_maps os') = mset (os_maps os)"
proof (cases "backend = None \<or> backend = Some [] \<or> length (the backend) \<ge> k_maxname K")
  case True
  then show ?thesis using assms by (auto simp: hwt_ctx_alloc_def Let_def split: option.splits if_splits)
next
  case False
  then obtain b where b: "backend = Some b" "b \<noteq> []" "length b < k_maxname K" by (cases backend) auto
  obtain ctl os1 where o1: "sys_open K ''/dev/hwt'' os = (ctl, os1)" by fastforce
  obtain kq os2 where o2: "sys_open K ''kqueue'' os1 = (kq, os2)" by fastforce
  let ?bs = "round_page (if sz = 0 then 64 * 1024 * 1024 else sz)"
  obtain ok os3 where o3: "sys_ioctl K (IOC_ALLOC ?bs mode pid b) os2 = (ok, os3)" by fastforce
  obtain cfd os4 where o4: "sys_open K (dev_path (k_ident K) tid) os3 = (cfd, os4)" by fastforce
  note e = sys_open_effect [OF o1] sys_open_effect [OF o2] sys_ioctl_effect [OF o3] sys_open_effect [OF o4]
  define c3 where "c3 = (hwt_ctx_zero mode pid tid)\<lparr>hc_backend_name := b, hc_bufsize := ?bs, hc_ctl_fd := ctl, hc_kq_fd := kq\<rparr>"
  have fail: ?thesis if "hwt_ctx_close K (c, os5) = (ctx, os')" "rc = - 1" "owns (os_fds os) (os_maps os) (c, os5)" for c os5
    using hwt_ctx_close_releases(1,2) [OF that(3,1)] that(2) by simp
  have own: "owns (os_fds os) (os_maps os) (c3\<lparr>hc_ident := i, hc_ctx_fd := fd\<rparr>, os5)"
    if "mset (os_fds os5) = mset (os_fds os) + mset (valid_fds [ctl, kq, fd])" "os_maps os5 = os_maps os" for i fd os5
    using that by (simp add: owns_def c3_def ctx_fds_def ctx_maps_def hwt_ctx_zero_def valid_fds_def)
  have un: "c3\<lparr>hc_ident := 0, hc_ctx_fd := - 1\<rparr> = c3" by (simp add: c3_def hwt_ctx_zero_def)
  consider "ctl < 0" | "\<not> ctl < 0" "kq < 0" | "\<not> ctl < 0" "\<not> kq < 0" "\<not> ok" | "\<not> ctl < 0" "\<not> kq < 0" ok "cfd < 0"
    | "\<not> ctl < 0" "\<not> kq < 0" ok "\<not> cfd < 0" by blast
  then show ?thesis
  proof cases
    case 1
    then show ?thesis using assms b o1 e(1) by (simp add: hwt_ctx_alloc_def Let_def)
  next
    case 2
    then have "hwt_ctx_close K (c3, os2) = (ctx, os')" "rc = - 1"
      using assms b o1 o2 by (simp_all add: hwt_ctx_alloc_def Let_def c3_def)
    then show ?thesis using fail own [of os2 "- 1" 0] e 2 by (simp add: un valid_fds_def)
  next
    case 3
    then have "hwt_ctx_close K (c3, os3) = (ctx, os')" "rc = - 1"
      using assms b o1 o2 o3 by (simp_all add: hwt_ctx_alloc_def Let_def c3_def)
    then show ?thesis using fail own [of os3 "- 1" 0] e 3 by (simp add: un valid_fds_def)
  next
    case 4
    then have "hwt_ctx_close K (c3\<lparr>hc_ident := k_ident K, hc_ctx_fd := cfd\<rparr>, os4) = (ctx, os')" "rc = - 1"
      using assms b o1 o2 o3 o4 by (simp_all add: hwt_ctx_alloc_def Let_def c3_def)
    then show ?thesis using fail own [of os4 cfd "k_ident K"] e 4 by (simp add: valid_fds_def)
  next
    case 5
    then have "(ctx, os') = (c3\<lparr>hc_ident := k_ident K, hc_ctx_fd := cfd\<rparr>, os4)" "rc = 0"
      using assms b o1 o2 o3 o4 by (simp_all add: hwt_ctx_alloc_def Let_def c3_def)
    then show ?thesis using own [of os4 cfd "k_ident K"] e 5 b
      by (simp add: valid_fds_def session_inv_def c3_def hwt_ctx_zero_def)
  qed
qed

text \<open>
  C9. A session releases everything. From a successful allocation, after any calls on the context in
  any order, whichever of the system calls fail: at most 64 threads are open and none twice, the last
  thing \<open>hwt_ctx_close\<close> tells the driver is to stop tracing, and afterwards the process has exactly the
  descriptors and mappings it had before the allocation.
\<close>

theorem hwt_session_releases:
  assumes "hwt_ctx_alloc K mode pid tid sz backend os0 = (0, s)" "(hwt_step K)\<^sup>*\<^sup>* s (ctx1, os1)"
    and "hwt_ctx_close K (ctx1, os1) = (ctx2, os2)"
  shows "length (hc_threads ctx1) \<le> 64 \<and> distinct (map tc_thread_id (hc_threads ctx1)) \<and>
         (\<exists>ok. os_log os2 = os_log os1 @ [(IOC_STOP (hc_ctx_fd ctx1), ok)]) \<and>
         mset (os_fds os2) = mset (os_fds os0) \<and> mset (os_maps os2) = mset (os_maps os0)"
proof -
  obtain ctx os where s: "s = (ctx, os)" by (cases s)
  have "session_inv (os_fds os0) (os_maps os0) s" using alloc_cases assms(1) unfolding s by fastforce
  from steps_inv [OF assms(2) this] have i: "session_inv (os_fds os0) (os_maps os0) (ctx1, os1)" .
  then have "owns (os_fds os0) (os_maps os0) (ctx1, os1)" by (simp add: session_inv_def)
  from hwt_ctx_close_releases [OF this assms(3)] i show ?thesis by (auto simp: session_inv_def MAX_THREADS_def)
qed

definition yes_kernel :: kernel where
  "yes_kernel = \<lparr>k_ok = (\<lambda>n. True), k_maxname = 256, k_ident = 3, k_records = (\<lambda>n. []), k_bufptr = (\<lambda>n. (0, 8)),
     k_write = (\<lambda>n r. int r), k_buf = (\<lambda>fd. replicate 4096 7)\<rparr>"

definition os_start :: os where
  "os_start = \<lparr>os_n = 0, os_fds = [2, 1, 0], os_maps = [], os_files = (\<lambda>p. None), os_log = [], os_opens = []\<rparr>"

lemma yes_open [simp]:
  "sys_open yes_kernel p os = (lowest_fd (os_fds os),
     os\<lparr>os_n := os_n os + 1, os_fds := lowest_fd (os_fds os) # os_fds os, os_opens := os_opens os @ [p]\<rparr>)"
  "sys_ioctl yes_kernel c os = (True, os\<lparr>os_n := os_n os + 1, os_log := os_log os @ [(c, True)]\<rparr>)"
  by (simp_all add: sys_open_def sys_ioctl_def os_answer_def yes_kernel_def)

lemma yes_alloc: "\<exists>s. hwt_ctx_alloc yes_kernel 1 100 0 4096 (Some ''pt'') os_start = (0, s)"
  by (simp add: hwt_ctx_alloc_def Let_def lowest_fd_free(2) not_less yes_kernel_def [THEN arg_cong, of k_maxname])

theorem hwt_session_releases_witness:
  "\<exists>s ctx1 os1 ctx2 os2. hwt_ctx_alloc yes_kernel 1 100 0 4096 (Some ''pt'') os_start = (0, s) \<and>
     hwt_step yes_kernel s (ctx1, os1) \<and> hwt_ctx_close yes_kernel (ctx1, os1) = (ctx2, os2) \<and>
     mset (os_fds os2) = {#0, 1, 2#}"
proof -
  obtain s where s: "hwt_ctx_alloc yes_kernel 1 100 0 4096 (Some ''pt'') os_start = (0, s)" using yes_alloc by blast
  obtain rc ctx1 os1 where t: "hwt_ctx_open_thread yes_kernel 5 s = (rc, ctx1, os1)" by (metis prod.exhaust)
  then have st: "hwt_step yes_kernel s (ctx1, os1)" by (rule step_thread)
  obtain ctx2 os2 where c: "hwt_ctx_close yes_kernel (ctx1, os1) = (ctx2, os2)" by fastforce
  from hwt_session_releases [OF s r_into_rtranclp [of "hwt_step yes_kernel", OF st] c] have "mset (os_fds os2) = {#0, 1, 2#}"
    by (simp add: os_start_def add_mset_commute)
  with s st c show ?thesis by blast
qed

section \<open>Configuration\<close>

text \<open>
  The control word sent to the PT backend: user-mode tracing and branch packets are always on; the
  two PTWRITE bits, kernel tracing and time stamps are on exactly when the options ask for them; no other
  bit is ever set (in particular none of the bits the driver manages itself), and at most two address
  ranges are copied, unchanged and in order.
\<close>

theorem pt_config_bits:
  "(bit (pc_rtit_ctl (pt_config ctx)) n \<longleftrightarrow>
      n = 3 \<or> n = 13 \<or> (n = 12 \<or> n = 5) \<and> hc_ptwrite ctx \<or> n = 2 \<and> hc_os_trace ctx \<or>
      n = 10 \<and> (0 < hc_mtc_freq ctx \<or> 0 < hc_cyc_thresh ctx)) \<and>
   pc_ip_ranges (pt_config ctx) = take 2 (hc_filter ctx) \<and> pc_cr3_filter (pt_config ctx) = 0"
proof -
  have b: "bit (push_bit k 1 :: u64) n \<longleftrightarrow> n = k" if "k < 64" for k
    using that by (auto simp: bit_exp_iff)
  show ?thesis
    by (simp add: pt_config_def Let_def bit_or_iff b RTIT_CTL_OS_def RTIT_CTL_USER_def RTIT_CTL_FUPONPTW_def
        RTIT_CTL_TSCEN_def RTIT_CTL_PTWEN_def RTIT_CTL_BRANCHEN_def del: push_bit_of_1 split: if_split)
qed

lemma word_and_not_mask: "x AND NOT (mask n) = x - take_bit n (x :: 'a::len word)"
proof -
  have "x = (x AND mask n) + (x AND NOT (mask n))"
    by (subst disjunctive_add) (auto simp: bit_simps bit_eq_iff)
  then show ?thesis by (simp add: take_bit_eq_mask algebra_simps)
qed

text \<open>The buffer size is rounded up to whole pages, unless the rounding wraps.\<close>

lemma round_page_up:
  assumes "unat sz \<le> 2 ^ 64 - PAGE_SIZE"
  shows "unat (round_page sz) = (unat sz + (PAGE_SIZE - 1)) div PAGE_SIZE * PAGE_SIZE"
proof -
  let ?x = "sz + of_nat PAGE_SIZE - 1"
  have m: "(of_nat PAGE_SIZE - 1 :: u64) = mask 12" by (simp add: PAGE_SIZE_def mask_eq_exp_minus_1)
  have "?x = sz + 4095" by (simp add: PAGE_SIZE_def)
  then have x: "unat ?x = unat sz + 4095"
    using assms by (simp add: PAGE_SIZE_def unat_word_ariths)
  have "unat (round_page sz) = unat (?x - take_bit 12 ?x)" unfolding round_page_def m word_and_not_mask ..
  also have "\<dots> = unat ?x - unat (take_bit 12 ?x)"
    by (rule unat_sub) (simp add: word_le_nat_alt unsigned_take_bit_eq)
  also have "unat (take_bit 12 ?x) = take_bit 12 (unat ?x)" by (rule unsigned_take_bit_eq)
  also have "take_bit 12 (unat ?x) = unat ?x mod 4096" by (simp add: take_bit_eq_mod)
  also have "unat ?x - unat ?x mod 4096 = unat ?x div 4096 * 4096" by (simp add: minus_mod_eq_div_mult)
  finally show ?thesis unfolding x by (simp add: PAGE_SIZE_def)
qed

section \<open>Snapshots\<close>

text \<open>What POSIX says of \<open>write\<close> on a regular file: an error, or at least one and at most all bytes.\<close>

definition write_sane :: "kernel \<Rightarrow> bool" where
  "write_sane K \<longleftrightarrow> (\<forall>n len. 0 < len \<longrightarrow> k_write K n len \<noteq> 0 \<and> k_write K n len \<le> int len)"

lemma write_loop_copies:
  assumes "write_sane K" "t \<le> length buf"
  shows "off \<le> t \<Longrightarrow> os_files os path = Some (take off buf) \<Longrightarrow>
    \<exists>ok off' os'. write_loop K path buf t off os = Some (ok, off', os') \<and> off' \<le> t \<and>
      os_files os' path = Some (take off' buf) \<and> (ok \<longrightarrow> off' = t) \<and> (\<forall>p. p \<noteq> path \<longrightarrow> os_files os' p = os_files os p)"
proof (induction "t - off" arbitrary: off os rule: less_induct)
  case less
  show ?case
  proof (cases "off < t")
    case False
    then show ?thesis using less.prems write_loop.simps [of K path buf t off os] by auto
  next
    case True
    let ?bs = "drop off (take t buf)"
    have len: "length ?bs = t - off" using assms(2) by simp
    define nw where "nw = k_write K (os_n os) (length ?bs)"
    have nw: "nw \<noteq> 0" "nw \<le> int (t - off)"
      using assms(1) [unfolded write_sane_def, rule_format, of "t - off" "os_n os"] True unfolding nw_def len by auto
    show ?thesis
    proof (cases "nw < 0")
      case neg: True
      then have "sys_write K path ?bs os = (nw, os\<lparr>os_n := os_n os + 1\<rparr>)" by (simp add: sys_write_def nw_def Let_def)
      then show ?thesis using neg True less.prems write_loop.simps [of K path buf t off os] by auto
    next
      case pos: False
      define os1 where "os1 = file_append path (take (nat nw) ?bs) (os\<lparr>os_n := os_n os + 1\<rparr>)"
      have w: "sys_write K path ?bs os = (nw, os1)" using pos by (simp add: sys_write_def nw_def os1_def Let_def)
      have "take (nat nw) ?bs = drop off (take (off + nat nw) buf)" using nw(2) True
        by (simp add: take_drop min_def add.commute)
      then have f: "os_files os1 path = Some (take (off + nat nw) buf)"
        using less.prems(2) by (simp add: os1_def file_append_def) (metis append_take_drop_id le_add1 min.absorb1 take_take)
      have o: "\<forall>p. p \<noteq> path \<longrightarrow> os_files os1 p = os_files os p" by (simp add: os1_def file_append_def)
      have "t - (off + nat nw) < t - off" "off + nat nw \<le> t" using nw pos True by auto
      from less.hyps [OF this f] obtain ok off' os' where
        "write_loop K path buf t (off + nat nw) os1 = Some (ok, off', os')" "off' \<le> t"
        "os_files os' path = Some (take off' buf)" "ok \<longrightarrow> off' = t" "\<forall>p. p \<noteq> path \<longrightarrow> os_files os' p = os_files os1 p" by blast
      then show ?thesis using True pos w o write_loop.simps [of K path buf t off os]
        by (intro exI [of _ ok] exI [of _ off'] exI [of _ os']) simp
    qed
  qed
qed

lemma snapshot_copy:
  assumes "write_sane K" "\<forall>fd. length (k_buf K fd) = unat (hc_bufsize ctx)" "unat (hc_bufsize ctx) < 2 ^ 63" "0 \<le> page"
  shows "\<exists>rc ctx' os'. hwt_ctx_snapshot_buffer K path page off (ctx, os) = Some (rc, ctx', os') \<and>
           rc \<le> int (unat (hc_bufsize ctx)) \<and> rc \<le> uint (of_int page * of_nat PAGE_SIZE + off) \<and>
           (0 < rc \<longrightarrow> (\<exists>h. hc_trace_buf ctx' = Some h \<and> os_files os' path = Some (take (nat rc) (map_bytes K h))) \<and>
                       (\<forall>p. p \<noteq> path \<longrightarrow> os_files os' p = os_files os p))"
proof -
  obtain h ctx1 os1 where m: "hwt_ctx_map_buffer K (ctx, os) = (h, ctx1, os1)" by (metis prod.exhaust)
  have m1: "hc_bufsize ctx1 = hc_bufsize ctx" "h \<noteq> None \<longrightarrow> hc_trace_buf ctx1 = h" "os_files os1 = os_files os"
    using m by (auto simp: hwt_ctx_map_buffer_def sys_mmap_def os_answer_def split: option.splits if_splits)
  let ?t0 = "of_int page * of_nat PAGE_SIZE + off"
  define t where "t = (if ?t0 > hc_bufsize ctx then hc_bufsize ctx else ?t0)"
  have t: "unat t \<le> unat (hc_bufsize ctx)" "uint t \<le> uint ?t0" "0 \<le> uint ?t0"
    by (auto simp: t_def word_le_nat_alt [symmetric] word_less_nat_alt [symmetric] word_less_def not_less word_le_def)
  have "unat t < 2 ^ 63" using t(1) assms(3) by (rule le_less_trans)
  then have "int (unat t) < int (2 ^ 63)" by (simp only: of_nat_less_iff)
  then have "uint t < 2 ^ 63" by simp
  then have "signed_take_bit 63 (uint t) = uint t"
    by (intro signed_take_bit_int_eq_self) (use uint_ge_0 [of t] in linarith, assumption)
  then have st: "sint t = int (unat t)" by (simp add: sint_uint)
  obtain fd os2 where c: "sys_creat K path os1 = (fd, os2)" by fastforce
  have neg: "- 1 \<le> uint w" for w :: u64 using uint_ge_0 [of w] by linarith
  show ?thesis
  proof (cases h)
    case None
    then show ?thesis using m assms(4) neg by (simp add: hwt_ctx_snapshot_buffer_def)
  next
    case (Some x)
    have unf: "hwt_ctx_snapshot_buffer K path page off (ctx, os) =
      (if t = 0 then Some (0, ctx1, os1) else if fd < 0 then Some (- 1, ctx1, os2)
       else do { (ok, off', os3) \<leftarrow> write_loop K path (map_bytes K x) (unat t) 0 os2;
                 Some (if ok then sint t else - 1, ctx1, sys_close fd os3) })"
      unfolding hwt_ctx_snapshot_buffer_def m Some prod.case option.case Let_def m1(1) t_def [symmetric] c
      using assms(4) by simp
    have f2: "os_files os2 path = Some []" "\<forall>p. p \<noteq> path \<longrightarrow> os_files os2 p = os_files os p" if "\<not> fd < 0"
      using c that m1(3) sys_open_effect by (auto simp: sys_creat_def split: prod.splits if_splits)
    have len: "unat t \<le> length (map_bytes K x)" using t(1) assms(2) by (simp add: map_bytes_def)
    show ?thesis
    proof (cases "t = 0 \<or> fd < 0")
      case True
      then show ?thesis using unf neg by auto
    next
      case False
      then obtain ok off' os3 where w: "write_loop K path (map_bytes K x) (unat t) 0 os2 = Some (ok, off', os3)"
        "os_files os3 path = Some (take off' (map_bytes K x))" "ok \<longrightarrow> off' = unat t"
        "\<forall>p. p \<noteq> path \<longrightarrow> os_files os3 p = os_files os2 p"
        using write_loop_copies [OF assms(1) len, of 0 os2 path] f2 by auto
      have "uint t \<le> uint (hc_bufsize ctx)" "nat (uint t) = unat t"
        using t(1) by (simp_all add: word_le_def [symmetric] word_le_nat_alt)
      then show ?thesis using unf False w f2 m1(2) Some st t neg by (cases x) (auto simp: sys_close_def)
    qed
  qed
qed

text \<open>
  C20. A snapshot is a faithful copy. For a buffer of \<open>bufsize\<close> bytes the snapshot call always returns;
  it never reports more bytes than the buffer holds nor than the position it was given, and when it
  reports a positive count then the file holds exactly that many bytes from the start of the trace
  buffer, and no other file has changed.
\<close>

theorem snapshot_copies_buffer:
  assumes "write_sane K" "\<forall>fd. length (k_buf K fd) = unat (hc_bufsize ctx)" "unat (hc_bufsize ctx) < 2 ^ 63" "0 \<le> page"
  shows "\<exists>rc ctx' os'. hwt_ctx_snapshot_buffer K path page off (ctx, os) = Some (rc, ctx', os') \<and>
           rc \<le> int (unat (hc_bufsize ctx)) \<and> rc \<le> uint (of_int page * of_nat PAGE_SIZE + off) \<and>
           (0 < rc \<longrightarrow> (\<exists>h. hc_trace_buf ctx' = Some h \<and> os_files os' path = Some (take (nat rc) (map_bytes K h))) \<and>
                       (\<forall>p. p \<noteq> path \<longrightarrow> os_files os' p = os_files os p))"
  by (rule snapshot_copy [OF assms])

theorem snapshot_copies_buffer_witness:
  "\<exists>rc ctx' os'. hwt_ctx_snapshot_buffer yes_kernel ''out.pt'' 0 8
     ((hwt_ctx_zero 1 100 0)\<lparr>hc_bufsize := 4096\<rparr>, os_start) = Some (rc, ctx', os') \<and> rc \<le> 8"
proof -
  have h: "write_sane yes_kernel" "\<forall>fd. length (k_buf yes_kernel fd) = unat (hc_bufsize ((hwt_ctx_zero 1 100 0)\<lparr>hc_bufsize := 4096\<rparr>))"
    "unat (hc_bufsize ((hwt_ctx_zero 1 100 0)\<lparr>hc_bufsize := 4096\<rparr>)) < 2 ^ 63" "0 \<le> (0::int)"
    by (simp_all add: write_sane_def yes_kernel_def)
  from snapshot_copies_buffer [OF h, of "''out.pt''" 8 os_start] show ?thesis by auto
qed

end
