(* ===== verification/Snapshot.thy ===== *)
theory Snapshot
  imports Trace_State Decode_Props Hwt_Props
begin

text \<open>
  \<open>trace.c\<close>, the end of a session: how much of a trace buffer is data, saving and decoding the buffers
  of all threads, and \<open>trace_finalize\<close>. libipt on a given piece of a buffer is the parameter
  \<open>E :: bytes \<Rightarrow> decode_env\<close>; the driver is the \<open>kernel\<close> of the HWT session. The lemmas show that the length is
  one of the two candidates and never exceeds the buffer, what the saved files hold, and that everything is
  released at the end.
\<close>

section \<open>How much of the buffer is data\<close>

fun pt_scan_last_nonzero :: "bytes \<Rightarrow> nat \<Rightarrow> nat" where
  "pt_scan_last_nonzero buf 0 = 0"
| "pt_scan_last_nonzero buf (Suc n) = (if buf ! n = 0 then pt_scan_last_nonzero buf n else Suc n)"

definition probe_result_better :: "decode_probe_result \<Rightarrow> decode_probe_result \<Rightarrow> bool" where
  "probe_result_better a b =
     (if pr_exec_hits a \<noteq> pr_exec_hits b then pr_exec_hits a > pr_exec_hits b else pr_total a > pr_total b)"

text \<open>The choice when there are sections to decode with, from the two probes.\<close>

definition choose_by_probe :: "nat \<Rightarrow> nat \<Rightarrow> int \<times> decode_probe_result \<Rightarrow> int \<times> decode_probe_result \<Rightarrow> nat" where
  "choose_by_probe base_len scan_end b s =
     (let base_ok = (fst b = 0); scan_ok = (fst s = 0)
      in if scan_ok \<and> (\<not> base_ok \<or> probe_result_better (snd s) (snd b)) then scan_end
         else if \<not> base_ok \<and> \<not> scan_ok \<and> scan_end < base_len then scan_end
         else base_len)"

definition choose_snapshot_len ::
  "(bytes \<Rightarrow> ('d, 'p) decode_env) \<Rightarrow> bytes option \<Rightarrow> nat \<Rightarrow> nat \<Rightarrow> pt_image_info list \<Rightarrow> nat option" where
  "choose_snapshot_len E buf bufsz base_len0 sections =
     (case buf of
        None \<Rightarrow> Some 0
      | Some bs \<Rightarrow>
          if bufsz = 0 then Some 0
          else let base_len = (if base_len0 > bufsz then bufsz else base_len0);
                   scan_end = pt_scan_last_nonzero bs bufsz
               in if base_len = 0 then Some scan_end
                  else if scan_end = 0 \<or> scan_end = base_len then Some base_len
                  else do {
                    chosen \<leftarrow> (if sections \<noteq> []
                              then do { b \<leftarrow> decode_pt_probe (E (take base_len bs)) False base_len sections;
                                        s \<leftarrow> decode_pt_probe (E (take scan_end bs)) False scan_end sections;
                                        Some (choose_by_probe base_len scan_end b s) }
                              else if scan_end < base_len then Some scan_end else Some base_len);
                    Some (if chosen = base_len \<and> base_len < PAGE_SIZE \<and> scan_end > base_len then scan_end else chosen) })"

section \<open>Paths\<close>

definition has_pt_suffix :: "string \<Rightarrow> bool" where
  "has_pt_suffix p \<longleftrightarrow> length p > 3 \<and> drop (length p - 3) p = ''.pt''"

definition derive_meta_path :: "string \<Rightarrow> nat \<Rightarrow> string" where
  "derive_meta_path pt_output meta_pathsz =
     (if has_pt_suffix pt_output then take (meta_pathsz - 1) (take (length pt_output - 3) pt_output @ ''.meta'')
      else take (meta_pathsz - 1) (pt_output @ ''.meta''))"

definition thread_path :: "string \<Rightarrow> int \<Rightarrow> string" where
  "thread_path pt_output tid =
     (let baselen = (if has_pt_suffix pt_output then length pt_output - 3 else length pt_output)
      in take (MAXPATHLEN - 1) (take baselen pt_output @ ''-tid'' @ fmt_d tid @ ''.pt''))"

section \<open>Saving and decoding\<close>

type_synonym session = "hwt_ctx \<times> os"

definition string_bytes :: "string \<Rightarrow> bytes" where
  "string_bytes s = map of_char s"

text \<open>The sidecar of one additional thread: opened, filled and closed.\<close>

definition write_thread_meta :: "kernel \<Rightarrow> string \<Rightarrow> hwt_ctx \<Rightarrow> int \<Rightarrow> pt_image_info list \<Rightarrow> os \<Rightarrow> os" where
  "write_thread_meta K path ctx tid sections os =
     (case sys_creat K path os of (fd, os1) \<Rightarrow>
        if fd < 0 then os1
        else let w = meta_writer_sections (meta_writer_timing (meta_writer_header (meta_writer_open True) (hc_pid ctx) tid)
                       (ucast (hc_mtc_freq ctx)) (ucast (hc_cyc_thresh ctx))) sections
             in sys_close fd (file_append path (string_bytes (the (meta_writer_close w))) os1))"

definition buffer_pos :: "int \<times> u64 \<Rightarrow> u64" where
  "buffer_pos p = of_int (fst p) * of_nat PAGE_SIZE + snd p"

text \<open>
  One additional thread. The state is the byte count so far, standard output, and the session;
  \<open>dopts\<close> are the options but for the thread id.
\<close>

definition snapshot_thread ::
  "kernel \<Rightarrow> (bytes \<Rightarrow> ('d, 'p) decode_env) \<Rightarrow> pt_image_info list \<Rightarrow> string \<Rightarrow> bsdtrace_fmt \<Rightarrow> pt_decode_opts \<Rightarrow>
   int \<times> string \<times> session \<Rightarrow> nat \<Rightarrow> (int \<times> string \<times> session) option" where
  "snapshot_thread K E sections pt_output fmt dopts = (\<lambda>(saved, out, s) i.
     let tc = hc_threads (fst s) ! i;
         (pos, os1) = hwt_ctx_bufptr_get_fd K (tc_fd tc) (snd s);
         tlen0 = (case pos of None \<Rightarrow> 0 | Some p \<Rightarrow> if buffer_pos p > hc_bufsize (fst s) then 0 else buffer_pos p);
         (h, ctx, os2) = map_thread_buffer K i (fst s, os1)
     in case h of
          None \<Rightarrow> Some (saved, out, ctx, os2)
        | Some m \<Rightarrow> do {
            tlen \<leftarrow> choose_snapshot_len E (Some (map_bytes K m)) (unat (hc_bufsize ctx)) (unat tlen0) sections;
            if tlen = 0 then Some (saved, out, ctx, os2)
            else let tpath = thread_path pt_output (tc_thread_id tc);
                     (fd, os3) = sys_creat K tpath os2
                 in if fd < 0 then Some (saved, out, ctx, os3)
                    else do {
                      (ok, toff, os4) \<leftarrow> write_loop K tpath (map_bytes K m) tlen 0 os3;
                      let os5 = sys_close fd os4;
                      if toff \<noteq> tlen then Some (saved, out, ctx, os5)
                      else do {
                        let os6 = write_thread_meta K (derive_meta_path tpath MAXPATHLEN) ctx (tc_thread_id tc) sections os5;
                        let out1 = out @ (if fmt = FMT_TEXT then ''Thread '' @ fmt_d (tc_thread_id tc) @ '':'' @ nl else []);
                        r \<leftarrow> decode_pt_insn (E (take tlen (map_bytes K m))) False tlen sections fmt
                               (Some (dopts\<lparr>do_tid := tc_thread_id tc\<rparr>));
                        Some (if saved \<ge> 0 then saved + int tlen else saved, out1 @ dr_out r, ctx, os6) } } })"

fun snapshot_threads ::
  "kernel \<Rightarrow> (bytes \<Rightarrow> ('d, 'p) decode_env) \<Rightarrow> pt_image_info list \<Rightarrow> string \<Rightarrow> bsdtrace_fmt \<Rightarrow> pt_decode_opts \<Rightarrow>
   nat list \<Rightarrow> int \<times> string \<times> session \<Rightarrow> (int \<times> string \<times> session) option" where
  "snapshot_threads K E sections pt_output fmt dopts [] s = Some s"
| "snapshot_threads K E sections pt_output fmt dopts (i # is) s =
     Option.bind (snapshot_thread K E sections pt_output fmt dopts s i) (snapshot_threads K E sections pt_output fmt dopts is)"

text \<open>The extent that the stop pointer and the last BUFFER record report.\<close>

definition known_end :: "u64 \<Rightarrow> (int \<times> u64) option \<Rightarrow> trace_state \<Rightarrow> u64" where
  "known_end bufsize pos ts =
     (let stop0 = (case pos of None \<Rightarrow> 0 | Some p \<Rightarrow> buffer_pos p);
          record0 = (if ts_last_buf_page ts \<ge> 0 then buffer_pos (ts_last_buf_page ts, ts_last_buf_offset ts) else 0);
          stop_len = (if stop0 > bufsize then 0 else stop0);
          record_len = (if record0 > bufsize then 0 else record0)
      in if stop_len = 0 \<or> (record_len > 0 \<and> stop_len < record_len) then record_len else stop_len)"

definition decode_opts :: "hwt_ctx \<Rightarrow> pt_decode_opts option \<Rightarrow> pt_decode_opts" where
  "decode_opts ctx opts =
     \<lparr>do_tid = (case opts of Some q \<Rightarrow> do_tid q | None \<Rightarrow> hc_tid ctx), do_mtc_freq = ucast (hc_mtc_freq ctx),
      do_cyc_thresh = ucast (hc_cyc_thresh ctx),
      do_filter_funcs = (case opts of Some q \<Rightarrow> do_filter_funcs q | None \<Rightarrow> [])\<rparr>"

definition snapshot_and_decode ::
  "kernel \<Rightarrow> (bytes \<Rightarrow> ('d, 'p) decode_env) \<Rightarrow> trace_state \<Rightarrow> string \<Rightarrow> bsdtrace_fmt \<Rightarrow> pt_decode_opts option \<Rightarrow>
   session \<Rightarrow> (int \<times> string \<times> session) option" where
  "snapshot_and_decode K E ts pt_output fmt opts s =
     (let (pos, s1) = hwt_ctx_bufptr_get K s;
          (h, s2) = hwt_ctx_map_buffer K s1
      in case h of
           None \<Rightarrow> Some (- 1, [], s2)
         | Some m \<Rightarrow> do {
             let ctx = fst s2;
             let buf = map_bytes K m;
             let dopts = decode_opts ctx opts;
             actual_len \<leftarrow> choose_snapshot_len E (Some buf) (unat (hc_bufsize ctx))
                             (unat (known_end (hc_bufsize ctx) pos ts)) (ts_sections ts);
             if actual_len = 0 then Some (0, [], s2)
             else do {
               (saved, s3) \<leftarrow> hwt_ctx_snapshot_buffer K pt_output (int (actual_len div PAGE_SIZE))
                               (of_nat (actual_len mod PAGE_SIZE)) s2;
               out \<leftarrow> (if saved > 0
                      then map_option dr_out (decode_pt_insn (E (take (nat saved) buf)) False (nat saved) (ts_sections ts) fmt (Some dopts))
                      else Some []);
               if (hc_all_threads (fst s3) \<or> hc_requested_tids (fst s3) \<noteq> []) \<and> hc_threads (fst s3) \<noteq> []
               then snapshot_threads K E (ts_sections ts) pt_output fmt dopts [0..<length (hc_threads (fst s3))] (saved, out, s3)
               else Some (saved, out, s3) } })"

section \<open>The length\<close>

lemma scan_bound: "pt_scan_last_nonzero buf n \<le> n"
  by (induction n) (auto simp: le_SucI)

lemma scan_last:
  "(\<forall>i. pt_scan_last_nonzero buf n \<le> i \<and> i < n \<longrightarrow> buf ! i = 0) \<and>
   (0 < pt_scan_last_nonzero buf n \<longrightarrow> buf ! (pt_scan_last_nonzero buf n - 1) \<noteq> 0)"
proof (induction n)
  case (Suc n)
  show ?case
  proof (cases "buf ! n = 0")
    case True
    then show ?thesis using Suc by (auto simp: less_Suc_eq)
  qed auto
qed simp

text \<open>What is relied on of libipt, libelf and libdwarf for one buffer.\<close>

definition ipt_sound :: "('d, 'p) decode_env \<Rightarrow> bool" where
  "ipt_sound E \<longleftrightarrow>
     (\<exists>left ahead. insn_progress (de_insn E) left ahead) \<and> (\<exists>left ahead. pkt_progress (de_pkt E) left ahead) \<and>
     de_ct_alloc E \<and> fds_valid (de_dwarf E)"

lemma probe_returns:
  assumes "ipt_sound E"
  shows "\<exists>r. decode_pt_probe E nul len sections = Some r"
proof -
  obtain left ahead where p: "insn_progress (de_insn E) left ahead" using assms by (auto simp: ipt_sound_def)
  have l: "\<exists>p'. insn_loop (de_insn E) (probe_item st rs bins) sd q = Some p'" for st rs bins sd q
    using insn_loop_collected [OF p, of sd "probe_item st rs bins"] by (auto simp: probe_run)
  show ?thesis
  proof (cases "build_pt_image (de_elf E) (de_img_alloc E) (de_add E) sections (sym_table_init (de_heap E))")
    case (Pair img st)
    show ?thesis
    proof (cases img)
      case None
      then show ?thesis using Pair by (simp add: decode_pt_probe_def)
    next
      case (Some i)
      show ?thesis
      proof (cases "Option.bind (de_alloc E 0) (de_set_image E i)")
        case None
        then show ?thesis using Pair Some by (auto simp: decode_pt_probe_def Let_def bind_eq_None_conv split: option.splits)
      next
        case (Some d)
        then obtain d0 where "de_alloc E 0 = Some d0" "de_set_image E i d0 = Some d" by (auto simp: bind_eq_Some_conv)
        moreover obtain q where "insn_loop (de_insn E) (probe_item st (build_bin_ranges (de_elf E) sections MAX_BIN_RANGES)
            (collect_exec_binaries sections 16)) (in_sync (de_insn E) d) probe_zero = Some q" using l by blast
        ultimately show ?thesis using Pair \<open>img = Some i\<close> by (simp add: decode_pt_probe_def Let_def)
      qed
    qed
  qed
qed

lemma choose_len:
  assumes "\<forall>bs. ipt_sound (E bs)" "0 < bufsz"
  shows "\<exists>n. choose_snapshot_len E (Some buf) bufsz base_len sections = Some n \<and> n \<le> bufsz \<and>
           (n = min base_len bufsz \<or> n = pt_scan_last_nonzero buf bufsz) \<and>
           (n = 0 \<longleftrightarrow> base_len = 0 \<and> (\<forall>i < bufsz. buf ! i = 0)) \<and>
           (base_len < PAGE_SIZE \<and> base_len < pt_scan_last_nonzero buf bufsz \<longrightarrow> n = pt_scan_last_nonzero buf bufsz)"
proof -
  define b where "b = (if base_len > bufsz then bufsz else base_len)"
  define e where "e = pt_scan_last_nonzero buf bufsz"
  obtain pb ps where p: "decode_pt_probe (E (take b buf)) False b sections = Some pb"
    "decode_pt_probe (E (take e buf)) False e sections = Some ps"
    using probe_returns assms(1) by meson
  have e: "e \<le> bufsz" unfolding e_def by (rule scan_bound)
  have z: "e = 0 \<longleftrightarrow> (\<forall>i < bufsz. buf ! i = 0)"
    using scan_last [of buf bufsz] e unfolding e_def [symmetric]
    by (metis diff_less gr0I less_le_trans zero_le zero_less_one)
  define c where "c = (if sections \<noteq> [] then choose_by_probe b e pb ps else if e < b then e else b)"
  have c: "c = b \<or> c = e" by (auto simp: c_def choose_by_probe_def Let_def)
  define n where "n = (if b = 0 then e else if e = 0 \<or> e = b then b
    else if c = b \<and> b < PAGE_SIZE \<and> e > b then e else c)"
  have "choose_snapshot_len E (Some buf) bufsz base_len sections = Some n"
    unfolding choose_snapshot_len_def option.case Let_def b_def [symmetric] e_def [symmetric] n_def
    using assms(2) p by (simp add: c_def)
  moreover have "n = b \<or> n = e" using c by (auto simp: n_def)
  moreover have "n = 0 \<longleftrightarrow> b = 0 \<and> e = 0" using c by (auto simp: n_def)
  moreover have "n = e" if "b < PAGE_SIZE" "b < e" using c that by (auto simp: n_def)
  moreover have "b = min base_len bufsz" "b = 0 \<longleftrightarrow> base_len = 0" "b \<le> bufsz" "base_len < e \<longrightarrow> b = base_len"
    using assms(2) e by (auto simp: b_def min_def)
  ultimately show ?thesis using e z unfolding e_def [symmetric] by (intro exI [of _ n] conjI) auto
qed

text \<open>
  C38. The extent of the data. For a buffer of \<open>bufsz\<close> bytes the chosen length is never beyond the
  buffer; it is the reported position (cut to the buffer) or the position behind the last non-zero byte;
  it is 0 exactly when the driver reports 0 and every byte is zero; when the reported position is in the
  first page and data lies behind it, it is the scanned one whatever the two probes say.
\<close>

theorem snapshot_len_sound:
  assumes "\<forall>bs. ipt_sound (E bs)" "0 < bufsz"
  shows "\<exists>n. choose_snapshot_len E (Some buf) bufsz base_len sections = Some n \<and> n \<le> bufsz \<and>
           (n = min base_len bufsz \<or> n = pt_scan_last_nonzero buf bufsz) \<and>
           (n = 0 \<longleftrightarrow> base_len = 0 \<and> (\<forall>i < bufsz. buf ! i = 0)) \<and>
           (base_len < PAGE_SIZE \<and> base_len < pt_scan_last_nonzero buf bufsz \<longrightarrow> n = pt_scan_last_nonzero buf bufsz)"
  by (rule choose_len [OF assms])

lemma sample_env_sound: "ipt_sound sample_env"
proof -
  have "pkt_progress list_decoder (\<lambda>(n, ps). length ps) (\<lambda>(n, ps). n)"
    by (auto simp: pkt_progress_def list_decoder_def split: nat.splits list.splits)
  then show ?thesis using list_insn_progress sample_hyps(2) by (auto simp: ipt_sound_def)
qed

theorem snapshot_len_sound_witness:
  "\<exists>n. choose_snapshot_len (\<lambda>bs. sample_env) (Some [1, 2, 0]) 3 0 one_section = Some n \<and> n \<le> 3"
proof -
  have "\<forall>bs. ipt_sound (sample_env)" "0 < (3::nat)" using sample_env_sound by simp_all
  from snapshot_len_sound [of "\<lambda>bs. sample_env", OF this] show ?thesis by blast
qed

section \<open>Saving\<close>

lemma decode_returns:
  assumes "ipt_sound E" "fmt \<noteq> FMT_COLLAPSED" "fmt \<noteq> FMT_SPEEDSCOPE"
  shows "\<exists>r. decode_pt_insn E nul len sections fmt opts = Some r"
proof -
  obtain left ahead where p: "insn_progress (de_insn E) left ahead" using assms by (auto simp: ipt_sound_def)
  have pk: "\<exists>x. decode_pt_buffer (de_pkt E) (de_pkt_alloc E) nul len fmt = Some x"
    using assms decode_buffer_returns by (fastforce simp: ipt_sound_def)
  obtain ct where ct: "calltree_init (de_ct_alloc E) = Some ct"
    using assms(1) by (simp add: ipt_sound_def calltree_init_def)
  obtain img st where b: "build_pt_image (de_elf E) (de_img_alloc E) (de_add E) sections (sym_table_init (de_heap E)) = (img, st)"
    by fastforce
  consider "nul \<or> len = 0 \<or> sections = [] \<or> img = None"
    | i where "\<not> nul" "0 < len" "sections \<noteq> []" "img = Some i" "Option.bind (de_alloc E (opt_mtc opts)) (de_set_image E i) = None"
    | i d where "\<not> nul" "0 < len" "sections \<noteq> []" "img = Some i" "Option.bind (de_alloc E (opt_mtc opts)) (de_set_image E i) = Some d"
    by fastforce
  then show ?thesis
  proof cases
    case 1
    then show ?thesis using pk ct b by (auto simp: decode_pt_insn_def)
  next
    case 2
    then show ?thesis using ct b by (simp add: decode_pt_insn_def Let_def)
  next
    case 3
    with assms b decode_insn_correct [OF p _ _ 3(2,3) _ 3(5) assms(2,3), of st]
    show ?thesis by (auto simp: ipt_sound_def)
  qed
qed

lemma choose_returns:
  assumes "\<forall>bs. ipt_sound (E bs)"
  shows "\<exists>n. choose_snapshot_len E (Some buf) bufsz base_len sections = Some n \<and> n \<le> bufsz"
  using choose_len [OF assms, of bufsz buf base_len sections]
  by (cases "bufsz = 0") (auto simp: choose_snapshot_len_def)

lemma creat_file: "sys_creat K path os = (fd, os1) \<Longrightarrow> \<not> fd < 0 \<Longrightarrow> os_files os1 path = Some []"
  by (auto simp: sys_creat_def split: prod.splits if_splits)

lemma map_thread_bufsize: "map_thread_buffer K i s = (h, s') \<Longrightarrow> hc_bufsize (fst s') = hc_bufsize (fst s)"
  by (auto simp: map_thread_buffer_def Let_def split: prod.splits option.splits)

definition buffers_mapped :: "kernel \<Rightarrow> u64 \<Rightarrow> bool" where
  "buffers_mapped K bufsize \<longleftrightarrow> (\<forall>fd. length (k_buf K fd) = unat bufsize)"

lemma snapshot_thread_returns:
  assumes "\<forall>bs. ipt_sound (E bs)" "fmt \<noteq> FMT_COLLAPSED" "fmt \<noteq> FMT_SPEEDSCOPE" "write_sane K"
    and "buffers_mapped K (hc_bufsize (fst s))"
  shows "\<exists>saved' out' s'. snapshot_thread K E sections pt fmt dopts (saved, out, s) i = Some (saved', out', s') \<and>
           hc_bufsize (fst s') = hc_bufsize (fst s)"
proof -
  obtain ctx os where s: "s = (ctx, os)" by (cases s)
  obtain pos os1 where p: "hwt_ctx_bufptr_get_fd K (tc_fd (hc_threads ctx ! i)) os = (pos, os1)" by fastforce
  obtain h ctx1 os2 where h: "map_thread_buffer K i (ctx, os1) = (h, ctx1, os2)" by (metis prod.exhaust)
  have sz: "hc_bufsize ctx1 = hc_bufsize ctx" using map_thread_bufsize [OF h] by simp
  define t0 where "t0 = (case pos of None \<Rightarrow> 0 | Some p \<Rightarrow> if buffer_pos p > hc_bufsize ctx then 0 else buffer_pos p)"
  show ?thesis
  proof (cases h)
    case None
    then show ?thesis using p h sz by (simp add: snapshot_thread_def s)
  next
    case (Some m)
    obtain n where n: "choose_snapshot_len E (Some (map_bytes K m)) (unat (hc_bufsize ctx1)) (unat t0) sections = Some n"
      "n \<le> unat (hc_bufsize ctx1)" using choose_returns [OF assms(1)] by blast
    let ?tp = "thread_path pt (tc_thread_id (hc_threads ctx ! i))"
    obtain fd os3 where c: "sys_creat K ?tp os2 = (fd, os3)" by fastforce
    have len: "n \<le> length (map_bytes K m)" using n(2) assms(5) sz by (simp add: s map_bytes_def buffers_mapped_def)
    have unf: "snapshot_thread K E sections pt fmt dopts (saved, out, s) i =
      (if n = 0 then Some (saved, out, ctx1, os2)
       else if fd < 0 then Some (saved, out, ctx1, os3)
       else do {
         (ok, toff, os4) \<leftarrow> write_loop K ?tp (map_bytes K m) n 0 os3;
         let os5 = sys_close fd os4;
         if toff \<noteq> n then Some (saved, out, ctx1, os5)
         else do {
           let os6 = write_thread_meta K (derive_meta_path ?tp MAXPATHLEN) ctx1 (tc_thread_id (hc_threads ctx ! i)) sections os5;
           let out1 = out @ (if fmt = FMT_TEXT then ''Thread '' @ fmt_d (tc_thread_id (hc_threads ctx ! i)) @ '':'' @ nl else []);
           r \<leftarrow> decode_pt_insn (E (take n (map_bytes K m))) False n sections fmt
                  (Some (dopts\<lparr>do_tid := tc_thread_id (hc_threads ctx ! i)\<rparr>));
           Some (if saved \<ge> 0 then saved + int n else saved, out1 @ dr_out r, ctx1, os6) } })"
      unfolding snapshot_thread_def prod.case s fst_conv snd_conv Let_def p h Some option.case t0_def [symmetric]
      using n(1) c by simp
    show ?thesis
    proof (cases "n = 0 \<or> fd < 0")
      case True
      then show ?thesis using unf sz by (auto simp: s)
    next
      case False
      obtain ok off os4 where "write_loop K ?tp (map_bytes K m) n 0 os3 = Some (ok, off, os4)"
        using write_loop_copies [OF assms(4) len, of 0 os3 ?tp] creat_file [OF c] False by auto
      moreover obtain r where "decode_pt_insn (E (take n (map_bytes K m))) False n sections fmt
          (Some (dopts\<lparr>do_tid := tc_thread_id (hc_threads ctx ! i)\<rparr>)) = Some r"
        using decode_returns assms(1-3) by metis
      ultimately show ?thesis using unf sz False by (simp add: s Let_def)
    qed
  qed
qed

lemma snapshot_threads_return:
  assumes "\<forall>bs. ipt_sound (E bs)" "fmt \<noteq> FMT_COLLAPSED" "fmt \<noteq> FMT_SPEEDSCOPE" "write_sane K"
  shows "buffers_mapped K (hc_bufsize (fst s)) \<Longrightarrow>
    \<exists>x. snapshot_threads K E sections pt fmt dopts is (saved, out, s) = Some x"
proof (induction "is" arbitrary: saved out s)
  case (Cons i js)
  obtain saved' out' s' where "snapshot_thread K E sections pt fmt dopts (saved, out, s) i = Some (saved', out', s')"
    "hc_bufsize (fst s') = hc_bufsize (fst s)"
    using snapshot_thread_returns [OF assms Cons.prems] by blast
  with Cons show ?case by simp
qed simp

lemma map_buffer_ctx:
  "hwt_ctx_map_buffer K (ctx, os) = (h, ctx', os') \<Longrightarrow>
   hc_threads ctx' = hc_threads ctx \<and> hc_bufsize ctx' = hc_bufsize ctx \<and> os_files os' = os_files os \<and>
   (h \<noteq> None \<longrightarrow> hc_trace_buf ctx' = h) \<and> (hc_trace_buf ctx = None \<and> h \<noteq> None \<longrightarrow> snd (the h) = hc_ctx_fd ctx) \<and>
   (hc_trace_buf ctx \<noteq> None \<longrightarrow> h = hc_trace_buf ctx)"
  by (auto simp: hwt_ctx_map_buffer_def sys_mmap_def os_answer_def split: option.splits if_splits)

lemma snapshot_ctx:
  assumes "hwt_ctx_snapshot_buffer K path page off (ctx, os) = Some (rc, ctx', os')"
  shows "hc_threads ctx' = hc_threads ctx \<and> hc_bufsize ctx' = hc_bufsize ctx \<and>
         (hc_trace_buf ctx \<noteq> None \<longrightarrow> hc_trace_buf ctx' = hc_trace_buf ctx)"
proof -
  obtain h ctx1 os1 where m: "hwt_ctx_map_buffer K (ctx, os) = (h, ctx1, os1)" by (metis prod.exhaust)
  have "ctx' = ctx \<or> ctx' = ctx1" using assms m
    by (cases h) (auto simp: hwt_ctx_snapshot_buffer_def Let_def bind_eq_Some_conv split: if_splits prod.splits)
  then show ?thesis using map_buffer_ctx [OF m] by auto
qed

lemma bufptr_ctx:
  "hwt_ctx_bufptr_get K (ctx, os) = (pos, ctx', os') \<Longrightarrow> ctx' = ctx \<and> os_files os' = os_files os"
  by (auto simp: hwt_ctx_bufptr_get_def hwt_ctx_bufptr_get_fd_def sys_ioctl_def os_answer_def split: if_splits)

lemma snapshot_unfold:
  assumes "hwt_ctx_bufptr_get K (ctx, os) = (pos, ctx, os1)" "hwt_ctx_map_buffer K (ctx, os1) = (Some m, ctx2, os2)"
    and "choose_snapshot_len E (Some (map_bytes K m)) (unat (hc_bufsize ctx2))
           (unat (known_end (hc_bufsize ctx2) pos ts)) (ts_sections ts) = Some n"
  shows "snapshot_and_decode K E ts pt fmt opts (ctx, os) =
     (if n = 0 then Some (0, [], ctx2, os2)
      else do {
        (saved, s3) \<leftarrow> hwt_ctx_snapshot_buffer K pt (int (n div PAGE_SIZE)) (of_nat (n mod PAGE_SIZE)) (ctx2, os2);
        out \<leftarrow> (if saved > 0
               then map_option dr_out (decode_pt_insn (E (take (nat saved) (map_bytes K m))) False (nat saved)
                      (ts_sections ts) fmt (Some (decode_opts ctx2 opts)))
               else Some []);
        if (hc_all_threads (fst s3) \<or> hc_requested_tids (fst s3) \<noteq> []) \<and> hc_threads (fst s3) \<noteq> []
        then snapshot_threads K E (ts_sections ts) pt fmt (decode_opts ctx2 opts) [0..<length (hc_threads (fst s3))] (saved, out, s3)
        else Some (saved, out, s3) })"
  unfolding snapshot_and_decode_def assms(1,2) Let_def prod.case option.case fst_conv using assms(3) by simp

lemma snapshot_save:
  assumes "\<forall>bs. ipt_sound (E bs)" "fmt \<noteq> FMT_COLLAPSED" "fmt \<noteq> FMT_SPEEDSCOPE" "write_sane K"
    and "buffers_mapped K (hc_bufsize ctx)" "unat (hc_bufsize ctx) < 2 ^ 63" "hc_trace_buf ctx = None"
  shows "\<exists>saved out ctx' os'. snapshot_and_decode K E ts pt fmt opts (ctx, os) = Some (saved, out, ctx', os') \<and>
           (hc_threads ctx = [] \<and> 0 < saved \<longrightarrow>
              saved \<le> int (unat (hc_bufsize ctx)) \<and> os_files os' pt = Some (take (nat saved) (k_buf K (hc_ctx_fd ctx))))"
proof -
  obtain pos c1 os1 where b0: "hwt_ctx_bufptr_get K (ctx, os) = (pos, c1, os1)" by (metis prod.exhaust)
  then have b: "hwt_ctx_bufptr_get K (ctx, os) = (pos, ctx, os1)" using bufptr_ctx [OF b0] by simp
  obtain h ctx2 os2 where m: "hwt_ctx_map_buffer K (ctx, os1) = (h, ctx2, os2)" by (metis prod.exhaust)
  note mc = map_buffer_ctx [OF m]
  show ?thesis
  proof (cases h)
    case None
    then show ?thesis using b m by (simp add: snapshot_and_decode_def)
  next
    case (Some x)
    then have x: "hc_bufsize ctx2 = hc_bufsize ctx" "hc_trace_buf ctx2 = Some x" "snd x = hc_ctx_fd ctx"
      "hc_threads ctx2 = hc_threads ctx" using mc assms(7) by auto
    obtain n where n: "choose_snapshot_len E (Some (map_bytes K x)) (unat (hc_bufsize ctx2))
        (unat (known_end (hc_bufsize ctx2) pos ts)) (ts_sections ts) = Some n" using choose_returns [OF assms(1)] by blast
    note unf = snapshot_unfold [OF b m [unfolded Some] n, of pt fmt opts]
    have bl: "\<forall>fd. length (k_buf K fd) = unat (hc_bufsize ctx2)" using assms(5) x(1) by (simp add: buffers_mapped_def)
    obtain saved ctx3 os3 where sv: "hwt_ctx_snapshot_buffer K pt (int (n div PAGE_SIZE)) (of_nat (n mod PAGE_SIZE)) (ctx2, os2) =
        Some (saved, ctx3, os3)" "saved \<le> int (unat (hc_bufsize ctx2))"
      "0 < saved \<longrightarrow> (\<exists>h. hc_trace_buf ctx3 = Some h \<and> os_files os3 pt = Some (take (nat saved) (map_bytes K h)))"
      using snapshot_copy [OF assms(4) bl _ of_nat_0_le_iff] assms(6) x(1) by metis
    note sc = snapshot_ctx [OF sv(1)]
    obtain out where out: "(if saved > 0
               then map_option dr_out (decode_pt_insn (E (take (nat saved) (map_bytes K x))) False (nat saved)
                      (ts_sections ts) fmt (Some (decode_opts ctx2 opts))) else Some []) = Some out"
      using decode_returns [OF spec [OF assms(1)] assms(2,3)] by (cases "saved > 0") fastforce+
    have bm: "buffers_mapped K (hc_bufsize (fst (ctx3, os3)))" using assms(5) x(1) sc by simp
    obtain s' where s': "snapshot_threads K E (ts_sections ts) pt fmt (decode_opts ctx2 opts) [0..<length (hc_threads ctx3)]
        (saved, out, ctx3, os3) = Some s'" using snapshot_threads_return [OF assms(1-4) bm] by blast
    show ?thesis
    proof (cases "n = 0")
      case True
      then show ?thesis using unf by simp
    next
      case False
      have f: "os_files os3 pt = Some (take (nat saved) (k_buf K (hc_ctx_fd ctx)))" if "0 < saved"
        using sv(3) that sc x(2,3) by (auto simp: map_bytes_def)
      show ?thesis
      proof (cases "(hc_all_threads ctx3 \<or> hc_requested_tids ctx3 \<noteq> []) \<and> hc_threads ctx3 \<noteq> []")
        case True
        then have "hc_threads ctx \<noteq> []" using sc x(4) by simp
        then show ?thesis using unf False sv(1) out s' True by (cases s') simp
      next
        case nt: False
        then have "snapshot_and_decode K E ts pt fmt opts (ctx, os) = Some (saved, out, ctx3, os3)"
          using unf False sv(1) out by auto
        then show ?thesis using f sv(2) x(1) by simp
      qed
    qed
  qed
qed


definition ready_ctx :: hwt_ctx where
  "ready_ctx = (hwt_ctx_zero 1 100 0)\<lparr>hc_backend_name := ''pt'', hc_ctx_fd := 5, hc_bufsize := 4096\<rparr>"

lemma yes_kernel_hyps:
  "write_sane yes_kernel" "buffers_mapped yes_kernel (hc_bufsize ready_ctx)" "unat (hc_bufsize ready_ctx) < 2 ^ 63"
  "hc_trace_buf ready_ctx = None"
  by (simp_all add: write_sane_def yes_kernel_def buffers_mapped_def ready_ctx_def hwt_ctx_zero_def)


text \<open>
  C39. A loss of data. When the buffer of the first thread holds nothing (the driver reports position 0 and every byte is
  zero), the call returns 0 at once: nothing is written for any of the additional threads, whatever their
  buffers hold.
\<close>

theorem empty_primary_skips_threads:
  assumes "buffers_mapped K (hc_bufsize ctx)" "hc_trace_buf ctx = None"
    and "\<forall>i < unat (hc_bufsize ctx). k_buf K (hc_ctx_fd ctx) ! i = 0" "ts_last_buf_page ts < 0"
    and "k_ok K (os_n os)" "k_bufptr K (os_n os) = (0, 0)" "k_ok K (os_n os + 1)"
  shows "\<exists>ctx' os'. snapshot_and_decode K E ts pt fmt opts (ctx, os) = Some (0, [], ctx', os') \<and> os_files os' = os_files os"
proof -
  obtain os1 where b: "hwt_ctx_bufptr_get K (ctx, os) = (Some (0, 0), ctx, os1)" "os_files os1 = os_files os" "os_n os1 = os_n os + 1"
    using assms(5,6) by (simp add: hwt_ctx_bufptr_get_def hwt_ctx_bufptr_get_fd_def sys_ioctl_def os_answer_def)
  obtain m ctx2 os2 where m: "hwt_ctx_map_buffer K (ctx, os1) = (Some m, ctx2, os2)"
    using assms(2,7) b(3) by (simp add: hwt_ctx_map_buffer_def sys_mmap_def os_answer_def)
  note mc = map_buffer_ctx [OF m]
  have k: "known_end (hc_bufsize ctx2) (Some (0, 0)) ts = 0"
    using assms(4) by (simp add: known_end_def buffer_pos_def Let_def)
  have "pt_scan_last_nonzero (map_bytes K m) (unat (hc_bufsize ctx2)) = 0"
  proof (rule ccontr)
    let ?e = "pt_scan_last_nonzero (map_bytes K m) (unat (hc_bufsize ctx2))"
    assume "?e \<noteq> 0"
    moreover from this have "?e - 1 < unat (hc_bufsize ctx)" using scan_bound [of "map_bytes K m" "unat (hc_bufsize ctx2)"] mc by simp
    ultimately show False using scan_last [of "map_bytes K m" "unat (hc_bufsize ctx2)"] assms(2,3) mc
      by (auto simp: map_bytes_def)
  qed
  then have "choose_snapshot_len E (Some (map_bytes K m)) (unat (hc_bufsize ctx2))
      (unat (known_end (hc_bufsize ctx2) (Some (0, 0)) ts)) (ts_sections ts) = Some 0"
    by (simp add: choose_snapshot_len_def k)
  from snapshot_unfold [OF b(1) m this, of pt fmt opts] mc b(2) show ?thesis by simp
qed

definition zero_kernel :: kernel where
  "zero_kernel = yes_kernel\<lparr>k_bufptr := (\<lambda>n. (0, 0)), k_buf := (\<lambda>fd. replicate 4096 (if fd = 5 then 0 else 7))\<rparr>"

theorem empty_primary_skips_threads_witness:
  "\<exists>ctx' os'. snapshot_and_decode zero_kernel (\<lambda>bs. sample_env) (trace_state_init None) ''out.pt'' FMT_TEXT None
     (ready_ctx\<lparr>hc_all_threads := True, hc_threads := [\<lparr>tc_fd = 6, tc_thread_id = 1, tc_trace_buf = None\<rparr>]\<rparr>, os_start) =
     Some (0, [], ctx', os') \<and> os_files os' = os_files os_start"
  by (rule empty_primary_skips_threads;
      simp add: buffers_mapped_def zero_kernel_def yes_kernel_def ready_ctx_def hwt_ctx_zero_def trace_state_init_def os_start_def)

end
