(* ===== verification/Finalize.thy ===== *)
theory Finalize
  imports Snapshot
begin

text \<open>
  \<open>trace.c\<close>, the helpers the two recording commands share and the end of a session: printing and
  processing a record, the backend checks, the kernel section, and \<open>trace_finalize\<close>.
\<close>

section \<open>Model\<close>

definition POLL_RECORDS :: nat where "POLL_RECORDS = 256"

text \<open>A running session: the context with the process state, the accumulator, and standard output.\<close>

type_synonym run = "session \<times> trace_state \<times> string"

definition wants_thread :: "hwt_ctx \<Rightarrow> bsdtrace_record \<Rightarrow> bool" where
  "wants_thread ctx rec \<longleftrightarrow>
     r_type rec = HWT_RECORD_THREAD_CREATE \<and> r_thread_id rec \<noteq> hc_tid ctx \<and>
     (hc_all_threads ctx \<or> list_ex (\<lambda>t. t = r_thread_id rec) (hc_requested_tids ctx))"

definition emit_and_process ::
  "kernel \<Rightarrow> clock_time \<Rightarrow> int \<Rightarrow> bsdtrace_fmt \<Rightarrow> bool \<Rightarrow> run \<Rightarrow> bsdtrace_record \<Rightarrow> run option" where
  "emit_and_process K t pid fmt pause_on_mmap = (\<lambda>(s, ts, out) rec. do {
     line \<leftarrow> (if fmt = FMT_JSON then fmt_record_json t rec pid
             else if fmt = FMT_TEXT then Some (fmt_record_text t rec pid) else Some []);
     let s1 = (if pause_on_mmap \<and> (r_type rec = HWT_RECORD_MMAP \<or> r_type rec = HWT_RECORD_EXECUTABLE)
               then snd (hwt_ctx_wakeup K s) else s);
     let s2 = (if wants_thread (fst s1) rec then snd (hwt_ctx_open_thread K (r_thread_id rec) s1) else s1);
     Some (s2, trace_state_process True ts rec, out @ line) })"

fun emit_all ::
  "kernel \<Rightarrow> clock_time \<Rightarrow> int \<Rightarrow> bsdtrace_fmt \<Rightarrow> bool \<Rightarrow> run \<Rightarrow> bsdtrace_record list \<Rightarrow> run option" where
  "emit_all K t pid fmt pause r [] = Some r"
| "emit_all K t pid fmt pause r (rec # recs) =
     Option.bind (emit_and_process K t pid fmt pause r rec) (\<lambda>r1. emit_all K t pid fmt pause r1 recs)"

text \<open>\<open>resolve_backend\<close>: the name, and the detected name that the caller frees.\<close>

definition resolve_backend ::
  "kernel \<Rightarrow> (string \<Rightarrow> bool) \<Rightarrow> string option \<Rightarrow> os \<Rightarrow> (string option \<times> string option) \<times> os" where
  "resolve_backend K kldfind explicit_name os =
     (case hwt_available K os of (avail, os1) \<Rightarrow>
        if \<not> avail then ((None, None), os1)
        else (case explicit_name of
                Some n \<Rightarrow> ((Some n, None), os1)
              | None \<Rightarrow> ((hwt_detect_backend kldfind, hwt_detect_backend kldfind), os1)))"

definition check_hwt_hooks :: "bool \<Rightarrow> int \<Rightarrow> int" where
  "check_hwt_hooks dryrun hooks = (if hooks = 0 then (if dryrun then 0 else - 1) else 0)"

definition trace_state_ensure_kernel :: "u64 option \<Rightarrow> trace_state \<Rightarrow> trace_state" where
  "trace_state_ensure_kernel kbase ts =
     (if list_ex (\<lambda>s. pi_type s = HWT_RECORD_KERNEL) (ts_sections ts) then ts
      else (case kbase of
              None \<Rightarrow> ts
            | Some b \<Rightarrow> snd (trace_state_add_section True ts ''/boot/kernel/kernel'' b 0 HWT_RECORD_KERNEL)))"

text \<open>
  \<open>trace_finalize\<close>. \<open>mem\<close> is the outcome of the allocation of the poll, \<open>poll\<close> the answers of the polls of
  the drain, \<open>kbase\<close> the answer of \<open>sysctlbyname("kern.base_address")\<close>. The result is the return value,
  standard output, the closed session and the text of the sidecar.
\<close>

definition trace_finalize ::
  "kernel \<Rightarrow> (bytes \<Rightarrow> ('d, 'p) decode_env) \<Rightarrow> bool \<Rightarrow> clock_time \<Rightarrow> (nat \<Rightarrow> bsdtrace_record list option) \<Rightarrow> u64 option \<Rightarrow>
   string \<Rightarrow> int \<Rightarrow> bsdtrace_fmt \<Rightarrow> pt_decode_opts option \<Rightarrow> int \<Rightarrow> run \<Rightarrow> (int \<times> string \<times> session \<times> string option) option" where
  "trace_finalize K E mem t poll kbase pt_output pid fmt opts totalrecords = (\<lambda>(s, ts, out). do {
     let (recs, s1) = hwt_ctx_poll_records K mem POLL_RECORDS False s;
     let batch = (case recs of None \<Rightarrow> [] | Some rs \<Rightarrow> rs);
     (s2, ts2, out2) \<leftarrow> emit_all K t pid fmt True (s1, ts, out) batch;
     let s3 = snd (hwt_ctx_stop K s2);
     (n, ts3) \<leftarrow> trace_state_drain_post_stop poll ts2;
     let ts4 = (if hc_os_trace (fst s3) then trace_state_ensure_kernel kbase ts3 else ts3);
     (saved, text, s4) \<leftarrow> snapshot_and_decode K E ts4 pt_output fmt opts s3;
     let s5 = hwt_ctx_close K s4;
     Some (if saved < 0 then - 1 else totalrecords + int (length batch) + int n, out2 @ text, s5,
           meta_writer_close (ts_meta ts4)) })"

section \<open>Resources\<close>

lemma creat_effect:
  "sys_creat K path os = (fd, os1) \<Longrightarrow>
   os_maps os1 = os_maps os \<and> (if fd < 0 then os_fds os1 = os_fds os else os_fds os1 = fd # os_fds os)"
  using sys_open_effect by (fastforce simp: sys_creat_def split: prod.splits if_splits)

lemma creat_inv:
  assumes "session_inv fds maps (ctx, os)" "sys_creat K path os = (fd, os1)" "os_fds os2 = os_fds os1" "os_maps os2 = os_maps os1"
  shows "session_inv fds maps (ctx, if fd < 0 then os2 else sys_close fd os2)"
  by (rule inv_same [OF assms(1)]) (use creat_effect [OF assms(2)] assms(3,4) in \<open>auto simp: sys_close_def\<close>)

lemma thread_meta_inv:
  assumes "session_inv fds maps (ctx, os)"
  shows "session_inv fds maps (ctx, write_thread_meta K path c tid sections os)"
proof -
  obtain fd os1 where c: "sys_creat K path os = (fd, os1)" by fastforce
  have "session_inv fds maps (ctx, if fd < 0 then os1 else sys_close fd (file_append path bs os1))" for bs
    using creat_inv [OF assms c, of os1] creat_inv [OF assms c, of "file_append path bs os1"]
    by (auto simp: file_append_def)
  then show ?thesis by (auto simp: write_thread_meta_def c Let_def split: if_splits)
qed

lemma snapshot_thread_inv:
  assumes "session_inv fds maps s" "i < length (hc_threads (fst s))"
    and "snapshot_thread K E sections pt fmt dopts (saved, out, s) i = Some (saved', out', s')"
  shows "session_inv fds maps s' \<and> length (hc_threads (fst s')) = length (hc_threads (fst s))"
proof -
  obtain ctx os where s: "s = (ctx, os)" by (cases s)
  obtain pos os1 where p: "hwt_ctx_bufptr_get_fd K (tc_fd (hc_threads ctx ! i)) os = (pos, os1)" by fastforce
  have i1: "session_inv fds maps (ctx, os1)"
    using p assms(1) ioctl_inv unfolding s
    by (fastforce simp: hwt_ctx_bufptr_get_fd_def split: prod.splits if_splits)
  obtain h ctx1 os2 where h: "map_thread_buffer K i (ctx, os1) = (h, ctx1, os2)" by (metis prod.exhaust)
  have i2: "session_inv fds maps (ctx1, os2)" using map_thread_inv [OF i1 _ h] assms(2) by (simp add: s)
  have l: "length (hc_threads ctx1) = length (hc_threads ctx)"
    using h by (auto simp: map_thread_buffer_def Let_def split: prod.splits option.splits)
  let ?tp = "thread_path pt (tc_thread_id (hc_threads ctx ! i))"
  obtain fd os3 where c: "sys_creat K ?tp os2 = (fd, os3)" by fastforce
  have i3: "session_inv fds maps (ctx1, os3)" if "fd < 0" using creat_inv [OF i2 c, of os3] that by simp
  have i4: "session_inv fds maps (ctx1, sys_close fd os4)"
    if "write_loop K ?tp buf n 0 os3 = Some (ok, off, os4)" "\<not> fd < 0" for buf n ok off os4
    using creat_inv [OF i2 c, of os4] write_loop_effect [OF that(1)] that(2) by simp
  have "\<exists>os'. s' = (ctx1, os') \<and> session_inv fds maps (ctx1, os')"
    using assms(3) i2 i3 i4 thread_meta_inv c unfolding s
    by (cases h) (auto simp: snapshot_thread_def p h Let_def bind_eq_Some_conv split: if_splits)
  then show ?thesis using l by (auto simp: s)
qed

lemma snapshot_threads_inv:
  "session_inv fds maps s \<Longrightarrow> \<forall>i \<in> set is. i < length (hc_threads (fst s)) \<Longrightarrow>
   snapshot_threads K E sections pt fmt dopts is (saved, out, s) = Some (saved', out', s') \<Longrightarrow> session_inv fds maps s'"
proof (induction "is" arbitrary: saved out s)
  case (Cons i js)
  then obtain sa o1 s1 where st: "snapshot_thread K E sections pt fmt dopts (saved, out, s) i = Some (sa, o1, s1)"
    "snapshot_threads K E sections pt fmt dopts js (sa, o1, s1) = Some (saved', out', s')"
    by (auto simp: bind_eq_Some_conv)
  from snapshot_thread_inv [OF Cons.prems(1) _ st(1)] Cons.prems(2)
  have "session_inv fds maps s1" "length (hc_threads (fst s1)) = length (hc_threads (fst s))" by auto
  with Cons.IH [OF _ _ st(2)] Cons.prems(2) show ?case by simp
qed simp

lemma snapshot_and_decode_inv:
  assumes "session_inv fds maps s" "snapshot_and_decode K E ts pt fmt opts s = Some (saved, out, s')"
  shows "session_inv fds maps s'"
proof -
  obtain ctx os where s: "s = (ctx, os)" by (cases s)
  obtain pos c1 os1 where b0: "hwt_ctx_bufptr_get K (ctx, os) = (pos, c1, os1)" by (metis prod.exhaust)
  then have b: "hwt_ctx_bufptr_get K (ctx, os) = (pos, ctx, os1)" using bufptr_ctx [OF b0] by simp
  have i1: "session_inv fds maps (ctx, os1)" using step_inv [OF step_bufptr [OF b]] assms(1) by (simp add: s)
  obtain h ctx2 os2 where m: "hwt_ctx_map_buffer K (ctx, os1) = (h, ctx2, os2)" by (metis prod.exhaust)
  have i2: "session_inv fds maps (ctx2, os2)" using step_inv [OF step_map [OF m] i1] .
  show ?thesis
  proof (cases h)
    case None
    then show ?thesis using assms(2) b m i2 by (simp add: snapshot_and_decode_def s)
  next
    case (Some x)
    obtain n where n: "choose_snapshot_len E (Some (map_bytes K x)) (unat (hc_bufsize ctx2))
        (unat (known_end (hc_bufsize ctx2) pos ts)) (ts_sections ts) = Some n"
      using assms(2) b m Some by (auto simp: snapshot_and_decode_def s Let_def bind_eq_Some_conv)
    note unf = assms(2) [unfolded s snapshot_unfold [OF b m [unfolded Some] n]]
    show ?thesis
    proof (cases "n = 0")
      case True
      then show ?thesis using unf i2 by simp
    next
      case False
      then obtain sv s3 o1 where sn: "hwt_ctx_snapshot_buffer K pt (int (n div PAGE_SIZE)) (of_nat (n mod PAGE_SIZE)) (ctx2, os2) = Some (sv, s3)"
        "(if (hc_all_threads (fst s3) \<or> hc_requested_tids (fst s3) \<noteq> []) \<and> hc_threads (fst s3) \<noteq> []
          then snapshot_threads K E (ts_sections ts) pt fmt (decode_opts ctx2 opts) [0..<length (hc_threads (fst s3))] (sv, o1, s3)
          else Some (sv, o1, s3)) = Some (saved, out, s')"
        using unf by (auto simp: bind_eq_Some_conv simp del: split_paired_Ex)
      have i3: "session_inv fds maps s3" using step_inv [OF step_snapshot [OF sn(1)] i2] .
      show ?thesis
      proof (cases "(hc_all_threads (fst s3) \<or> hc_requested_tids (fst s3) \<noteq> []) \<and> hc_threads (fst s3) \<noteq> []")
        case True
        with sn(2) have "snapshot_threads K E (ts_sections ts) pt fmt (decode_opts ctx2 opts) [0..<length (hc_threads (fst s3))]
            (sv, o1, s3) = Some (saved, out, s')" by simp
        from snapshot_threads_inv [OF i3 _ this] show ?thesis by simp
      next
        case False
        then show ?thesis using sn(2) i3 by (auto split: if_splits)
      qed
    qed
  qed
qed

lemma emit_inv:
  assumes "session_inv fds maps s" "emit_and_process K t pid fmt pause (s, ts, out) rec = Some (s', ts', out')"
  shows "session_inv fds maps s' \<and> ts' = trace_state_process True ts rec"
proof -
  define s1 where "s1 = (if pause \<and> (r_type rec = HWT_RECORD_MMAP \<or> r_type rec = HWT_RECORD_EXECUTABLE)
               then snd (hwt_ctx_wakeup K s) else s)"
  have "session_inv fds maps (snd (hwt_ctx_wakeup K s))"
    using step_inv [OF step_wakeup [of K s "fst (hwt_ctx_wakeup K s)"]] assms(1) by simp
  then have i1: "session_inv fds maps s1" using assms(1) by (simp add: s1_def)
  have o: "session_inv fds maps (snd (hwt_ctx_open_thread K (r_thread_id rec) s1))"
    using step_inv [OF step_thread [of K "r_thread_id rec" s1 "fst (hwt_ctx_open_thread K (r_thread_id rec) s1)"]] i1 by simp
  obtain line where "(if fmt = FMT_JSON then fmt_record_json t rec pid
      else if fmt = FMT_TEXT then Some (fmt_record_text t rec pid) else Some []) = Some line"
    "(s', ts', out') = (if wants_thread (fst s1) rec then snd (hwt_ctx_open_thread K (r_thread_id rec) s1) else s1,
       trace_state_process True ts rec, out @ line)"
    using assms(2) unfolding emit_and_process_def Let_def prod.case s1_def [symmetric] bind_eq_Some_conv option.inject
    by metis
  then show ?thesis using i1 o by simp
qed

lemma emit_all_inv:
  "session_inv fds maps s \<Longrightarrow> emit_all K t pid fmt pause (s, ts, out) recs = Some (s', ts', out') \<Longrightarrow>
   session_inv fds maps s' \<and> ts' = foldl (trace_state_process True) ts recs"
proof (induction recs arbitrary: s ts out)
  case (Cons rec recs)
  then obtain s1 ts1 out1 where e: "emit_and_process K t pid fmt pause (s, ts, out) rec = Some (s1, ts1, out1)"
    "emit_all K t pid fmt pause (s1, ts1, out1) recs = Some (s', ts', out')" by (auto simp: bind_eq_Some_conv)
  from emit_inv [OF Cons.prems(1) e(1)] Cons.IH [OF _ e(2)] show ?case by simp
qed simp

lemma finalize_release:
  assumes "session_inv fds maps s"
    and "trace_finalize K E mem t poll kbase pt pid fmt opts n (s, ts, out) = Some (rc, out', (ctx', os'), meta)"
  shows "mset (os_fds os') = mset fds \<and> mset (os_maps os') = mset maps \<and>
         (\<exists>fd ok. 0 \<le> fd \<and> last (os_log os') = (IOC_STOP fd, ok))"
proof -
  obtain recs s1 where p: "hwt_ctx_poll_records K mem POLL_RECORDS False s = (recs, s1)"
    by (cases "hwt_ctx_poll_records K mem POLL_RECORDS False s")
  have i1: "session_inv fds maps s1" using step_inv [OF step_poll [OF p] assms(1)] .
  obtain s2 ts2 out2 ts4 saved tx s4 where f:
    "emit_all K t pid fmt True (s1, ts, out) (case recs of None \<Rightarrow> [] | Some rs \<Rightarrow> rs) = Some (s2, ts2, out2)"
    "snapshot_and_decode K E ts4 pt fmt opts (snd (hwt_ctx_stop K s2)) = Some (saved, tx, s4)"
    "(ctx', os') = hwt_ctx_close K s4"
    using assms(2) by (auto simp: trace_finalize_def p Let_def bind_eq_Some_conv)
  have i2: "session_inv fds maps s2" using emit_all_inv [OF i1 f(1)] by simp
  have i3: "session_inv fds maps (snd (hwt_ctx_stop K s2))"
    using step_inv [OF step_stop [of K s2 "fst (hwt_ctx_stop K s2)"]] i2 by simp
  have i4: "session_inv fds maps s4" using snapshot_and_decode_inv [OF i3 f(2)] .
  obtain ctx4 os4 where s4: "s4 = (ctx4, os4)" by (cases s4)
  have "owns fds maps (ctx4, os4)" "0 \<le> hc_ctx_fd ctx4" using i4 by (simp_all add: session_inv_def s4)
  with hwt_ctx_close_releases [OF this(1) f(3) [unfolded s4, symmetric]] show ?thesis by auto
qed

text \<open>
  C18. Finalising a recording releases the session: from any state of a session, however many threads were
  opened and whichever calls fail, after \<open>trace_finalize\<close> the process holds exactly the
  descriptors and mappings it had before the session, and its last ioctl has stopped the trace.
\<close>

theorem trace_finalize_releases:
  assumes "session_inv fds maps s"
    and "trace_finalize K E mem t poll kbase pt pid fmt opts n (s, ts, out) = Some (rc, out', (ctx', os'), meta)"
  shows "mset (os_fds os') = mset fds \<and> mset (os_maps os') = mset maps \<and>
         (\<exists>fd ok. 0 \<le> fd \<and> last (os_log os') = (IOC_STOP fd, ok))"
  by (rule finalize_release [OF assms])

definition busy_os :: os where
  "busy_os = os_start\<lparr>os_fds := [5, 2, 1, 0]\<rparr>"

lemma busy_inv: "session_inv [2, 1, 0] [] (ready_ctx, busy_os)"
  by (simp add: session_inv_def owns_def ctx_fds_def ctx_maps_def valid_fds_def ready_ctx_def hwt_ctx_zero_def
      busy_os_def os_start_def)

lemma busy_finalize:
  "\<exists>rc out ctx' os' meta. trace_finalize yes_kernel (\<lambda>bs. sample_env) True t (\<lambda>k. Some []) None ''out.pt'' 100 FMT_TEXT None 0
     ((ready_ctx, busy_os), trace_state_init None, []) = Some (rc, out, (ctx', os'), meta)"
proof -
  obtain os1 where p: "hwt_ctx_poll_records yes_kernel True POLL_RECORDS False (ready_ctx, busy_os) = (Some [], ready_ctx, os1)"
    by (simp add: hwt_ctx_poll_records_def Let_def yes_kernel_def [THEN arg_cong, of k_records])
  obtain os2 where st: "hwt_ctx_stop yes_kernel (ready_ctx, os1) = (0, ready_ctx, os2)"
    by (simp add: hwt_ctx_stop_def ready_ctx_def hwt_ctx_zero_def)
  obtain n ts where d: "trace_state_drain_post_stop (\<lambda>k. Some []) (trace_state_init None) = Some (n, ts)"
    using drain_loop_returns [of 0 "\<lambda>k. Some []" 0 0 0 "trace_state_init None"]
    by (auto simp: trace_state_drain_post_stop_def)
  have "\<forall>bs :: bytes. ipt_sound (sample_env)" using sample_env_sound by simp
  from snapshot_save [of "\<lambda>bs. sample_env" FMT_TEXT, OF this _ _ yes_kernel_hyps, of ts "''out.pt''" None os2]
  obtain sv out s4 where "snapshot_and_decode yes_kernel (\<lambda>bs. sample_env) ts ''out.pt'' FMT_TEXT None (ready_ctx, os2) = Some (sv, out, s4)"
    by blast
  moreover have "\<not> hc_os_trace ready_ctx" by (simp add: ready_ctx_def hwt_ctx_zero_def)
  ultimately show ?thesis by (cases "hwt_ctx_close yes_kernel s4") (simp add: trace_finalize_def p st d)
qed

theorem trace_finalize_releases_witness:
  "\<exists>rc out ctx' os' meta. trace_finalize yes_kernel (\<lambda>bs. sample_env) True sample_clock (\<lambda>k. Some []) None ''out.pt'' 100 FMT_TEXT None 0
     ((ready_ctx, busy_os), trace_state_init None, []) = Some (rc, out, (ctx', os'), meta) \<and> mset (os_fds os') = {#0, 1, 2#}"
proof -
  obtain rc out ctx' os' meta where w: "trace_finalize yes_kernel (\<lambda>bs. sample_env) True sample_clock (\<lambda>k. Some []) None ''out.pt'' 100
     FMT_TEXT None 0 ((ready_ctx, busy_os), trace_state_init None, []) = Some (rc, out, (ctx', os'), meta)"
    using busy_finalize by blast
  with trace_finalize_releases [OF busy_inv w] have "mset (os_fds os') = {#0, 1, 2#}" by (simp add: add_mset_commute)
  with w show ?thesis by blast
qed

end
