(* ===== verification/Resolve.thy ===== *)
theory Resolve
  imports Symbols Procmap CStdio
begin

text \<open>
  \<open>resolve.c\<close>: the arguments of \<open>-r\<close>, address ranges or function names, and their resolution into the
  hardware filter of a session. libelf and the kernel's answers are parameters, as in \<open>Elf\<close> and \<open>Procmap\<close>.
  The lemmas give the round trip of address ranges, what a resolved filter holds, and where the slide of the
  trace mode differs from the one the decoder uses.
\<close>

section \<open>Model\<close>

definition RANGE_SPEC_SYMLEN :: nat where "RANGE_SPEC_SYMLEN = 256"
definition UNKNOWN_SIZE_FALLBACK :: u64 where "UNKNOWN_SIZE_FALLBACK = 4096"

datatype range_spec_type = RANGE_ADDR | RANGE_SYMBOL

record range_spec =
  rs_type :: range_spec_type
  rs_start :: u64
  rs_end :: u64
  rs_symbol :: string
  rs_mode :: range_mode

text \<open>\<open>sscanf(inner, "0x%lx:0x%lx", ...)\<close>: the numbers that were converted, at most two.\<close>

definition scan_range :: "string \<Rightarrow> u64 list" where
  "scan_range s =
     (case scan_lit ''0x'' s of
        None \<Rightarrow> []
      | Some s1 \<Rightarrow>
          (case scan_lx s1 of
             None \<Rightarrow> []
           | Some (a, s2) \<Rightarrow>
               (case scan_lit '':0x'' s2 of
                  None \<Rightarrow> [a]
                | Some s3 \<Rightarrow> (case scan_lx s3 of None \<Rightarrow> [a] | Some (b, _) \<Rightarrow> [a, b]))))"

definition parse_range_spec :: "string \<Rightarrow> int \<times> range_spec" where
  "parse_range_spec arg =
     (let stop = (take 5 arg = ''stop:'');
          inner = (if stop then drop 5 arg else arg);
          nums = scan_range inner;
          spec = \<lparr>rs_type = RANGE_ADDR, rs_start = (if nums = [] then 0 else hd nums),
                  rs_end = (if length nums = 2 then nums ! 1 else 0), rs_symbol = [],
                  rs_mode = (if stop then PT_RANGE_TRACESTOP else PT_RANGE_FILTER)\<rparr>
      in if length nums = 2 then (0, spec)
         else if inner = [] then (- 1, spec)
         else (if length inner \<ge> RANGE_SPEC_SYMLEN then - 1 else 0,
               spec\<lparr>rs_type := RANGE_SYMBOL, rs_symbol := strlcpy RANGE_SPEC_SYMLEN inner\<rparr>))"

text \<open>The symbols that the walk over the sections of one type meets, in order.\<close>

definition typed_syms :: "sh_type \<Rightarrow> elf_scn option list \<Rightarrow> gelf_sym option list" where
  "typed_syms ty scns =
     concat (map (\<lambda>sc. case sc of
                         None \<Rightarrow> []
                       | Some s \<Rightarrow> if sh_type s \<noteq> ty \<or> sh_entsize s = 0 then []
                                   else concat (map (data_syms (sh_entsize s)) (scn_data s))) scns)"

definition func_named :: "string \<Rightarrow> gelf_sym option \<Rightarrow> bool" where
  "func_named name s =
     (case s of
        None \<Rightarrow> False
      | Some y \<Rightarrow> st_is_func y \<and> st_value y \<noteq> 0 \<and> st_name y = Some name)"

definition resolve_symbol_in_elf :: "elf_env \<Rightarrow> string \<Rightarrow> u64 \<Rightarrow> string \<Rightarrow> (u64 \<times> u64) option" where
  "resolve_symbol_in_elf env path slide name =
     (if \<not> elf_version_ok env then None
      else (case open_elf env path of
              None \<Rightarrow> None
            | Some elf \<Rightarrow>
                (case find (func_named name) (typed_syms SHT_SYMTAB (e_scns elf) @ typed_syms SHT_DYNSYM (e_scns elf)) of
                   Some (Some y) \<Rightarrow>
                     Some (st_value y + slide,
                           if st_size y > 0 then st_value y + st_size y + slide
                           else st_value y + UNKNOWN_SIZE_FALLBACK + slide)
                 | _ \<Rightarrow> None)))"

definition elf_is_pie :: "elf_env \<Rightarrow> string \<Rightarrow> int" where
  "elf_is_pie env path =
     (if \<not> elf_version_ok env then - 1
      else (case open_elf env path of
              None \<Rightarrow> - 1
            | Some elf \<Rightarrow> (case e_is_dyn elf of None \<Rightarrow> - 1 | Some d \<Rightarrow> if d then 1 else 0)))"

text \<open>\<open>compute_slide\<close>: the slide, and whether address-space randomisation has to be off.\<close>

definition compute_slide :: "elf_env \<Rightarrow> vmmap_env \<Rightarrow> string \<Rightarrow> bool \<Rightarrow> (u64 \<times> bool) option" where
  "compute_slide env vm exe_path is_exec_mode =
     (if \<not> elf_version_ok env then None
      else (case open_elf env exe_path of
              None \<Rightarrow> None
            | Some elf \<Rightarrow>
                if is_exec_mode
                then (case e_is_dyn elf of None \<Rightarrow> None | Some d \<Rightarrow> if d then None else Some (0, True))
                else (case elf_base_vaddr elf of
                        None \<Rightarrow> None
                      | Some base_vaddr \<Rightarrow>
                          (case process_load_addr vm exe_path of
                             None \<Rightarrow> None
                           | Some load_addr \<Rightarrow> Some (load_addr - base_vaddr, False)))))"

fun resolve_loop :: "elf_env \<Rightarrow> string \<Rightarrow> u64 \<Rightarrow> ip_filter \<Rightarrow> range_spec list \<Rightarrow> ip_filter option" where
  "resolve_loop env exe_path slide flt [] = Some flt"
| "resolve_loop env exe_path slide flt (sp # sps) =
     (if length flt \<ge> 2 then None
      else (case rs_type sp of
              RANGE_ADDR \<Rightarrow>
                resolve_loop env exe_path slide
                  (flt @ [\<lparr>ipr_start = rs_start sp, ipr_end = rs_end sp, ipr_mode = rs_mode sp\<rparr>]) sps
            | RANGE_SYMBOL \<Rightarrow>
                (case resolve_symbol_in_elf env exe_path slide (rs_symbol sp) of
                   None \<Rightarrow> None
                 | Some (a, b) \<Rightarrow>
                     resolve_loop env exe_path slide (flt @ [\<lparr>ipr_start = a, ipr_end = b, ipr_mode = rs_mode sp\<rparr>]) sps)))"

text \<open>\<open>resolve_range_specs\<close>: the filter and \<open>*aslr_disable\<close>; \<open>exe_path\<close> is \<open>None\<close> for a NULL pointer.\<close>

definition resolve_range_specs ::
  "elf_env \<Rightarrow> vmmap_env \<Rightarrow> range_spec list \<Rightarrow> string option \<Rightarrow> bool \<Rightarrow> (ip_filter \<times> bool) option" where
  "resolve_range_specs env vm specs exe_path is_exec_mode =
     (if list_ex (\<lambda>sp. rs_type sp = RANGE_SYMBOL) specs
      then (case exe_path of
              None \<Rightarrow> None
            | Some p \<Rightarrow>
                if p = [] then None
                else (case compute_slide env vm p is_exec_mode of
                        None \<Rightarrow> None
                      | Some (slide, need_aslr) \<Rightarrow>
                          map_option (\<lambda>f. (f, need_aslr)) (resolve_loop env p slide [] specs)))
      else map_option (\<lambda>f. (f, False)) (resolve_loop env (case exe_path of Some p \<Rightarrow> p | None \<Rightarrow> []) 0 [] specs))"

section \<open>Arguments\<close>

lemma scan_lx_end: "scan_lx (fmt_lx w) = Some (w, [])"
  using u64_less [of w] scan_num_radix [of 16 "[]" "unat w"] by (simp add: scan_lx_def fmt_lx_def)

lemma scan_range_fmt: "scan_range (''0x'' @ fmt_lx a @ '':0x'' @ fmt_lx b) = [a, b]"
proof -
  have "scan_lx (fmt_lx a @ '':0x'' @ fmt_lx b) = Some (a, '':0x'' @ fmt_lx b)"
    using scan_lx_fmt [of "CHR '':''" a "''0x'' @ fmt_lx b"] by (simp add: is_digit_def digit_val_def Let_def)
  then show ?thesis by (simp add: scan_range_def scan_lx_end)
qed

section \<open>Resolved filters\<close>

definition range_of :: "elf_env \<Rightarrow> string \<Rightarrow> u64 \<Rightarrow> range_spec \<Rightarrow> (u64 \<times> u64) option" where
  "range_of env p slide sp =
     (if rs_type sp = RANGE_ADDR then Some (rs_start sp, rs_end sp) else resolve_symbol_in_elf env p slide (rs_symbol sp))"

lemma resolve_loop_Cons:
  "length f < 2 \<Longrightarrow> resolve_loop env p slide f (sp # sps) =
     (case range_of env p slide sp of None \<Rightarrow> None | Some (a, b) \<Rightarrow>
        resolve_loop env p slide (f @ [\<lparr>ipr_start = a, ipr_end = b, ipr_mode = rs_mode sp\<rparr>]) sps)"
  by (cases "rs_type sp") (auto simp: range_of_def split: option.splits)

text \<open>A filter that the loop returns extends the given one by one range per specification.\<close>

lemma resolve_loop_sound:
  "resolve_loop env p slide f specs = Some g \<Longrightarrow>
   (specs = [] \<or> length f + length specs \<le> 2) \<and> (\<exists>rs. g = f @ rs \<and>
     map (range_of env p slide) specs = map (\<lambda>r. Some (ipr_start r, ipr_end r)) rs \<and> map rs_mode specs = map ipr_mode rs)"
proof (induction specs arbitrary: f)
  case (Cons sp sps)
  have f: "length f < 2" using Cons.prems by (simp split: if_splits)
  then obtain a b where ab: "range_of env p slide sp = Some (a, b)"
    and l: "resolve_loop env p slide (f @ [\<lparr>ipr_start = a, ipr_end = b, ipr_mode = rs_mode sp\<rparr>]) sps = Some g"
    using Cons.prems by (auto simp only: resolve_loop_Cons split: option.splits)
  obtain rs where "g = f @ \<lparr>ipr_start = a, ipr_end = b, ipr_mode = rs_mode sp\<rparr> # rs"
    "map (range_of env p slide) sps = map (\<lambda>r. Some (ipr_start r, ipr_end r)) rs" "map rs_mode sps = map ipr_mode rs"
    "sps = [] \<or> length f + 1 + length sps \<le> 2"
    using Cons.IH [OF l] by auto
  then show ?case using ab f
    by (intro conjI exI [of _ "\<lparr>ipr_start = a, ipr_end = b, ipr_mode = rs_mode sp\<rparr> # rs"]) auto
qed simp

lemma parse_range_plain:
  "take 5 arg \<noteq> ''stop:'' \<Longrightarrow> scan_range arg = [a, b] \<Longrightarrow> parse_range_spec arg =
     (0, \<lparr>rs_type = RANGE_ADDR, rs_start = a, rs_end = b, rs_symbol = [], rs_mode = PT_RANGE_FILTER\<rparr>)"
  by (simp add: parse_range_spec_def Let_def)

lemma parse_range_stop:
  "take 5 arg = ''stop:'' \<Longrightarrow> scan_range (drop 5 arg) = [a, b] \<Longrightarrow> parse_range_spec arg =
     (0, \<lparr>rs_type = RANGE_ADDR, rs_start = a, rs_end = b, rs_symbol = [], rs_mode = PT_RANGE_TRACESTOP\<rparr>)"
  by (simp add: parse_range_spec_def Let_def)

text \<open>
  C29. Address ranges survive the command line: the string \<open>0xA:0xB\<close> of any two addresses is read back as
  exactly these addresses in filter mode, and behind \<open>stop:\<close> as the same range in trace-stop mode.
\<close>

theorem parse_range_spec_roundtrip:
  "parse_range_spec (''0x'' @ fmt_lx a @ '':0x'' @ fmt_lx b) =
     (0, \<lparr>rs_type = RANGE_ADDR, rs_start = a, rs_end = b, rs_symbol = [], rs_mode = PT_RANGE_FILTER\<rparr>) \<and>
   parse_range_spec (''stop:'' @ ''0x'' @ fmt_lx a @ '':0x'' @ fmt_lx b) =
     (0, \<lparr>rs_type = RANGE_ADDR, rs_start = a, rs_end = b, rs_symbol = [], rs_mode = PT_RANGE_TRACESTOP\<rparr>)"
proof
  have "take 5 (''0x'' @ t) \<noteq> ''stop:''" for t by (simp add: numeral_eq_Suc)
  then show "parse_range_spec (''0x'' @ fmt_lx a @ '':0x'' @ fmt_lx b) =
     (0, \<lparr>rs_type = RANGE_ADDR, rs_start = a, rs_end = b, rs_symbol = [], rs_mode = PT_RANGE_FILTER\<rparr>)"
    by (rule parse_range_plain) (rule scan_range_fmt)
  have "take 5 (''stop:'' @ t) = ''stop:''" "drop 5 (''stop:'' @ t) = t" for t :: string by simp_all
  then show "parse_range_spec (''stop:'' @ ''0x'' @ fmt_lx a @ '':0x'' @ fmt_lx b) =
     (0, \<lparr>rs_type = RANGE_ADDR, rs_start = a, rs_end = b, rs_symbol = [], rs_mode = PT_RANGE_TRACESTOP\<rparr>)"
    using scan_range_fmt [of a b] by (intro parse_range_stop) (simp_all only:)
qed

lemma resolve_specs_eq:
  assumes "resolve_range_specs env vm specs exe m = Some (f, aslr)"
  shows "\<exists>p slide. map (range_of env p slide) specs = map (\<lambda>r. Some (ipr_start r, ipr_end r)) f \<and>
           map rs_mode specs = map ipr_mode f \<and> length specs \<le> 2 \<and>
           (list_ex (\<lambda>sp. rs_type sp = RANGE_SYMBOL) specs \<longrightarrow> exe = Some p \<and> compute_slide env vm p m = Some (slide, aslr))"
proof (cases "list_ex (\<lambda>sp. rs_type sp = RANGE_SYMBOL) specs")
  case True
  then obtain p slide where "exe = Some p" "compute_slide env vm p m = Some (slide, aslr)" "resolve_loop env p slide [] specs = Some f"
    using assms by (auto simp: resolve_range_specs_def split: option.splits if_splits)
  then show ?thesis by (intro exI [of _ p] exI [of _ slide]) (auto dest: resolve_loop_sound)
next
  case False
  then have "resolve_loop env (case exe of Some p \<Rightarrow> p | None \<Rightarrow> []) 0 [] specs = Some f"
    using assms by (auto simp: resolve_range_specs_def)
  then show ?thesis using False
    by (intro exI [of _ "case exe of Some p \<Rightarrow> p | None \<Rightarrow> []"] exI [of _ 0]) (auto dest: resolve_loop_sound)
qed



section \<open>The slide of the trace mode\<close>

text \<open>
  The slide of a running process is wrong for every executable whose code does not start at its base. In trace
  mode \<open>compute_slide\<close> subtracts the base address from the start of the first \<^emph>\<open>executable\<close> mapping; the decoder
  (\<open>elf_effective_load_addr\<close>) derives the slide from the address of the lowest executable page. The two
  differ by the distance of that page from the base, so a range resolved from a name misses the function by
  this distance unless it is zero.
\<close>

theorem trace_slide_differs:
  assumes "compute_slide env vm exe False = Some (slide, aslr)" "process_load_addr vm exe = Some addr"
    and "open_elf env exe = Some elf" "elf_base_vaddr elf = Some base" "elf_exec_map_vaddr elf = Some m"
    and "elf_effective_load_addr elf HWT_RECORD_MMAP addr = Some load"
  shows "slide = (load - base) + (m - base) \<and> (slide = load - base \<longleftrightarrow> m = base)"
proof -
  have "slide = addr - base" using assms(1-4) by (simp add: compute_slide_def split: if_splits)
  moreover have "load = base + (addr - m)" using assms(4-6) by (simp add: elf_effective_load_addr_def split: if_splits)
  ultimately show ?thesis by (auto simp: algebra_simps)
qed

definition lld_vmmap :: vmmap_env where
  "lld_vmmap = \<lparr>vm_size_ok = True, vm_malloc_ok = True, vm_entries = Some
     [\<lparr>kve_structsize = 1, kve_vtype = KVME_TYPE_VNODE, kve_prot_exec = False, kve_path = ''/bin/a'', kve_start = 0x200000\<rparr>,
      \<lparr>kve_structsize = 1, kve_vtype = KVME_TYPE_VNODE, kve_prot_exec = True, kve_path = ''/bin/a'', kve_start = 0x202000\<rparr>],
     vm_realloc_ok = (\<lambda>n. True)\<rparr>"

definition lld_env :: elf_env where
  "lld_env = \<lparr>elf_version_ok = True, open_elf = (\<lambda>p. if p = ''/bin/a'' then Some lld_elf else None)\<rparr>"

text \<open>A program as lld links it, not relocated: the slide should be 0.\<close>

theorem trace_slide_differs_witness:
  "compute_slide lld_env lld_vmmap ''/bin/a'' False = Some (0x2000, False) \<and>
   elf_effective_load_addr lld_elf HWT_RECORD_MMAP 0x202000 = Some 0x200000 \<and>
   (0x2000 :: u64) \<noteq> 0x200000 - 0x200000"
proof -
  have h: "compute_slide lld_env lld_vmmap ''/bin/a'' False = Some (0x2000, False)"
    "process_load_addr lld_vmmap ''/bin/a'' = Some 0x202000" "open_elf lld_env ''/bin/a'' = Some lld_elf"
    "elf_base_vaddr lld_elf = Some 0x200000" "elf_exec_map_vaddr lld_elf = Some 0x202000"
    "elf_effective_load_addr lld_elf HWT_RECORD_MMAP 0x202000 = Some 0x200000"
    by (simp_all add: compute_slide_def lld_env_def lld_vmmap_def lld_elf_def lld_phdrs_def elf_base_vaddr_def
        elf_exec_map_vaddr_def elf_effective_load_addr_def process_load_addr_def vmmap_fetch_def PF_X_def trunc_page_def)
  show ?thesis using trace_slide_differs [OF h] h by simp
qed

end
