(* ===== verification/Options.thy ===== *)
theory Options
  imports Complex_Main Resolve Hwt
begin

text \<open>
  The command line: \<open>getopt\<close> as the C library defines it, \<open>parse_size\<close> and \<open>process_name\<close> of
  \<open>bsdtrace.c\<close>, and the option loops of \<open>cmd_exec.c\<close> and \<open>cmd_trace.c\<close>, which differ in one letter. A
  duration is a rational; \<open>atof\<close> is a parameter. An early return of a command is \<open>Inl\<close> of its exit code.
  The lemmas show that an option list survives its rendering as arguments, what sizes mean, and
  which options can reach a session.
\<close>

section \<open>The C library\<close>

text \<open>What the option string says of a letter: unknown, a flag, or an option with an argument.\<close>

fun opt_kind :: "string \<Rightarrow> char \<Rightarrow> bool option" where
  "opt_kind [] c = None"
| "opt_kind (x # xs) c =
     (if x = CHR '':'' then opt_kind xs c
      else if x = c then Some (xs \<noteq> [] \<and> hd xs = CHR '':'')
      else opt_kind xs c)"

text \<open>
  All results of \<open>getopt\<close> up to the -1, and the arguments that remain. The first list is the rest of the
  cluster that is being read. A letter that is unknown or lacks its argument yields \<open>?\<close>.
\<close>

function getopt_all :: "string \<Rightarrow> string \<Rightarrow> string list \<Rightarrow> (char \<times> string) list \<times> string list" where
  "getopt_all ostr [] [] = ([], [])"
| "getopt_all ostr [] (a # as) =
     (if a = ''--'' then ([], as)
      else if a \<noteq> [] \<and> hd a = CHR ''-'' \<and> tl a \<noteq> [] then getopt_all ostr (tl a) as
      else ([], a # as))"
| "getopt_all ostr (c # place) as =
     (case opt_kind ostr c of
        None \<Rightarrow> (case getopt_all ostr place as of (os, rest) \<Rightarrow> ((CHR ''?'', []) # os, rest))
      | Some False \<Rightarrow> (case getopt_all ostr place as of (os, rest) \<Rightarrow> ((c, []) # os, rest))
      | Some True \<Rightarrow>
          (if place \<noteq> [] then (case getopt_all ostr [] as of (os, rest) \<Rightarrow> ((c, place) # os, rest))
           else (case as of
                   [] \<Rightarrow> ([(CHR ''?'', [])], [])
                 | a # as' \<Rightarrow> (case getopt_all ostr [] as' of (os, rest) \<Rightarrow> ((c, a) # os, rest)))))"
  by pat_completeness auto
termination
proof (relation "measure (\<lambda>(ostr, place, as). length place + sum_list (map (\<lambda>a. length a + 1) as))", goal_cases)
  case (2 ostr a as)
  then show ?case by (cases a) auto
qed auto

section \<open>Sizes and names\<close>

text \<open>\<open>strtol(s, &end, 10)\<close>: the value and the text at \<open>end\<close>.\<close>

definition c_strtol :: "string \<Rightarrow> int \<times> string" where
  "c_strtol s =
     (case scan_num 10 s of
        None \<Rightarrow> (0, s)
      | Some (neg, n, r) \<Rightarrow> (clamp64 (if neg then - int n else int n), r))"

definition parse_size :: "string \<Rightarrow> u64" where
  "parse_size s =
     (let (v0, e) = c_strtol s;
          v = (if v0 \<le> 0 then 4 else v0);
          mult = (if e = [] then 1
                  else if hd e = CHR ''g'' \<or> hd e = CHR ''G'' then 1024 * 1024 * 1024
                  else if hd e = CHR ''m'' \<or> hd e = CHR ''M'' then 1024 * 1024
                  else if hd e = CHR ''k'' \<or> hd e = CHR ''K'' then 1024
                  else 1)
      in of_int v * mult)"

definition process_name :: "nat \<Rightarrow> string option \<Rightarrow> string option" where
  "process_name bufsz answer =
     (case process_exe_fullpath bufsz answer of
        None \<Rightarrow> None
      | Some p \<Rightarrow> Some (case strrchr_rest (CHR ''/'') p of Some r \<Rightarrow> r | None \<Rightarrow> p))"

section \<open>Options of the recording commands\<close>

record cmd_opts =
  o_fmt :: bsdtrace_fmt
  o_bufsize :: string
  o_backend :: "string option"
  o_output :: "string option"
  o_duration :: rat
  o_maxrecords :: int
  o_ranges :: "range_spec list"
  o_tid :: int
  o_all_threads :: bool
  o_tids :: "int list"
  o_psb_freq :: int
  o_mtc_freq :: int
  o_cyc_thresh :: int
  o_timing :: bool
  o_ptwrite :: bool
  o_os_trace :: bool
  o_no_aslr :: bool
  o_dryrun :: bool
  o_pause :: bool
  o_filter_funcs :: "string list"

definition default_opts :: "rat \<Rightarrow> cmd_opts" where
  "default_opts duration =
     \<lparr>o_fmt = FMT_TEXT, o_bufsize = ''64m'', o_backend = None, o_output = None, o_duration = duration, o_maxrecords = 0,
      o_ranges = [], o_tid = 0, o_all_threads = False, o_tids = [], o_psb_freq = 0, o_mtc_freq = 0, o_cyc_thresh = 0,
      o_timing = False, o_ptwrite = False, o_os_trace = False, o_no_aslr = False, o_dryrun = False, o_pause = False,
      o_filter_funcs = []\<rparr>"

definition parse_fmt :: "string \<Rightarrow> bsdtrace_fmt option" where
  "parse_fmt s =
     (if s = ''json'' then Some FMT_JSON else if s = ''text'' then Some FMT_TEXT
      else if s = ''profile'' then Some FMT_PROFILE else if s = ''tree'' then Some FMT_TREE
      else if s = ''collapsed'' then Some FMT_COLLAPSED else if s = ''speedscope'' then Some FMT_SPEEDSCOPE
      else if s = ''callers'' then Some FMT_CALLERS else None)"

text \<open>\<open>-T\<close>\<close>

definition thread_option :: "string \<Rightarrow> cmd_opts \<Rightarrow> int + cmd_opts" where
  "thread_option arg q =
     (if arg = ''all'' then Inr (q\<lparr>o_tid := 0, o_all_threads := True\<rparr>)
      else if CHR '','' \<in> set arg
      then let ts = map c_atoi (take MAX_THREADS (strtok_all (CHR '','') arg))
           in if ts = [] then Inl 1 else Inr (q\<lparr>o_tids := ts, o_tid := hd ts\<rparr>)
      else Inr (q\<lparr>o_tid := c_atoi arg\<rparr>))"

text \<open>One iteration of the option loop; \<open>-A\<close> is an option of \<open>exec\<close> only.\<close>

definition opt_step :: "(string \<Rightarrow> rat) \<Rightarrow> char \<times> string \<Rightarrow> cmd_opts \<Rightarrow> int + cmd_opts" where
  "opt_step atof = (\<lambda>(ch, arg) q.
     if ch = CHR ''f'' then (case parse_fmt arg of None \<Rightarrow> Inl 1 | Some f \<Rightarrow> Inr (q\<lparr>o_fmt := f\<rparr>))
     else if ch = CHR ''b'' then Inr (q\<lparr>o_backend := Some arg\<rparr>)
     else if ch = CHR ''s'' then Inr (q\<lparr>o_bufsize := arg\<rparr>)
     else if ch = CHR ''d'' \<or> ch = CHR ''t'' then Inr (q\<lparr>o_duration := atof arg\<rparr>)
     else if ch = CHR ''m'' then Inr (q\<lparr>o_maxrecords := c_atoi arg\<rparr>)
     else if ch = CHR ''o'' then Inr (q\<lparr>o_output := Some arg\<rparr>)
     else if ch = CHR ''r''
     then if length (o_ranges q) \<ge> 2 then Inl 1
          else (case parse_range_spec arg of (rc, sp) \<Rightarrow> if rc \<noteq> 0 then Inl 1 else Inr (q\<lparr>o_ranges := o_ranges q @ [sp]\<rparr>))
     else if ch = CHR ''T'' then thread_option arg q
     else if ch = CHR ''A'' then Inr (q\<lparr>o_no_aslr := True\<rparr>)
     else if ch = CHR ''n'' then Inr (q\<lparr>o_dryrun := True\<rparr>)
     else if ch = CHR ''p'' then Inr (q\<lparr>o_pause := True\<rparr>)
     else if ch = CHR ''P''
     then let v = c_atoi arg in if v < 0 \<or> v > 15 then Inl 1 else Inr (q\<lparr>o_psb_freq := v\<rparr>)
     else if ch = CHR ''M''
     then let v = c_atoi arg in if v < 1 \<or> v > 15 then Inl 1 else Inr (q\<lparr>o_mtc_freq := v\<rparr>)
     else if ch = CHR ''Y''
     then let v = c_atoi arg in if v < 1 \<or> v > 15 then Inl 1 else Inr (q\<lparr>o_cyc_thresh := v\<rparr>)
     else if ch = CHR ''C'' then Inr (q\<lparr>o_timing := True\<rparr>)
     else if ch = CHR ''W'' then Inr (q\<lparr>o_ptwrite := True\<rparr>)
     else if ch = CHR ''K'' then Inr (q\<lparr>o_os_trace := True\<rparr>)
     else if ch = CHR ''F'' then Inr (q\<lparr>o_filter_funcs := strtok_all (CHR '','') arg\<rparr>)
     else if ch = CHR ''h'' then Inl 0
     else Inl 1)"

fun opt_loop :: "(string \<Rightarrow> rat) \<Rightarrow> (char \<times> string) list \<Rightarrow> cmd_opts \<Rightarrow> int + cmd_opts" where
  "opt_loop atof [] q = Inr q"
| "opt_loop atof (oa # oas) q = (case opt_step atof oa q of Inl rc \<Rightarrow> Inl rc | Inr q1 \<Rightarrow> opt_loop atof oas q1)"

text \<open>The whole parse: the options and the operands.\<close>

definition exec_options :: "(string \<Rightarrow> rat) \<Rightarrow> string list \<Rightarrow> int + cmd_opts \<times> string list" where
  "exec_options atof args =
     (case getopt_all ''f:b:s:d:t:m:o:r:T:P:M:Y:F:AhnpCWK'' [] args of (oas, rest) \<Rightarrow>
        (case opt_loop atof oas (default_opts 30) of
           Inl rc \<Rightarrow> Inl rc
         | Inr q \<Rightarrow>
             let operands = (if rest \<noteq> [] \<and> hd rest = ''--'' then tl rest else rest)
             in if operands = [] then Inl 1 else Inr (q, operands)))"

definition trace_options :: "(string \<Rightarrow> rat) \<Rightarrow> string list \<Rightarrow> int + cmd_opts \<times> int" where
  "trace_options atof args =
     (case getopt_all ''f:b:s:d:t:m:o:r:T:P:M:Y:F:hnpCWK'' [] args of (oas, rest) \<Rightarrow>
        (case opt_loop atof oas (default_opts 0) of
           Inl rc \<Rightarrow> Inl rc
         | Inr q \<Rightarrow> if rest = [] then Inl 1 else if c_atoi (hd rest) \<le> 0 then Inl 1 else Inr (q, c_atoi (hd rest))))"

section \<open>Arguments\<close>

text \<open>An option list as separate arguments.\<close>

definition render_opt :: "string \<Rightarrow> char \<times> string \<Rightarrow> string list" where
  "render_opt ostr = (\<lambda>(c, a). if opt_kind ostr c = Some True then [[CHR ''-'', c], a] else [[CHR ''-'', c]])"

definition opt_ok :: "string \<Rightarrow> char \<times> string \<Rightarrow> bool" where
  "opt_ok ostr = (\<lambda>(c, a). c \<noteq> CHR ''-'' \<and> (opt_kind ostr c = Some True \<or> (opt_kind ostr c = Some False \<and> a = [])))"

lemma getopt_one:
  "opt_ok ostr oa \<Longrightarrow> getopt_all ostr [] (render_opt ostr oa @ as) =
     (case getopt_all ostr [] as of (os, rest) \<Rightarrow> (oa # os, rest))"
  by (cases oa) (auto simp: opt_ok_def render_opt_def)

lemma getopt_render:
  "\<forall>oa \<in> set oas. opt_ok ostr oa \<Longrightarrow> getopt_all ostr [] (concat (map (render_opt ostr) oas) @ as) =
     (case getopt_all ostr [] as of (os, rest) \<Rightarrow> (oas @ os, rest))"
  by (induction oas) (auto simp: getopt_one split: prod.splits)

text \<open>
  Options survive the command line. Every list of options of an option string, rendered as separate
  arguments and followed by \<open>--\<close> and any operands, is read back by \<open>getopt\<close> as exactly this list and these
  operands; the same holds without \<open>--\<close> when the first operand does not look like an option.
\<close>

theorem getopt_roundtrip:
  assumes "\<forall>oa \<in> set oas. opt_ok ostr oa"
  shows "getopt_all ostr [] (concat (map (render_opt ostr) oas) @ ''--'' # operands) = (oas, operands) \<and>
         (operands = [] \<or> hd operands = [] \<or> hd operands = ''-'' \<or> hd (hd operands) \<noteq> CHR ''-'' \<longrightarrow>
            getopt_all ostr [] (concat (map (render_opt ostr) oas) @ operands) = (oas, operands))"
  using getopt_render [OF assms, of "''--'' # operands"] getopt_render [OF assms, of operands]
  by (cases operands) auto

theorem getopt_roundtrip_witness:
  "getopt_all ''f:n'' [] [''-f'', ''json'', ''-n'', ''--'', ''ls'', ''-l''] =
     ([(CHR ''f'', ''json''), (CHR ''n'', [])], [''ls'', ''-l''])"
proof -
  have "\<forall>oa \<in> set [(CHR ''f'', ''json''), (CHR ''n'', [])]. opt_ok ''f:n'' oa" by (simp add: opt_ok_def)
  from getopt_roundtrip [OF this, of "[''ls'', ''-l'']"] show ?thesis by (simp add: render_opt_def)
qed

section \<open>Sizes\<close>

definition unit_factor :: "string \<Rightarrow> nat option" where
  "unit_factor u =
     (if u = [] then Some 1 else if u = ''k'' \<or> u = ''K'' then Some 1024
      else if u = ''m'' \<or> u = ''M'' then Some (1024 * 1024)
      else if u = ''g'' \<or> u = ''G'' then Some (1024 * 1024 * 1024) else None)"

lemma unit_chars:
  "unit_factor u = Some k \<Longrightarrow> u = [] \<or> u \<in> {''k'', ''K'', ''m'', ''M'', ''g'', ''G''}"
  by (auto simp: unit_factor_def split: if_splits)

lemma parse_size_factor:
  assumes "c_strtol s = (int n, u)" "unit_factor u = Some k" "0 < n"
  shows "parse_size s = of_nat (n * k)"
  using unit_chars [OF assms(2)] assms
  by (elim disjE insertE emptyE) (auto simp: parse_size_def unit_factor_def)



section \<open>Well-formed options\<close>

definition range_spec_ok :: "range_spec \<Rightarrow> bool" where
  "range_spec_ok sp \<longleftrightarrow>
     length (rs_symbol sp) < RANGE_SPEC_SYMLEN \<and> (rs_type sp = RANGE_SYMBOL \<longleftrightarrow> rs_symbol sp \<noteq> [])"

definition opts_ok :: "cmd_opts \<Rightarrow> bool" where
  "opts_ok q \<longleftrightarrow>
     length (o_ranges q) \<le> 2 \<and> (\<forall>sp \<in> set (o_ranges q). range_spec_ok sp) \<and>
     length (o_tids q) \<le> MAX_THREADS \<and> 0 \<le> o_psb_freq q \<and> o_psb_freq q \<le> 15 \<and>
     0 \<le> o_mtc_freq q \<and> o_mtc_freq q \<le> 15 \<and> 0 \<le> o_cyc_thresh q \<and> o_cyc_thresh q \<le> 15 \<and>
     (\<forall>f \<in> set (o_filter_funcs q). f \<noteq> [] \<and> CHR '','' \<notin> set f)"

lemma parse_range_ok: "parse_range_spec arg = (rc, sp) \<Longrightarrow> rc = 0 \<Longrightarrow> range_spec_ok sp"
  by (auto simp: parse_range_spec_def Let_def range_spec_ok_def RANGE_SPEC_SYMLEN_def split: if_splits)

lemma range_option_ok:
  "opts_ok q \<Longrightarrow> \<not> length (o_ranges q) \<ge> 2 \<Longrightarrow> range_spec_ok sp \<Longrightarrow> opts_ok (q\<lparr>o_ranges := o_ranges q @ [sp]\<rparr>)"
  by (auto simp: opts_ok_def)

lemma filter_option_ok: "opts_ok q \<Longrightarrow> opts_ok (q\<lparr>o_filter_funcs := strtok_all (CHR '','') arg\<rparr>)"
  by (auto simp: opts_ok_def dest: strtok_all_token)

lemma number_option_ok:
  "opts_ok q \<Longrightarrow> \<not> (v < 0 \<or> v > 15) \<Longrightarrow> opts_ok (q\<lparr>o_psb_freq := v\<rparr>)"
  "opts_ok q \<Longrightarrow> \<not> (v < 1 \<or> v > 15) \<Longrightarrow> opts_ok (q\<lparr>o_mtc_freq := v\<rparr>)"
  "opts_ok q \<Longrightarrow> \<not> (v < 1 \<or> v > 15) \<Longrightarrow> opts_ok (q\<lparr>o_cyc_thresh := v\<rparr>)"
  by (auto simp: opts_ok_def)

lemma other_option_ok:
  "opts_ok q \<Longrightarrow> opts_ok (q\<lparr>o_fmt := f\<rparr>)" "opts_ok q \<Longrightarrow> opts_ok (q\<lparr>o_backend := b\<rparr>)"
  "opts_ok q \<Longrightarrow> opts_ok (q\<lparr>o_bufsize := s\<rparr>)" "opts_ok q \<Longrightarrow> opts_ok (q\<lparr>o_duration := d\<rparr>)"
  "opts_ok q \<Longrightarrow> opts_ok (q\<lparr>o_maxrecords := m\<rparr>)" "opts_ok q \<Longrightarrow> opts_ok (q\<lparr>o_output := p\<rparr>)"
  "opts_ok q \<Longrightarrow> opts_ok (q\<lparr>o_no_aslr := x\<rparr>)" "opts_ok q \<Longrightarrow> opts_ok (q\<lparr>o_dryrun := x\<rparr>)"
  "opts_ok q \<Longrightarrow> opts_ok (q\<lparr>o_pause := x\<rparr>)" "opts_ok q \<Longrightarrow> opts_ok (q\<lparr>o_timing := x\<rparr>)"
  "opts_ok q \<Longrightarrow> opts_ok (q\<lparr>o_ptwrite := x\<rparr>)" "opts_ok q \<Longrightarrow> opts_ok (q\<lparr>o_os_trace := x\<rparr>)"
  by (simp_all add: opts_ok_def)

definition ok_result :: "int + cmd_opts \<Rightarrow> bool" where
  "ok_result r \<longleftrightarrow> (case r of Inl rc \<Rightarrow> rc = 0 \<or> rc = 1 | Inr q \<Rightarrow> opts_ok q)"

lemma ok_result_intros:
  "ok_result (Inl 0)" "ok_result (Inl 1)" "opts_ok q \<Longrightarrow> ok_result (Inr q)"
  "(c \<Longrightarrow> ok_result x) \<Longrightarrow> (\<not> c \<Longrightarrow> ok_result y) \<Longrightarrow> ok_result (if c then x else y)"
  by (auto simp: ok_result_def)

lemma thread_option_ok: "opts_ok q \<Longrightarrow> ok_result (thread_option arg q)"
  by (auto simp: thread_option_def opts_ok_def ok_result_def Let_def)

lemma opt_step_ok:
  assumes "opts_ok q"
  shows "ok_result (opt_step atof oa q)"
proof -
  obtain ch arg where oa: "oa = (ch, arg)" by (cases oa)
  have t: "ok_result (thread_option arg q)" using thread_option_ok [OF assms] by simp
  have f: "ok_result (case parse_fmt arg of None \<Rightarrow> Inl 1 | Some f \<Rightarrow> Inr (q\<lparr>o_fmt := f\<rparr>))"
    by (cases "parse_fmt arg") (simp_all add: ok_result_intros other_option_ok assms)
  have r: "ok_result (case parse_range_spec arg of (rc, sp) \<Rightarrow> if rc \<noteq> 0 then Inl 1 else Inr (q\<lparr>o_ranges := o_ranges q @ [sp]\<rparr>))"
    if "\<not> length (o_ranges q) \<ge> 2"
    using that assms by (auto simp: ok_result_def range_option_ok parse_range_ok split: prod.splits if_splits)
  show ?thesis
    unfolding oa opt_step_def prod.case Let_def
    by (intro ok_result_intros t f r number_option_ok other_option_ok filter_option_ok assms)
qed

lemma opt_loop_ok: "opts_ok q \<Longrightarrow> ok_result (opt_loop atof oas q)"
proof (induction oas arbitrary: q)
  case (Cons oa oas)
  from opt_step_ok [OF Cons.prems, of atof oa] Cons.IH show ?case
    by (cases "opt_step atof oa q") (simp_all add: ok_result_def)
qed (simp add: ok_result_def)

lemma default_opts_ok: "opts_ok (default_opts d)"
  by (simp add: opts_ok_def default_opts_def)

text \<open>
  C27. What reaches a session is in range: the options that either command accepts hold at most two ranges,
  each an address range or a function name that fits its array, at most 64 thread ids,
  frequencies and thresholds of at most 15, and function names without commas; \<open>exec\<close> has a command and
  \<open>trace\<close> a positive process id. Nothing else gets past the option loops.
\<close>

theorem accepted_options_ok:
  "(case exec_options atof args of Inl rc \<Rightarrow> rc = 0 \<or> rc = 1 | Inr (q, cmd) \<Rightarrow> opts_ok q \<and> cmd \<noteq> []) \<and>
   (case trace_options atof args of Inl rc \<Rightarrow> rc = 0 \<or> rc = 1 | Inr (q, pid) \<Rightarrow> opts_ok q \<and> 0 < pid)"
proof
  obtain oas rest where g: "getopt_all ''f:b:s:d:t:m:o:r:T:P:M:Y:F:AhnpCWK'' [] args = (oas, rest)"
    by (cases "getopt_all ''f:b:s:d:t:m:o:r:T:P:M:Y:F:AhnpCWK'' [] args")
  show "case exec_options atof args of Inl rc \<Rightarrow> rc = 0 \<or> rc = 1 | Inr (q, cmd) \<Rightarrow> opts_ok q \<and> cmd \<noteq> []"
    using opt_loop_ok [OF default_opts_ok [of 30], of atof oas]
    by (auto simp: ok_result_def exec_options_def g Let_def split: sum.splits)
next
  obtain oas rest where g: "getopt_all ''f:b:s:d:t:m:o:r:T:P:M:Y:F:hnpCWK'' [] args = (oas, rest)"
    by (cases "getopt_all ''f:b:s:d:t:m:o:r:T:P:M:Y:F:hnpCWK'' [] args")
  show "case trace_options atof args of Inl rc \<Rightarrow> rc = 0 \<or> rc = 1 | Inr (q, pid) \<Rightarrow> opts_ok q \<and> 0 < pid"
    using opt_loop_ok [OF default_opts_ok [of 0], of atof oas]
    by (auto simp: ok_result_def trace_options_def g split: sum.splits)
qed

end
