(* ===== verification/Recording.thy ===== *)
theory Recording
  imports Finalize Options
begin

text \<open>
  What \<open>cmd_exec.c\<close> and \<open>cmd_trace.c\<close> have in common: what the outside answers to a recording, storing
  the options in the context, the search along \<open>PATH\<close>, the names of the output files, and the part of their loops that
  polls the driver. The lemmas lift the invariants of a session to a poll.
\<close>

section \<open>The outside of a recording\<close>

datatype wait_status = W_exited nat | W_signaled nat | W_stopped nat

datatype signal_no = SIGKILL | SIGCONT

text \<open>
  What the program does to processes, in order: a child that is forked for a command (with
  address-space randomisation off or not), signals, and children that are waited for.
\<close>

datatype proc_event = P_fork int "string list" bool | P_kill int signal_no | P_reap int

text \<open>
  \<open>waitpid\<close> without WNOHANG for a child that is going to end: it is reaped, unless it has been (the call
  then fails).
\<close>

definition sys_wait :: "int \<Rightarrow> proc_event list \<Rightarrow> proc_event list" where
  "sys_wait pid pl = (if P_reap pid \<in> set pl then pl else pl @ [P_reap pid])"

text \<open>
  The answers of the kernel and the libraries. \<open>re_child_first\<close> is what \<open>waitpid\<close> reports of the freshly
  forked child (\<open>None\<close> is an error), \<open>re_child n\<close> what it reports without blocking in iteration \<open>n\<close> of the loop,
  \<open>re_child_end\<close> what it reports of a child that was killed. \<open>re_elapsed n\<close> are the seconds since the start.
\<close>

record rec_env =
  re_kernel :: kernel
  re_mode_thread :: int
  re_kldfind :: "string \<Rightarrow> bool"
  re_hooks :: int
  re_cpuid :: "u32 \<times> u32"
  re_elf :: elf_env
  re_vm :: vmmap_env
  re_exe_path :: "string option"
  re_path_var :: "string option"
  re_stat_x :: "string \<Rightarrow> bool"
  re_atof :: "string \<Rightarrow> rat"
  re_meta_ok :: bool
  re_mem :: "nat \<Rightarrow> bool"
  re_clock :: "nat \<Rightarrow> clock_time"
  re_elapsed :: "nat \<Rightarrow> rat"
  re_drain :: "nat \<Rightarrow> bsdtrace_record list option"
  re_kbase :: "u64 option"
  re_fork :: int
  re_child_first :: "wait_status option"
  re_child :: "nat \<Rightarrow> wait_status option"
  re_child_end :: wait_status
  re_interrupted :: "nat \<Rightarrow> bool"
  re_alive :: "nat \<Rightarrow> bool"

text \<open>The result of a command: exit code, standard output, process state, process events, and the sidecar's text.\<close>

record cmd_result =
  cr_rc :: int
  cr_out :: string
  cr_os :: os
  cr_log :: "proc_event list"
  cr_meta :: "string option"

definition early :: "int \<Rightarrow> os \<Rightarrow> proc_event list \<Rightarrow> cmd_result" where
  "early rc os pl = \<lparr>cr_rc = rc, cr_out = [], cr_os = os, cr_log = pl, cr_meta = None\<rparr>"

section \<open>Setup\<close>

definition store_options :: "cmd_opts \<Rightarrow> ip_filter \<Rightarrow> hwt_ctx \<Rightarrow> hwt_ctx" where
  "store_options q flt ctx =
     ctx\<lparr>hc_filter := flt, hc_psb_freq := of_int (o_psb_freq q),
         hc_mtc_freq := (if o_mtc_freq q > 0 then of_int (o_mtc_freq q) else hc_mtc_freq ctx),
         hc_cyc_thresh := (if o_cyc_thresh q > 0 then of_int (o_cyc_thresh q) else hc_cyc_thresh ctx),
         hc_ptwrite := o_ptwrite q, hc_os_trace := o_os_trace q, hc_all_threads := o_all_threads q,
         hc_requested_tids := (if o_tids q \<noteq> [] then o_tids q else hc_requested_tids ctx)\<rparr>"

text \<open>The timing options; \<open>None\<close> when the CPU has no timing packets although \<open>-C\<close> asks for them.\<close>

definition default_timing :: "u32 \<times> u32 \<Rightarrow> cmd_opts \<Rightarrow> hwt_ctx \<Rightarrow> hwt_ctx option" where
  "default_timing cpuid q ctx =
     (if o_timing q \<and> hc_mtc_freq ctx = 0 \<and> hc_cyc_thresh ctx = 0
      then (case hwt_pt_default_timing (fst cpuid) (snd cpuid) of (m, c) \<Rightarrow>
              if m = 0 \<and> c = 0 then None else Some (ctx\<lparr>hc_mtc_freq := m, hc_cyc_thresh := c\<rparr>))
      else Some ctx)"

definition output_path :: "string option \<Rightarrow> int \<Rightarrow> string" where
  "output_path given pid =
     (case given of Some p \<Rightarrow> p | None \<Rightarrow> take 63 (''bsdtrace-'' @ fmt_d pid @ ''.pt''))"

text \<open>The sidecar as it is opened: header and timing.\<close>

definition open_sidecar :: "bool \<Rightarrow> int \<Rightarrow> int \<Rightarrow> hwt_ctx \<Rightarrow> meta_writer" where
  "open_sidecar ok pid tid ctx =
     meta_writer_timing (meta_writer_header (meta_writer_open ok) pid tid) (ucast (hc_mtc_freq ctx)) (ucast (hc_cyc_thresh ctx))"

definition recording_opts :: "cmd_opts \<Rightarrow> hwt_ctx \<Rightarrow> pt_decode_opts" where
  "recording_opts q ctx =
     \<lparr>do_tid = hc_tid ctx, do_mtc_freq = 0, do_cyc_thresh = 0, do_filter_funcs = o_filter_funcs q\<rparr>"

section \<open>Polling\<close>

definition MAX_POLL_RECORDS :: nat where "MAX_POLL_RECORDS = 256"
definition MAX_EMPTY_DRAINS :: nat where "MAX_EMPTY_DRAINS = 5"

text \<open>
  One poll of the loop and the processing of its records: \<open>None\<close> in the middle is a failing poll. The outer
  \<open>None\<close> comes from the formatter's buffer.
\<close>

definition poll_and_emit ::
  "rec_env \<Rightarrow> nat \<Rightarrow> int \<Rightarrow> bsdtrace_fmt \<Rightarrow> bool \<Rightarrow> run \<Rightarrow> (nat option \<times> run) option" where
  "poll_and_emit V n pid fmt pause = (\<lambda>(s, ts, out).
     case hwt_ctx_poll_records (re_kernel V) (re_mem V n) MAX_POLL_RECORDS False s of
       (None, s1) \<Rightarrow> Some (None, (s1, ts, out))
     | (Some recs, s1) \<Rightarrow>
         map_option (\<lambda>r. (Some (length recs), r)) (emit_all (re_kernel V) (re_clock V n) pid fmt pause (s1, ts, out) recs))"

text \<open>How many polls in a row were empty since the target ended.\<close>

definition drained :: "bool \<Rightarrow> nat \<Rightarrow> nat \<Rightarrow> nat" where
  "drained ended nrecs polls = (if ended then if nrecs = 0 then polls + 1 else 0 else polls)"

section \<open>Invariants\<close>

lemma poll_and_emit_inv:
  assumes "session_inv fds maps s" "poll_and_emit V n pid fmt pause (s, ts, out) = Some (k, (s', ts', out'))"
  shows "session_inv fds maps s'"
proof -
  obtain recs s1 where p: "hwt_ctx_poll_records (re_kernel V) (re_mem V n) MAX_POLL_RECORDS False s = (recs, s1)" by (metis prod.exhaust)
  have i: "session_inv fds maps s1" using step_inv [OF step_poll [OF p] assms(1)] .
  show ?thesis
    using assms(2) i emit_all_inv [OF i] by (cases recs) (auto simp: poll_and_emit_def p)
qed

lemma poll_keeps_session:
  "poll_and_emit V n pid fmt pause r = Some (k, r') \<Longrightarrow> session_inv fds maps (fst r) \<Longrightarrow> session_inv fds maps (fst r')"
  using poll_and_emit_inv [of fds maps "fst r" V n pid fmt pause "fst (snd r)" "snd (snd r)" k "fst r'" "fst (snd r')" "snd (snd r')"]
  by simp

lemma poll_counts:
  assumes "hwt_ctx_poll_records K mem m w (ctx, os) = (Some recs, ctx', os')"
  shows "os_n os' = os_n os + 1" "k_records K (os_n os) = [] \<Longrightarrow> recs = []"
  using assms by (auto simp: hwt_ctx_poll_records_def Let_def sys_ioctl_def os_answer_def split: if_splits)

lemma options_inv:
  assumes "session_inv fds maps (ctx, os)"
  shows "session_inv fds maps (store_options q flt ctx, os)"
    "default_timing cpuid q ctx = Some ctx' \<Longrightarrow> session_inv fds maps (ctx', os)"
  by (rule inv_same [OF assms]; auto simp: store_options_def default_timing_def split: prod.splits if_splits)+

lemma config_inv: "session_inv fds maps s \<Longrightarrow> hwt_ctx_set_config K pause s = (rc, s') \<Longrightarrow> session_inv fds maps s'"
  by (rule step_inv [OF step_config])

lemma start_inv: "session_inv fds maps s \<Longrightarrow> hwt_ctx_start K s = (rc, s') \<Longrightarrow> session_inv fds maps s'"
  by (rule step_inv [OF step_start])

lemma close_mset:
  assumes "session_inv fds maps s" "hwt_ctx_close K s = (ctx', os')"
  shows "mset (os_fds os') = mset fds" "mset (os_maps os') = mset maps"
  using hwt_ctx_close_releases [of fds maps "fst s" "snd s" K ctx' os'] assms by (simp_all add: session_inv_def)

lemma hwt_available_os: "hwt_available K os = (avail, os') \<Longrightarrow> mset (os_fds os') = mset (os_fds os) \<and> os_maps os' = os_maps os"
proof -
  assume r: "hwt_available K os = (avail, os')"
  obtain fd os1 where o: "sys_open K ''/dev/hwt'' os = (fd, os1)" by fastforce
  from r sys_open_effect [OF o] show ?thesis by (auto simp: hwt_available_def o sys_close_def split: if_splits)
qed

lemma resolve_backend_os:
  "resolve_backend K kldfind name os = (r, os') \<Longrightarrow> mset (os_fds os') = mset (os_fds os) \<and> os_maps os' = os_maps os"
  using hwt_available_os by (fastforce simp: resolve_backend_def split: if_splits option.splits prod.splits)

section \<open>Progress of a poll\<close>

text \<open>With the JSON format, the ranges of a broken-down clock and of the kernel's records keep a line within its buffer.\<close>

definition emit_safe :: "rec_env \<Rightarrow> int \<Rightarrow> bsdtrace_fmt \<Rightarrow> bool" where
  "emit_safe V pid fmt \<longleftrightarrow>
     (fmt = FMT_JSON \<longrightarrow> int32 pid \<and> (\<forall>n. clock_ok (re_clock V n)) \<and>
        (\<forall>n. \<forall>e \<in> set (k_records (re_kernel V) n). record_ok (convert_entry e)))"

definition quiet_from :: "kernel \<Rightarrow> nat \<Rightarrow> bool" where
  "quiet_from K m \<longleftrightarrow> (\<forall>n \<ge> m. k_records K n = [])"

definition calls :: "run \<Rightarrow> nat" where
  "calls r = os_n (snd (fst r))"

lemma wakeup_calls: "os_n (snd s) \<le> os_n (snd (snd (hwt_ctx_wakeup K s)))"
  by (cases s) (simp add: hwt_ctx_wakeup_def sys_ioctl_def os_answer_def)

lemma open_thread_calls: "os_n (snd s) \<le> os_n (snd (snd (hwt_ctx_open_thread K t s)))"
  by (cases s) (simp add: hwt_ctx_open_thread_def sys_open_def os_answer_def)

lemma emit_returns:
  assumes "fmt = FMT_JSON \<longrightarrow> clock_ok t \<and> record_ok rec \<and> int32 pid"
  shows "\<exists>r'. emit_and_process K t pid fmt pause r rec = Some r' \<and> calls r \<le> calls r'"
proof -
  obtain s ts out where r: "r = (s, ts, out)" by (metis prod.exhaust)
  define s1 where "s1 = (if pause \<and> (r_type rec = HWT_RECORD_MMAP \<or> r_type rec = HWT_RECORD_EXECUTABLE)
               then snd (hwt_ctx_wakeup K s) else s)"
  define s2 where "s2 = (if wants_thread (fst s1) rec then snd (hwt_ctx_open_thread K (r_thread_id rec) s1) else s1)"
  have c: "os_n (snd s) \<le> os_n (snd s2)"
    using wakeup_calls [of s K] open_thread_calls [of s1 K "r_thread_id rec"] unfolding s2_def
    by (cases "wants_thread (fst s1) rec") (auto simp: s1_def intro: order_trans split: if_splits)
  obtain line where "(if fmt = FMT_JSON then fmt_record_json t rec pid
      else if fmt = FMT_TEXT then Some (fmt_record_text t rec pid) else Some []) = Some line"
    using assms fmt_record_json_whole by (cases "fmt = FMT_JSON"; cases "fmt = FMT_TEXT") auto
  then have "emit_and_process K t pid fmt pause r rec = Some (s2, trace_state_process True ts rec, out @ line)"
    unfolding r emit_and_process_def prod.case Let_def s1_def [symmetric] s2_def [symmetric] by (simp add: s1_def s2_def)
  then show ?thesis using c by (simp add: calls_def r)
qed

lemma emit_all_returns:
  assumes "\<forall>rec \<in> set recs. fmt = FMT_JSON \<longrightarrow> clock_ok t \<and> record_ok rec \<and> int32 pid"
  shows "\<exists>r'. emit_all K t pid fmt pause r recs = Some r' \<and> calls r \<le> calls r'"
  using assms
proof (induction recs arbitrary: r)
  case (Cons rec recs)
  obtain r1 where r1: "emit_and_process K t pid fmt pause r rec = Some r1" "calls r \<le> calls r1"
    using emit_returns [of fmt t rec pid K pause r] Cons.prems by auto
  obtain r' where "emit_all K t pid fmt pause r1 recs = Some r'" "calls r1 \<le> calls r'"
    using Cons.IH Cons.prems by (metis list.set_intros(2))
  then show ?case using r1 by auto
qed simp

text \<open>A poll returns; one that succeeds makes a system call, and finds nothing once the driver is quiet.\<close>

lemma poll_and_emit_returns:
  assumes "emit_safe V pid fmt"
  shows "\<exists>k r'. poll_and_emit V n pid fmt pause r = Some (k, r') \<and>
           (\<forall>j. k = Some j \<longrightarrow> calls r < calls r' \<and> (quiet_from (re_kernel V) (calls r) \<longrightarrow> j = 0))"
proof -
  obtain ctx os ts out where r: "r = ((ctx, os), ts, out)" by (metis prod.exhaust)
  obtain recs ctx1 os1 where p: "hwt_ctx_poll_records (re_kernel V) (re_mem V n) MAX_POLL_RECORDS False (ctx, os) = (recs, ctx1, os1)"
    by (metis prod.exhaust)
  show ?thesis
  proof (cases recs)
    case None
    then show ?thesis by (simp add: poll_and_emit_def r p)
  next
    case (Some rs)
    note pc = poll_counts [OF p [unfolded Some]]
    have "set rs \<subseteq> convert_entry ` set (k_records (re_kernel V) (os_n os))"
      using p Some by (auto simp: hwt_ctx_poll_records_def Let_def split: if_splits prod.splits dest!: in_set_takeD)
    then have "\<forall>rec \<in> set rs. fmt = FMT_JSON \<longrightarrow> clock_ok (re_clock V n) \<and> record_ok rec \<and> int32 pid"
      using assms by (auto simp: emit_safe_def)
    from emit_all_returns [OF this, of "re_kernel V" pause "((ctx1, os1), ts, out)"]
    obtain r' where "emit_all (re_kernel V) (re_clock V n) pid fmt pause ((ctx1, os1), ts, out) rs = Some r'"
      "calls ((ctx1, os1), ts, out) \<le> calls r'" by blast
    then show ?thesis using pc by (simp add: poll_and_emit_def r p Some calls_def quiet_from_def)
  qed
qed

section \<open>Polling loops\<close>

text \<open>
  The contract of the two polling loops. A tick either leaves the loop or goes on. While it goes on it has made calls to the
  driver; the end of the traced process, once noticed, is not forgotten; and when that process has ended and the driver is
  quiet, empty polls are counted below the limit. \<open>halts n e\<close>: the user or a limit ends the loop at the \<open>n\<close>-th tick,
  where \<open>e\<close> tells whether the end of the process has been noticed; \<open>ends n\<close>: the process is found ended at that tick.
\<close>

locale polling =
  fixes loop :: "nat \<Rightarrow> 's \<Rightarrow> 's option"
    and tick :: "nat \<Rightarrow> 's \<Rightarrow> (bool \<times> 's) option"
    and inv :: "'s \<Rightarrow> bool"
    and ended :: "'s \<Rightarrow> bool"
    and empties :: "'s \<Rightarrow> nat"
    and made :: "'s \<Rightarrow> nat"
    and halts :: "nat \<Rightarrow> bool \<Rightarrow> bool"
    and ends :: "nat \<Rightarrow> bool"
    and quiet :: "nat \<Rightarrow> bool"
  assumes loop_step: "tick n st = Some (stop, st') \<Longrightarrow> loop n st = (if stop then Some st' else loop (n + 1) st')"
    and tick_returns: "inv st \<Longrightarrow> \<exists>stop st'. tick n st = Some (stop, st') \<and> inv st' \<and>
           (\<not> stop \<longrightarrow> \<not> halts n (ended st) \<and> made st < made st' \<and> (ended st \<or> ends n \<longrightarrow> ended st') \<and>
              (ended st \<and> quiet (made st) \<longrightarrow> empties st' = empties st + 1 \<and> empties st' < MAX_EMPTY_DRAINS))"
    and quiet_mono: "quiet m \<Longrightarrow> m \<le> k \<Longrightarrow> quiet k"
begin

text \<open>Once the process has ended and the driver is quiet, at most five more polls are made.\<close>

lemma loop_drains: "inv st \<Longrightarrow> ended st \<Longrightarrow> quiet (made st) \<Longrightarrow> \<exists>st'. loop n st = Some st'"
proof (induction "MAX_EMPTY_DRAINS - empties st" arbitrary: st n rule: less_induct)
  case less
  obtain stop st1 where t: "tick n st = Some (stop, st1)" "inv st1"
    "\<not> stop \<longrightarrow> made st < made st1 \<and> ended st1 \<and> empties st1 = empties st + 1 \<and> empties st1 < MAX_EMPTY_DRAINS"
    using tick_returns [OF less.prems(1), of n] less.prems(2,3) by auto
  show ?case
  proof (cases stop)
    case True
    then show ?thesis using loop_step [OF t(1)] by simp
  next
    case False
    then have "quiet (made st1)" using quiet_mono [OF less.prems(3)] t(3) by auto
    moreover have "MAX_EMPTY_DRAINS - empties st1 < MAX_EMPTY_DRAINS - empties st" using t(3) False by linarith
    ultimately show ?thesis using less.hyps [of st1 "n + 1"] loop_step [OF t(1)] t(2,3) False by simp
  qed
qed

text \<open>By the \<open>N\<close>-th tick the loop has ended, or it drains.\<close>

lemma loop_returns:
  assumes "(\<forall>e. halts N e) \<or> ((halts N False \<or> ends N) \<and> quiet M)"
  shows "inv st \<Longrightarrow> n \<le> made st \<Longrightarrow> ((\<forall>e. halts N e) \<longrightarrow> n \<le> N) \<Longrightarrow> (N < n \<longrightarrow> halts N False \<or> ends N \<longrightarrow> ended st) \<Longrightarrow>
    \<exists>st'. loop n st = Some st'"
proof (induction "max (Suc N) M - n" arbitrary: st n rule: less_induct)
  case less
  show ?case
  proof (cases "max (Suc N) M \<le> n")
    case True
    then have n: "N < n" "M \<le> n" by auto
    then have "(halts N False \<or> ends N) \<and> quiet M" using assms less.prems(3) by auto
    then show ?thesis using loop_drains [OF less.prems(1)] less.prems(2,4) n quiet_mono [of M "made st"] by auto
  next
    case m: False
    obtain stop st1 where t: "tick n st = Some (stop, st1)" "inv st1"
      "\<not> stop \<longrightarrow> \<not> halts n (ended st) \<and> made st < made st1 \<and> (ended st \<or> ends n \<longrightarrow> ended st1)"
      using tick_returns [OF less.prems(1), of n] by auto
    show ?thesis
    proof (cases stop)
      case True
      then show ?thesis using loop_step [OF t(1)] by simp
    next
      case go: False
      have "n + 1 \<le> made st1" using t(3) go less.prems(2) by auto
      moreover have "(\<forall>e. halts N e) \<longrightarrow> n + 1 \<le> N" using t(3) go less.prems(3) by (cases "n = N") auto
      moreover have "N < n + 1 \<longrightarrow> halts N False \<or> ends N \<longrightarrow> ended st1"
        using t(3) go less.prems(4) by (cases "n = N"; cases "ended st") auto
      moreover have "max (Suc N) M - (n + 1) < max (Suc N) M - n" using m by linarith
      ultimately show ?thesis using less.hyps [of "n + 1" st1] loop_step [OF t(1)] t(2) go by simp
    qed
  qed
qed

lemmas loop_returns_0 = loop_returns [where n = 0, simplified]

end

section \<open>A sample environment\<close>

text \<open>A driver that grants every request and has no records, and a child that ends at once with exit code 3.\<close>

definition sample_rec_env :: rec_env where
  "sample_rec_env =
     \<lparr>re_kernel = yes_kernel, re_mode_thread = 1, re_kldfind = (\<lambda>n. True), re_hooks = 1, re_cpuid = (0, 0), re_elf = lld_env,
      re_vm = lld_vmmap, re_exe_path = Some ''/bin/a'', re_path_var = None, re_stat_x = (\<lambda>p. False), re_atof = (\<lambda>s. 0),
      re_meta_ok = True, re_mem = (\<lambda>n. True), re_clock = (\<lambda>n. sample_clock), re_elapsed = (\<lambda>n. of_nat n * 31),
      re_drain = (\<lambda>n. Some []), re_kbase = None, re_fork = 100, re_child_first = Some (W_stopped 17),
      re_child = (\<lambda>n. Some (W_exited 3)), re_child_end = W_signaled 9, re_interrupted = (\<lambda>n. False), re_alive = (\<lambda>n. False)\<rparr>"

lemma sample_rec_env_simps [simp]:
  "re_kernel sample_rec_env = yes_kernel" "re_hooks sample_rec_env = 1" "re_atof sample_rec_env = (\<lambda>s. 0)"
  "re_mem sample_rec_env = (\<lambda>n. True)" "re_elapsed sample_rec_env = (\<lambda>n. of_nat n * 31)" "re_fork sample_rec_env = 100"
  "re_child_first sample_rec_env = Some (W_stopped 17)" "re_child sample_rec_env = (\<lambda>n. Some (W_exited 3))"
  "re_kldfind sample_rec_env = (\<lambda>n. True)" "re_mode_thread sample_rec_env = 1" "re_alive sample_rec_env = (\<lambda>n. False)"
  "re_interrupted sample_rec_env = (\<lambda>n. False)"
  by (simp_all add: sample_rec_env_def)

lemma yes_quiet: "quiet_from yes_kernel n"
  by (simp add: quiet_from_def yes_kernel_def)

end
