(* ===== verification/Cmd_Exec.thy ===== *)
theory Cmd_Exec
  imports Recording
begin

text \<open>
  \<open>cmd_exec.c\<close>: running a command under trace. The child is forked stopped, the session is set up, the child is
  resumed, and a loop polls the driver until the child has ended and the driver is quiet, or the time or
  the number of records is used up. The lemmas show that whatever fails the session is released and the child reaped, when
  the loop ends, and where a signal is sent to a process that is no longer the child.
\<close>

section \<open>Model\<close>

text \<open>\<open>fork_stopped\<close>: the child's process id or -1, and the process events.\<close>

definition fork_stopped :: "rec_env \<Rightarrow> string list \<Rightarrow> bool \<Rightarrow> int \<times> proc_event list" where
  "fork_stopped V args no_aslr =
     (let pid = re_fork V
      in if pid = - 1 then (- 1, [])
         else case re_child_first V of
                None \<Rightarrow> (- 1, sys_wait pid [P_fork pid args no_aslr, P_kill pid SIGKILL])
              | Some (W_stopped sig) \<Rightarrow> (pid, [P_fork pid args no_aslr])
              | Some _ \<Rightarrow> (- 1, sys_wait pid (sys_wait pid [P_fork pid args no_aslr] @ [P_kill pid SIGKILL])))"

text \<open>The search along \<open>PATH\<close> for the executable of a bare command name.\<close>

function path_search :: "(string \<Rightarrow> bool) \<Rightarrow> string \<Rightarrow> string \<Rightarrow> string option" where
  "path_search stat_x cmd p =
     (if p = [] then None
      else let dir = takeWhile (\<lambda>c. c \<noteq> CHR '':'') p;
               rest = dropWhile (\<lambda>c. c \<noteq> CHR '':'') p;
               resolved = take (MAXPATHLEN - 1) (dir @ ''/'' @ cmd)
           in if stat_x resolved then Some resolved
              else if rest = [] then None
              else path_search stat_x cmd (tl rest))"
  by pat_completeness auto
termination
proof (relation "measure (\<lambda>(x, cmd, p). length p)")
  fix stat_x :: "string \<Rightarrow> bool" and cmd p dir rest resolved :: string
  assume "rest = dropWhile (\<lambda>c. c \<noteq> CHR '':'') p" "\<not> rest = []"
  then have "length rest \<le> length p" "length (tl rest) < length rest" by (simp_all only: length_dropWhile_le) simp
  then show "((stat_x, cmd, tl rest), stat_x, cmd, p) \<in> measure (\<lambda>(x, cmd, p). length p)" by simp
qed simp

declare path_search.simps [simp del]

definition exe_for_symbols :: "rec_env \<Rightarrow> string \<Rightarrow> string" where
  "exe_for_symbols V cmd =
     (if CHR ''/'' \<in> set cmd then cmd
      else case re_path_var V of
             None \<Rightarrow> cmd
           | Some p \<Rightarrow> (case path_search (re_stat_x V) cmd p of None \<Rightarrow> cmd | Some r \<Rightarrow> r))"

text \<open>The filter, and whether randomisation has to be off for the child.\<close>

definition exec_filter :: "rec_env \<Rightarrow> cmd_opts \<Rightarrow> string \<Rightarrow> (ip_filter \<times> bool) option" where
  "exec_filter V q cmd =
     (if o_ranges q = [] then Some ([], o_no_aslr q)
      else map_option (\<lambda>(f, aslr). (f, o_no_aslr q \<or> aslr))
             (resolve_range_specs (re_elf V) (re_vm V) (o_ranges q) (Some (exe_for_symbols V cmd)) True))"

text \<open>The state of the loop.\<close>

record exec_state =
  es_run :: run
  es_total :: int
  es_done :: bool
  es_exitcode :: int
  es_empty :: nat
  es_log :: "proc_event list"

definition exit_status :: "int \<Rightarrow> wait_status \<Rightarrow> int" where
  "exit_status old w = (case w of W_exited c \<Rightarrow> int c | W_signaled sig \<Rightarrow> 128 + int sig | W_stopped sig \<Rightarrow> old)"

definition kill_child :: "int \<Rightarrow> exec_state \<Rightarrow> exec_state" where
  "kill_child pid st = st\<lparr>es_log := es_log st @ [P_kill pid SIGKILL]\<rparr>"

text \<open>The non-blocking \<open>waitpid\<close>; after the child has been reaped it fails.\<close>

definition check_child :: "rec_env \<Rightarrow> int \<Rightarrow> nat \<Rightarrow> exec_state \<Rightarrow> exec_state" where
  "check_child V pid n st =
     (if P_reap pid \<in> set (es_log st) then st
      else case re_child V n of
             None \<Rightarrow> st
           | Some w \<Rightarrow> st\<lparr>es_done := True, es_exitcode := exit_status (es_exitcode st) w, es_log := es_log st @ [P_reap pid]\<rparr>)"

text \<open>What follows a poll: whether the loop is left, and the state. A failing poll while the child runs ends it.\<close>

definition exec_polled :: "rec_env \<Rightarrow> int \<Rightarrow> exec_state \<Rightarrow> nat option \<Rightarrow> run \<Rightarrow> bool \<times> exec_state" where
  "exec_polled V pid st k r =
     (case k of
        None \<Rightarrow>
          if es_done st then (True, st\<lparr>es_run := r\<rparr>)
          else (True, st\<lparr>es_run := r, es_log := sys_wait pid (es_log st @ [P_kill pid SIGKILL]), es_done := True,
                  es_exitcode := (case re_child_end V of W_signaled sig \<Rightarrow> 128 + int sig | _ \<Rightarrow> 1)\<rparr>)
      | Some j \<Rightarrow>
          let e = drained (es_done st) j (es_empty st)
          in (es_done st \<and> j = 0 \<and> e \<ge> MAX_EMPTY_DRAINS, st\<lparr>es_run := r, es_total := es_total st + int j, es_empty := e\<rparr>))"

text \<open>One iteration.\<close>

definition exec_tick :: "rec_env \<Rightarrow> cmd_opts \<Rightarrow> int \<Rightarrow> nat \<Rightarrow> exec_state \<Rightarrow> (bool \<times> exec_state) option" where
  "exec_tick V q pid n st =
     (if o_duration q > 0 \<and> re_elapsed V n \<ge> o_duration q then Some (True, kill_child pid st)
      else if o_maxrecords q > 0 \<and> es_total st \<ge> o_maxrecords q then Some (True, kill_child pid st)
      else let st1 = check_child V pid n st
           in map_option (\<lambda>(k, r). exec_polled V pid st1 k r)
                (poll_and_emit V n pid (o_fmt q) (o_pause q) (es_run st1)))"

text \<open>The loop may run for ever.\<close>

partial_function (option) exec_loop :: "rec_env \<Rightarrow> cmd_opts \<Rightarrow> int \<Rightarrow> nat \<Rightarrow> exec_state \<Rightarrow> exec_state option" where
  "exec_loop V q pid n st =
     Option.bind (exec_tick V q pid n st) (\<lambda>x. if fst x then Some (snd x) else exec_loop V q pid (n + 1) (snd x))"

definition exec_reap :: "rec_env \<Rightarrow> int \<Rightarrow> exec_state \<Rightarrow> exec_state" where
  "exec_reap V pid st =
     (if es_done st then st
      else st\<lparr>es_log := sys_wait pid (es_log st), es_exitcode := exit_status (es_exitcode st) (re_child_end V)\<rparr>)"

text \<open>From the start of tracing to the end.\<close>

definition exec_record ::
  "(bytes \<Rightarrow> ('d, 'p) decode_env) \<Rightarrow> rec_env \<Rightarrow> cmd_opts \<Rightarrow> int \<Rightarrow> proc_event list \<Rightarrow> session \<Rightarrow> cmd_result option" where
  "exec_record E V q child pl s =
     (let pt_output = output_path (o_output q) child;
          ts = trace_state_init (open_sidecar (re_meta_ok V) child (o_tid q) (fst s));
          st0 = \<lparr>es_run = (s, ts, []), es_total = 0, es_done = False, es_exitcode = 0, es_empty = 0,
                 es_log = pl @ [P_kill child SIGCONT]\<rparr>
      in do {
           st1 \<leftarrow> exec_loop V q child 0 st0;
           let st2 = exec_reap V child st1;
           (rc, out, s', meta) \<leftarrow> trace_finalize (re_kernel V) E (re_mem V 0) (re_clock V 0) (re_drain V) (re_kbase V) pt_output
               child (o_fmt q) (Some (recording_opts q (fst (fst (es_run st2))))) (es_total st2) (es_run st2);
           Some \<lparr>cr_rc = es_exitcode st2, cr_out = out, cr_os = snd s', cr_log = es_log st2, cr_meta = meta\<rparr> })"

text \<open>The early returns after the fork: the session is closed, the child killed and reaped.\<close>

definition abort_exec :: "rec_env \<Rightarrow> int \<Rightarrow> int \<Rightarrow> proc_event list \<Rightarrow> session \<Rightarrow> cmd_result" where
  "abort_exec V rc child pl s =
     early rc (snd (hwt_ctx_close (re_kernel V) s)) (sys_wait child (pl @ [P_kill child SIGKILL]))"

text \<open>What follows the fork.\<close>

definition exec_session ::
  "(bytes \<Rightarrow> ('d, 'p) decode_env) \<Rightarrow> rec_env \<Rightarrow> cmd_opts \<Rightarrow> ip_filter \<Rightarrow> string \<Rightarrow> int \<Rightarrow> proc_event list \<Rightarrow> os \<Rightarrow>
   cmd_result option" where
  "exec_session E V q flt backend child pl os =
     (if child < 0 then Some (early 1 os pl)
      else case hwt_ctx_alloc (re_kernel V) (re_mode_thread V) child (o_tid q) (parse_size (o_bufsize q)) (Some backend) os of
             (rc, ctx, os2) \<Rightarrow>
        if rc \<noteq> 0 then Some (early 1 os2 (sys_wait child (pl @ [P_kill child SIGKILL])))
        else (case default_timing (re_cpuid V) q (store_options q flt ctx) of
                None \<Rightarrow> Some (abort_exec V 1 child pl (store_options q flt ctx, os2))
              | Some ctx1 \<Rightarrow>
                  (case hwt_ctx_set_config (re_kernel V) (o_pause q) (ctx1, os2) of (rc1, s1) \<Rightarrow>
                     if rc1 \<noteq> 0 then Some (abort_exec V 1 child pl s1)
                     else if o_dryrun q then Some (abort_exec V 0 child pl s1)
                     else case hwt_ctx_start (re_kernel V) s1 of (rc2, s2) \<Rightarrow>
                            if rc2 \<noteq> 0 then Some (abort_exec V 1 child pl s2)
                            else exec_record E V q child pl s2)))"

text \<open>The arguments are those behind the name of the command.\<close>

definition cmd_exec ::
  "(bytes \<Rightarrow> ('d, 'p) decode_env) \<Rightarrow> rec_env \<Rightarrow> string list \<Rightarrow> os \<Rightarrow> cmd_result option" where
  "cmd_exec E V args os =
     (case exec_options (re_atof V) args of
        Inl rc \<Rightarrow> Some (early rc os [])
      | Inr (q, cmd) \<Rightarrow>
          (case exec_filter V q (hd cmd) of
             None \<Rightarrow> Some (early 1 os [])
           | Some (flt, no_aslr) \<Rightarrow>
               (case resolve_backend (re_kernel V) (re_kldfind V) (o_backend q) os of
                  ((None, _), os1) \<Rightarrow> Some (early 1 os1 [])
                | ((Some backend, _), os1) \<Rightarrow>
                    if check_hwt_hooks (o_dryrun q) (re_hooks V) \<noteq> 0
                    then Some (early (if o_dryrun q then 0 else 1) os1 [])
                    else case fork_stopped V cmd no_aslr of (child, pl) \<Rightarrow>
                           exec_session E V q flt backend child pl os1)))"

section \<open>Releasing everything\<close>

definition is_reap :: "proc_event \<Rightarrow> bool" where "is_reap e \<longleftrightarrow> (\<exists>p. e = P_reap p)"
definition is_fork :: "proc_event \<Rightarrow> bool" where "is_fork e \<longleftrightarrow> (\<exists>p a n. e = P_fork p a n)"

lemma event_kinds [simp]:
  "is_reap (P_reap p)" "\<not> is_reap (P_kill p sig)" "\<not> is_reap (P_fork p a n)"
  "\<not> is_fork (P_reap p)" "\<not> is_fork (P_kill p sig)" "is_fork (P_fork p a n)"
  by (simp_all add: is_reap_def is_fork_def)

lemma filter_single: "filter P l = [x] \<Longrightarrow> x \<in> set l"
  using filter_is_subset [of P l] by simp

lemma reaped_once:
  "filter is_reap l = [] \<Longrightarrow> filter is_reap (sys_wait pid l) = [P_reap pid]"
  "filter is_reap l = [P_reap pid] \<Longrightarrow> sys_wait pid l = l"
  "filter is_fork (sys_wait pid l) = filter is_fork l"
  by (auto simp: sys_wait_def filter_empty_conv dest: filter_single)

text \<open>One child was forked, and it is reaped when the flag says so.\<close>

definition reap_inv :: "int \<Rightarrow> exec_state \<Rightarrow> bool" where
  "reap_inv pid st \<longleftrightarrow>
     filter is_reap (es_log st) = (if es_done st then [P_reap pid] else []) \<and>
     (\<exists>a n. filter is_fork (es_log st) = [P_fork pid a n])"

lemma reap_log:
  "reap_inv pid st \<Longrightarrow> P_reap pid \<in> set (es_log st) \<longleftrightarrow> es_done st"
  by (auto simp: reap_inv_def filter_empty_conv split: if_splits dest: filter_single)

lemma check_child_inv:
  "reap_inv pid st \<Longrightarrow> reap_inv pid (check_child V pid n st) \<and> es_run (check_child V pid n st) = es_run st"
  using reap_log [of pid st] by (auto simp: check_child_def reap_inv_def split: option.splits)

lemma kill_child_inv: "reap_inv pid st \<Longrightarrow> reap_inv pid (kill_child pid st)"
  by (simp add: kill_child_def reap_inv_def)

lemma exec_polled_inv: "reap_inv pid st \<Longrightarrow> exec_polled V pid st k r = (stop, st') \<Longrightarrow> reap_inv pid st' \<and> es_run st' = r"
  using reaped_once(1) [of "es_log st @ [P_kill pid SIGKILL]" pid]
  by (auto simp: exec_polled_def reap_inv_def reaped_once(3) Let_def split: option.splits if_splits)

lemma exec_tick_cases:
  assumes "exec_tick V q pid n st = Some (stop, st')"
  obtains (limit) "stop" "st' = kill_child pid st"
  | (poll) k r where "poll_and_emit V n pid (o_fmt q) (o_pause q) (es_run (check_child V pid n st)) = Some (k, r)"
      "exec_polled V pid (check_child V pid n st) k r = (stop, st')"
  using assms by (auto simp: exec_tick_def Let_def split: if_splits)

text \<open>What every poll keeps, the loop keeps.\<close>

lemma exec_tick_keeps:
  assumes "P (es_run st)" "reap_inv pid st" "exec_tick V q pid n st = Some (stop, st')"
    and "\<And>k r r'. poll_and_emit V n pid (o_fmt q) (o_pause q) r = Some (k, r') \<Longrightarrow> P r \<Longrightarrow> P r'"
  shows "P (es_run st') \<and> reap_inv pid st'"
  using assms(3)
proof (cases rule: exec_tick_cases)
  case limit
  then show ?thesis using assms(1,2) kill_child_inv by (simp add: kill_child_def)
next
  case (poll k r)
  note c = check_child_inv [OF assms(2), of V n]
  then have "P r" using assms(1) assms(4) [OF poll(1)] by simp
  then show ?thesis using exec_polled_inv [OF conjunct1 [OF c] poll(2)] by simp
qed

lemma exec_loop_keeps:
  assumes "exec_loop V q pid n st = Some st'" "P (es_run st)" "reap_inv pid st"
    and "\<And>n k r r'. poll_and_emit V n pid (o_fmt q) (o_pause q) r = Some (k, r') \<Longrightarrow> P r \<Longrightarrow> P r'"
  shows "P (es_run st') \<and> reap_inv pid st'"
  using assms(2-4)
proof (induction rule: exec_loop.raw_induct [OF _ assms(1), consumes 0], goal_cases)
  case (1 el V q pid n st st')
  then obtain x where t: "exec_tick V q pid n st = Some x"
    "(if fst x then Some (snd x) else el V q pid (n + 1) (snd x)) = Some st'"
    unfolding bind_eq_Some_conv by blast
  obtain stop st1 where x: "x = (stop, st1)" by (cases x)
  from exec_tick_keeps [where P = P, OF 1(3,4) t(1) [unfolded x] 1(5)] 1(1) [of V q pid "n + 1" st1 st'] 1(5) t(2) x
  show ?case by (cases stop) simp_all
qed

lemma exec_loop_inv:
  assumes "exec_loop V q pid n st = Some st'" "session_inv fds maps (fst (es_run st))" "reap_inv pid st"
  shows "session_inv fds maps (fst (es_run st')) \<and> reap_inv pid st'"
  using exec_loop_keeps [OF assms(1), of "\<lambda>r. session_inv fds maps (fst r)"] assms(2,3) poll_keeps_session by blast

text \<open>What a finished command leaves behind.\<close>

definition released :: "os \<Rightarrow> int \<Rightarrow> cmd_result \<Rightarrow> bool" where
  "released os child r \<longleftrightarrow>
     mset (os_fds (cr_os r)) = mset (os_fds os) \<and> mset (os_maps (cr_os r)) = mset (os_maps os) \<and>
     filter is_reap (cr_log r) = (if filter is_fork (cr_log r) = [] then [] else [P_reap child]) \<and>
     (\<forall>e \<in> set (cr_log r). is_fork e \<longrightarrow> (\<exists>a n. e = P_fork child a n))"

lemma filter_single_mem: "filter P l = [x] \<Longrightarrow> e \<in> set l \<Longrightarrow> P e \<Longrightarrow> e = x"
proof -
  assume h: "filter P l = [x]" "e \<in> set l" "P e"
  from h(2,3) have "e \<in> set (filter P l)" by simp
  then show "e = x" unfolding h(1) by simp
qed

lemma exec_record_released:
  assumes "exec_record E V q child pl s = Some r" "session_inv (os_fds os) (os_maps os) s"
    and "filter is_reap pl = []" "filter is_fork pl = [P_fork child a n]"
  shows "released os child r"
proof -
  define st0 where "st0 = \<lparr>es_run = (s, trace_state_init (open_sidecar (re_meta_ok V) child (o_tid q) (fst s)), []), es_total = 0,
      es_done = False, es_exitcode = 0, es_empty = 0, es_log = pl @ [P_kill child SIGCONT]\<rparr>"
  have i0: "session_inv (os_fds os) (os_maps os) (fst (es_run st0))" "reap_inv child st0"
    using assms(2-4) by (simp_all add: st0_def reap_inv_def)
  obtain st1 rc out s' meta where l: "exec_loop V q child 0 st0 = Some st1"
    and f: "trace_finalize (re_kernel V) E (re_mem V 0) (re_clock V 0) (re_drain V) (re_kbase V) (output_path (o_output q) child)
               child (o_fmt q) (Some (recording_opts q (fst (fst (es_run (exec_reap V child st1))))))
               (es_total (exec_reap V child st1)) (es_run (exec_reap V child st1)) = Some (rc, out, s', meta)"
    and r: "r = \<lparr>cr_rc = es_exitcode (exec_reap V child st1), cr_out = out, cr_os = snd s',
                 cr_log = es_log (exec_reap V child st1), cr_meta = meta\<rparr>"
    using assms(1) by (auto simp: exec_record_def Let_def bind_eq_Some_conv st0_def)
  from exec_loop_inv [OF l i0] have i1: "session_inv (os_fds os) (os_maps os) (fst (es_run st1))" "reap_inv child st1" by auto
  have i2: "filter is_reap (es_log (exec_reap V child st1)) = [P_reap child]"
    "\<exists>a n. filter is_fork (es_log (exec_reap V child st1)) = [P_fork child a n]" "es_run (exec_reap V child st1) = es_run st1"
    using i1(2) by (auto simp: exec_reap_def reap_inv_def reaped_once)
  obtain sx ts o1 where x: "es_run st1 = (sx, ts, o1)" by (metis prod.exhaust)
  obtain ctx' os' where s': "s' = (ctx', os')" by (cases s')
  have "mset (os_fds os') = mset (os_fds os)" "mset (os_maps os') = mset (os_maps os)"
    using finalize_release [OF _ f [unfolded i2(3) x s']] i1(1) x by simp_all
  with i2 show ?thesis unfolding released_def r by (auto simp: s' dest: filter_single_mem)
qed

lemma fork_stopped_log:
  assumes "fork_stopped V cmd b = (child, pl)" "re_fork V = - 1 \<or> 0 < re_fork V"
  shows "if child < 0 then filter is_reap pl = (if filter is_fork pl = [] then [] else [P_reap (re_fork V)])
           else child = re_fork V \<and> filter is_reap pl = []"
    and "filter is_fork pl = [] \<and> child < 0 \<or> filter is_fork pl = [P_fork (re_fork V) cmd b]"
  using assms by (auto simp: fork_stopped_def Let_def sys_wait_def split: option.splits wait_status.splits if_splits)

lemma killed_log:
  assumes "filter is_reap pl = []" "filter is_fork pl = [P_fork child a n]"
  shows "filter is_reap (sys_wait child (pl @ [P_kill child SIGKILL])) = [P_reap child]"
    "filter is_fork (sys_wait child (pl @ [P_kill child SIGKILL])) = [P_fork child a n]"
  using assms reaped_once(1) [of "pl @ [P_kill child SIGKILL]"] by (simp_all add: reaped_once(3))

lemma early_released:
  assumes "mset (os_fds os1) = mset (os_fds os)" "mset (os_maps os1) = mset (os_maps os)"
    and "filter is_reap pl = (if filter is_fork pl = [] then [] else [P_reap child])"
    and "filter is_fork pl = [] \<or> filter is_fork pl = [P_fork child a n]"
  shows "released os child (early rc os1 pl)"
  using assms by (auto simp: released_def early_def filter_empty_conv dest: filter_single_mem)

lemma abort_released:
  assumes "session_inv fds maps s" "mset fds = mset (os_fds os)" "mset maps = mset (os_maps os)"
    and "filter is_reap pl = []" "filter is_fork pl = [P_fork child a n]"
  shows "released os child (abort_exec V rc child pl s)"
proof -
  obtain ctx' os' where c: "hwt_ctx_close (re_kernel V) s = (ctx', os')" by fastforce
  show ?thesis unfolding abort_exec_def c snd_conv
    using close_mset [OF assms(1) c] assms(2,3) killed_log [OF assms(4,5)] by (intro early_released [where a = a and n = n]) simp_all
qed

lemma released_mono:
  "released os1 child r \<Longrightarrow> mset (os_fds os1) = mset (os_fds os) \<Longrightarrow> mset (os_maps os1) = mset (os_maps os) \<Longrightarrow> released os child r"
  by (simp add: released_def)

lemma exec_session_released:
  assumes "exec_session E V q flt backend child pl os = Some r"
    and "child < 0 \<Longrightarrow> filter is_reap pl = (if filter is_fork pl = [] then [] else [P_reap p]) \<and>
           (filter is_fork pl = [] \<or> filter is_fork pl = [P_fork p a n])"
    and "\<not> child < 0 \<Longrightarrow> child = p \<and> filter is_reap pl = [] \<and> filter is_fork pl = [P_fork p a n]"
  shows "released os p r"
proof (cases "child < 0")
  case True
  with assms(1) have "r = early 1 os pl" by (simp add: exec_session_def)
  then show ?thesis using assms(2) [OF True] early_released [OF refl refl, of pl p a n] by blast
next
  case False
  note pl = assms(3) [OF False]
  let ?inv = "session_inv (os_fds os) (os_maps os)"
  obtain rc ctx os2 where al: "hwt_ctx_alloc (re_kernel V) (re_mode_thread V) child (o_tid q) (parse_size (o_bufsize q))
      (Some backend) os = (rc, ctx, os2)" by (metis prod.exhaust)
  have ab: "released os p (abort_exec V c child pl s)" if "?inv s" for c s
    using abort_released [OF that refl refl] pl by simp
  note unf = assms(1) [unfolded exec_session_def al prod.case]
  show ?thesis
  proof (cases "rc = 0")
    case no: False
    then have "mset (os_fds os2) = mset (os_fds os)" "mset (os_maps os2) = mset (os_maps os)"
      using alloc_cases [OF al] by auto
    from early_released [OF this, of "sys_wait child (pl @ [P_kill child SIGKILL])" p a n]
    show ?thesis using unf no False pl killed_log [of pl p a n] by auto
  next
    case True
    then have "?inv (ctx, os2)" using alloc_cases [OF al] by simp
    note i = options_inv(1) [OF this, of q flt]
    show ?thesis
    proof (cases "default_timing (re_cpuid V) q (store_options q flt ctx)")
      case None
      with unf True False have "r = abort_exec V 1 child pl (store_options q flt ctx, os2)" by simp
      then show ?thesis using ab [OF i] by simp
    next
      case (Some ctx1)
      have i1: "?inv (ctx1, os2)" using options_inv(2) [OF i Some] .
      obtain rc1 s1 where c: "hwt_ctx_set_config (re_kernel V) (o_pause q) (ctx1, os2) = (rc1, s1)" by (metis prod.exhaust)
      obtain rc2 s2 where st: "hwt_ctx_start (re_kernel V) s1 = (rc2, s2)" by (metis prod.exhaust)
      have i2: "?inv s1" "?inv s2" using config_inv [OF i1 c] start_inv [OF config_inv [OF i1 c] st] by auto
      show ?thesis
        using unf True False Some c st ab [OF i2(1)] ab [OF i2(2)] exec_record_released [OF _ i2(2), of E V q child pl r a n] pl
        by (auto split: if_splits)
    qed
  qed
qed

text \<open>
  \<open>exec\<close> leaves nothing behind. Whatever the arguments are and whichever calls fail, at whatever point, when the
  command returns the process holds exactly the descriptors and mappings it had before, and the child, if one was
  forked, has been reaped exactly once.
\<close>

lemma cmd_exec_releases:
  assumes "re_fork V = - 1 \<or> 0 < re_fork V" "cmd_exec E V args os = Some r"
  shows "mset (os_fds (cr_os r)) = mset (os_fds os) \<and> mset (os_maps (cr_os r)) = mset (os_maps os) \<and>
         filter is_reap (cr_log r) = (if filter is_fork (cr_log r) = [] then [] else [P_reap (re_fork V)])"
proof -
  have e0: "released os (re_fork V) (early rc os [])" for rc by (simp add: released_def early_def)
  have "released os (re_fork V) r"
  proof (cases "\<exists>q cmd flt no_aslr. exec_options (re_atof V) args = Inr (q, cmd) \<and> exec_filter V q (hd cmd) = Some (flt, no_aslr)")
    case False
    then show ?thesis using assms(2) e0 by (auto simp: cmd_exec_def split: sum.splits option.splits prod.splits)
  next
    case True
    then obtain q cmd flt no_aslr where o: "exec_options (re_atof V) args = Inr (q, cmd)" "exec_filter V q (hd cmd) = Some (flt, no_aslr)"
      by blast
    obtain name det os1 where b: "resolve_backend (re_kernel V) (re_kldfind V) (o_backend q) os = ((name, det), os1)"
      by (metis prod.exhaust)
    note m = resolve_backend_os [OF b]
    have e1: "released os (re_fork V) (early rc os1 [])" for rc using m by (simp add: released_def early_def)
    obtain child pl where k: "fork_stopped V cmd no_aslr = (child, pl)" by fastforce
    note fl = fork_stopped_log [OF k assms(1)]
    have s: "released os (re_fork V) r" if "exec_session E V q flt backend child pl os1 = Some r" for backend
    proof -
      have "released os1 (re_fork V) r"
        by (rule exec_session_released [OF that, where a = cmd and n = no_aslr]) (use fl in auto)
      then show ?thesis using released_mono m by metis
    qed
    show ?thesis
      using assms(2) e1 s by (cases name) (auto simp: cmd_exec_def o b k split: if_splits)
  qed
  then show ?thesis by (simp add: released_def)
qed

section \<open>The loop ends\<close>

lemma exec_tick_returns:
  assumes "emit_safe V pid (o_fmt q)" "reap_inv pid st"
  shows "\<exists>stop st'. exec_tick V q pid n st = Some (stop, st') \<and> reap_inv pid st' \<and>
           (\<not> stop \<longrightarrow> \<not> (o_duration q > 0 \<and> re_elapsed V n \<ge> o_duration q) \<and> calls (es_run st) < calls (es_run st') \<and>
              (es_done st \<or> re_child V n \<noteq> None \<longrightarrow> es_done st') \<and>
              (es_done st \<and> quiet_from (re_kernel V) (calls (es_run st)) \<longrightarrow>
                 es_empty st' = es_empty st + 1 \<and> es_empty st' < MAX_EMPTY_DRAINS))"
proof (cases "(o_duration q > 0 \<and> re_elapsed V n \<ge> o_duration q) \<or> (o_maxrecords q > 0 \<and> es_total st \<ge> o_maxrecords q)")
  case True
  then have "exec_tick V q pid n st = Some (True, kill_child pid st)" by (elim disjE) (simp_all add: exec_tick_def)
  then show ?thesis using kill_child_inv [OF assms(2)] by blast
next
  case False
  let ?st1 = "check_child V pid n st"
  note c = check_child_inv [OF assms(2), of V n]
  have d: "es_done ?st1 \<longleftrightarrow> es_done st \<or> re_child V n \<noteq> None" "es_empty ?st1 = es_empty st"
    using reap_log [OF assms(2)] by (auto simp: check_child_def split: option.splits)
  note c2 = conjunct2 [OF c]
  obtain k r' where p: "poll_and_emit V n pid (o_fmt q) (o_pause q) (es_run st) = Some (k, r')"
    "\<forall>j. k = Some j \<longrightarrow> calls (es_run st) < calls r' \<and> (quiet_from (re_kernel V) (calls (es_run st)) \<longrightarrow> j = 0)"
    using poll_and_emit_returns [OF assms(1), of n "o_pause q" "es_run st"] by blast
  obtain stop st' where e: "exec_polled V pid ?st1 k r' = (stop, st')" by fastforce
  then have "exec_tick V q pid n st = Some (stop, st')" using False p(1) by (auto simp: exec_tick_def Let_def c2)
  moreover have "reap_inv pid st'" using exec_polled_inv [OF conjunct1 [OF c] e] by simp
  moreover have "\<not> stop \<longrightarrow> calls (es_run st) < calls (es_run st') \<and> (es_done st \<or> re_child V n \<noteq> None \<longrightarrow> es_done st') \<and>
      (es_done st \<and> quiet_from (re_kernel V) (calls (es_run st)) \<longrightarrow> es_empty st' = es_empty st + 1 \<and> es_empty st' < MAX_EMPTY_DRAINS)"
    using e p(2) d by (auto simp: exec_polled_def drained_def Let_def split: option.splits if_splits)
  ultimately show ?thesis using False by blast
qed

interpretation exec_poll: polling "exec_loop V q pid" "exec_tick V q pid" "\<lambda>st. emit_safe V pid (o_fmt q) \<and> reap_inv pid st"
    es_done es_empty "\<lambda>st. calls (es_run st)" "\<lambda>n e. 0 < o_duration q \<and> re_elapsed V n \<ge> o_duration q"
    "\<lambda>n. re_child V n \<noteq> None" "quiet_from (re_kernel V)" for V q pid
proof (unfold_locales, goal_cases)
  case (1 n st stop st')
  then show ?case by (subst exec_loop.simps) simp
next
  case (2 st n)
  then show ?case using exec_tick_returns [of V pid q st n] by blast
qed (auto simp: quiet_from_def)

text \<open>What \<open>waitpid\<close> after the loop adds.\<close>

lemma exec_reap_log: "reap_inv pid st \<Longrightarrow> filter is_reap (es_log (exec_reap V pid st)) = [P_reap pid]"
  by (auto simp: exec_reap_def reap_inv_def reaped_once)

text \<open>
  C11. \<open>exec\<close> stops polling. If the time limit is positive and reached at some point, or if the child ends and the
  driver delivers nothing more from some call on, then the loop returns, whatever else is answered (and whatever the
  size of the batches until then); after the \<open>waitpid\<close> that follows the child has been reaped exactly once.
\<close>

theorem exec_loop_terminates:
  assumes "emit_safe V pid (o_fmt q)" "reap_inv pid st" "session_inv fds maps (fst (es_run st))"
    and "(0 < o_duration q \<and> re_elapsed V N \<ge> o_duration q) \<or> (re_child V N \<noteq> None \<and> quiet_from (re_kernel V) M)"
  shows "\<exists>st'. exec_loop V q pid 0 st = Some st' \<and> filter is_reap (es_log (exec_reap V pid st')) = [P_reap pid]"
proof -
  obtain st' where "exec_loop V q pid 0 st = Some st'" using exec_poll.loop_returns_0 [where V = V and q = q and N = N and M = M] assms by blast
  with exec_loop_inv [OF this assms(3,2)] exec_reap_log show ?thesis by blast
qed

section \<open>A signal too late\<close>

text \<open>
  C40. A signal to a process that is no longer the child. When the child has ended and been reaped while its last
  records are still being drained, and the time limit passes in the next iteration, \<open>SIGKILL\<close> is sent to its process
  id, which the kernel may have given to another process by then.
\<close>

theorem exec_kills_reaped_child:
  assumes "emit_safe V pid (o_fmt q)" "reap_inv pid st" "\<not> es_done st" "es_empty st = 0"
    and "re_child V 0 \<noteq> None" "re_mem V 0" "k_ok (re_kernel V) (calls (es_run st))" "o_maxrecords q \<le> 0"
    and "0 < o_duration q" "re_elapsed V 0 < o_duration q" "o_duration q \<le> re_elapsed V 1"
  shows "\<exists>st'. exec_loop V q pid 0 st = Some st' \<and> es_log st' = es_log st @ [P_reap pid, P_kill pid SIGKILL]"
proof -
  obtain k r' where p: "poll_and_emit V 0 pid (o_fmt q) (o_pause q) (es_run st) = Some (k, r')"
    using poll_and_emit_returns [OF assms(1)] by blast
  obtain j where j: "k = Some j"
    using p assms(6,7) by (cases "es_run st") (auto simp: poll_and_emit_def hwt_ctx_poll_records_def Let_def sys_ioctl_def
        os_answer_def calls_def split: option.splits prod.splits if_splits)
  obtain w where w: "re_child V 0 = Some w" using assms(5) by blast
  let ?st1 = "check_child V pid 0 st"
  have c: "es_log ?st1 = es_log st @ [P_reap pid]" "es_done ?st1" "es_run ?st1 = es_run st" "es_empty ?st1 = 0"
    using reap_log [OF assms(2)] assms(3,4) w by (auto simp: check_child_def)
  obtain st1 where t: "exec_tick V q pid 0 st = Some (False, st1)" "es_log st1 = es_log st @ [P_reap pid]"
    using assms(8,10) c p j by (auto simp: exec_tick_def exec_polled_def Let_def drained_def MAX_EMPTY_DRAINS_def)
  have "exec_tick V q pid 1 st1 = Some (True, kill_child pid st1)" using assms(9,11) by (simp add: exec_tick_def)
  then have "exec_loop V q pid 0 st = Some (kill_child pid st1)"
    using t(1) by (subst exec_loop.simps, simp, subst exec_loop.simps, simp)
  then show ?thesis using t(2) by (simp add: kill_child_def)
qed

text \<open>A run with \<open>-n\<close>: the child is forked, the session set up, and everything undone.\<close>

lemma exec_dry_run:
  "\<exists>r. cmd_exec (\<lambda>bs. sample_env) sample_rec_env [''-n'', ''--'', ''ls''] os_start = Some r \<and> filter is_fork (cr_log r) \<noteq> []"
proof -
  have o: "exec_options (\<lambda>s. 0) [''-n'', ''--'', ''ls''] = Inr ((default_opts 30)\<lparr>o_dryrun := True\<rparr>, [''ls''])"
    by (simp add: exec_options_def opt_step_def)
  obtain os1 where b: "resolve_backend yes_kernel (\<lambda>n. True) None os_start = ((Some ''pt'', Some ''pt''), os1)"
    by (simp add: resolve_backend_def hwt_available_def lowest_fd_free(2) not_less hwt_detect_backend_def)
  let ?q = "(default_opts 30)\<lparr>o_dryrun := True\<rparr>" and ?pl = "[P_fork 100 [''ls''] False]"
  obtain rc ctx os2 where al: "hwt_ctx_alloc yes_kernel 1 100 0 (parse_size ''64m'') (Some ''pt'') os1 = (rc, ctx, os2)"
    by (metis prod.exhaust)
  obtain rc1 s1 where c: "hwt_ctx_set_config yes_kernel False (store_options ?q [] ctx, os2) = (rc1, s1)" by (metis prod.exhaust)
  have "\<exists>r. exec_session (\<lambda>bs. sample_env) sample_rec_env ?q [] ''pt'' 100 ?pl os1 = Some r \<and>
      cr_log r = sys_wait 100 (?pl @ [P_kill 100 SIGKILL])"
    using al c by (cases "rc = 0"; cases "rc1 = 0")
      (simp_all add: exec_session_def default_opts_def default_timing_def abort_exec_def early_def)
  then obtain r where r0: "exec_session (\<lambda>bs. sample_env) sample_rec_env ?q [] ''pt'' 100 ?pl os1 = Some r"
    "cr_log r = sys_wait 100 (?pl @ [P_kill 100 SIGKILL])" by blast
  have "cmd_exec (\<lambda>bs. sample_env) sample_rec_env [''-n'', ''--'', ''ls''] os_start = Some r"
    using b r0(1) by (simp add: cmd_exec_def o exec_filter_def fork_stopped_def default_opts_def check_hwt_hooks_def)
  then show ?thesis using r0(2) by (auto simp: reaped_once(3))
qed

definition sample_exec_state :: exec_state where
  "sample_exec_state = \<lparr>es_run = ((ready_ctx, busy_os), trace_state_init None, []), es_total = 0, es_done = False, es_exitcode = 0,
     es_empty = 0, es_log = [P_fork 100 [''ls''] False, P_kill 100 SIGCONT]\<rparr>"

lemma sample_exec_hyps:
  "emit_safe sample_rec_env 100 (o_fmt (default_opts 30))" "reap_inv 100 sample_exec_state"
  "session_inv [2, 1, 0] [] (fst (es_run sample_exec_state))"
  using busy_inv by (auto simp: emit_safe_def default_opts_def reap_inv_def sample_exec_state_def)

theorem exec_loop_terminates_witness:
  "\<exists>st'. exec_loop sample_rec_env (default_opts 30) 100 0 sample_exec_state = Some st' \<and>
     filter is_reap (es_log (exec_reap sample_rec_env 100 st')) = [P_reap 100]"
  using exec_loop_terminates [OF sample_exec_hyps, of 0 0] yes_quiet [of 0] by simp

theorem exec_kills_reaped_child_witness:
  "\<exists>st'. exec_loop sample_rec_env (default_opts 30) 100 0 sample_exec_state = Some st' \<and>
     es_log st' = [P_fork 100 [''ls''] False, P_kill 100 SIGCONT, P_reap 100, P_kill 100 SIGKILL]"
proof -
  have "\<exists>st'. exec_loop sample_rec_env (default_opts 30) 100 0 sample_exec_state = Some st' \<and>
     es_log st' = es_log sample_exec_state @ [P_reap 100, P_kill 100 SIGKILL]"
    by (rule exec_kills_reaped_child [OF sample_exec_hyps(1,2)])
      (simp_all add: sample_exec_state_def default_opts_def yes_kernel_def [THEN arg_cong, of k_ok])
  then show ?thesis by (simp add: sample_exec_state_def)
qed

end
