(* ===== verification/Cmd_Trace.thy ===== *)
theory Cmd_Trace
  imports Recording
begin

text \<open>
  \<open>cmd_trace.c\<close>: attaching to a running process. The loop polls the driver until it is interrupted, the time or the number of
  records is used up, or the target is gone and the driver is quiet. The lemmas show that the session is released on
  every path, and when the loop ends.
\<close>

section \<open>Model\<close>

text \<open>The filter; the executable's path is needed even for plain addresses.\<close>

definition trace_filter :: "rec_env \<Rightarrow> cmd_opts \<Rightarrow> ip_filter option" where
  "trace_filter V q =
     (if o_ranges q = [] then Some []
      else case process_exe_fullpath MAXPATHLEN (re_exe_path V) of
             None \<Rightarrow> None
           | Some fullpath \<Rightarrow>
               map_option fst (resolve_range_specs (re_elf V) (re_vm V) (o_ranges q) (Some fullpath) False))"

record loop_state =
  tl_run :: run
  tl_total :: int
  tl_gone :: bool
  tl_empty :: nat

text \<open>What follows a poll: whether the loop is left, and the state.\<close>

definition trace_polled :: "loop_state \<Rightarrow> nat option \<Rightarrow> run \<Rightarrow> bool \<times> loop_state" where
  "trace_polled st k r =
     (case k of
        None \<Rightarrow> (True, st\<lparr>tl_run := r\<rparr>)
      | Some j \<Rightarrow>
          let e = drained (tl_gone st) j (tl_empty st)
          in (tl_gone st \<and> j = 0 \<and> e \<ge> MAX_EMPTY_DRAINS, st\<lparr>tl_run := r, tl_total := tl_total st + int j, tl_empty := e\<rparr>))"

text \<open>One iteration; \<open>re_alive\<close> is the answer to \<open>kill(pid, 0)\<close>, asked while the target is not known to be gone.\<close>

definition trace_tick :: "rec_env \<Rightarrow> cmd_opts \<Rightarrow> int \<Rightarrow> nat \<Rightarrow> loop_state \<Rightarrow> (bool \<times> loop_state) option" where
  "trace_tick V q pid n st =
     (if re_interrupted V n then Some (True, st)
      else if \<not> tl_gone st \<and> o_duration q > 0 \<and> re_elapsed V n \<ge> o_duration q then Some (True, st)
      else if \<not> tl_gone st \<and> o_maxrecords q > 0 \<and> tl_total st \<ge> o_maxrecords q then Some (True, st)
      else let st1 = st\<lparr>tl_gone := tl_gone st \<or> \<not> re_alive V n\<rparr>
           in map_option (\<lambda>(k, r). trace_polled st1 k r)
                (poll_and_emit V n pid (o_fmt q) (o_pause q) (tl_run st1)))"

partial_function (option) trace_loop :: "rec_env \<Rightarrow> cmd_opts \<Rightarrow> int \<Rightarrow> nat \<Rightarrow> loop_state \<Rightarrow> loop_state option" where
  "trace_loop V q pid n st =
     Option.bind (trace_tick V q pid n st) (\<lambda>x. if fst x then Some (snd x) else trace_loop V q pid (n + 1) (snd x))"

text \<open>From the start of tracing to the end. The mappings that exist already are seeded first.\<close>

definition trace_record ::
  "(bytes \<Rightarrow> ('d, 'p) decode_env) \<Rightarrow> rec_env \<Rightarrow> cmd_opts \<Rightarrow> int \<Rightarrow> session \<Rightarrow> cmd_result option" where
  "trace_record E V q pid s =
     (let pt_output = output_path (o_output q) pid;
          ts = snd (trace_state_seed_process_mmaps True (re_vm V)
                 (trace_state_init (open_sidecar (re_meta_ok V) pid (o_tid q) (fst s))))
      in do {
           st \<leftarrow> trace_loop V q pid 0 \<lparr>tl_run = (s, ts, []), tl_total = 0, tl_gone = False, tl_empty = 0\<rparr>;
           (rc, out, s', meta) \<leftarrow> trace_finalize (re_kernel V) E (re_mem V 0) (re_clock V 0) (re_drain V) (re_kbase V) pt_output
               pid (o_fmt q) (Some (recording_opts q (fst (fst (tl_run st))))) (tl_total st) (tl_run st);
           Some \<lparr>cr_rc = (if rc < 0 then 1 else 0), cr_out = out, cr_os = snd s', cr_log = [], cr_meta = meta\<rparr> })"

text \<open>The early returns after the allocation.\<close>

definition abort_trace :: "rec_env \<Rightarrow> int \<Rightarrow> session \<Rightarrow> cmd_result" where
  "abort_trace V rc s = early rc (snd (hwt_ctx_close (re_kernel V) s)) []"

definition trace_session ::
  "(bytes \<Rightarrow> ('d, 'p) decode_env) \<Rightarrow> rec_env \<Rightarrow> cmd_opts \<Rightarrow> ip_filter \<Rightarrow> string \<Rightarrow> int \<Rightarrow> os \<Rightarrow> cmd_result option" where
  "trace_session E V q flt backend pid os =
     (case hwt_ctx_alloc (re_kernel V) (re_mode_thread V) pid (o_tid q) (parse_size (o_bufsize q)) (Some backend) os of
        (rc, ctx, os2) \<Rightarrow>
        if rc \<noteq> 0 then Some (early 1 os2 [])
        else (case default_timing (re_cpuid V) q (store_options q flt ctx) of
                None \<Rightarrow> Some (abort_trace V 1 (store_options q flt ctx, os2))
              | Some ctx1 \<Rightarrow>
                  (case hwt_ctx_set_config (re_kernel V) (o_pause q) (ctx1, os2) of (rc1, s1) \<Rightarrow>
                     if rc1 \<noteq> 0 then Some (abort_trace V 1 s1)
                     else if o_dryrun q then Some (abort_trace V 0 s1)
                     else case hwt_ctx_start (re_kernel V) s1 of (rc2, s2) \<Rightarrow>
                            if rc2 \<noteq> 0 then Some (abort_trace V 1 s2)
                            else trace_record E V q pid s2)))"

text \<open>The arguments are those behind the name of the command; \<open>exists\<close> is the first \<open>kill(pid, 0)\<close>.\<close>

definition cmd_trace ::
  "(bytes \<Rightarrow> ('d, 'p) decode_env) \<Rightarrow> rec_env \<Rightarrow> bool \<Rightarrow> string list \<Rightarrow> os \<Rightarrow> cmd_result option" where
  "cmd_trace E V exists args os =
     (case trace_options (re_atof V) args of
        Inl rc \<Rightarrow> Some (early rc os [])
      | Inr (q, pid) \<Rightarrow>
          if \<not> exists then Some (early 1 os [])
          else (case resolve_backend (re_kernel V) (re_kldfind V) (o_backend q) os of
                  ((None, _), os1) \<Rightarrow> Some (early 1 os1 [])
                | ((Some backend, _), os1) \<Rightarrow>
                    if check_hwt_hooks (o_dryrun q) (re_hooks V) \<noteq> 0
                    then Some (early (if o_dryrun q then 0 else 1) os1 [])
                    else (case trace_filter V q of
                            None \<Rightarrow> Some (early 1 os1 [])
                          | Some flt \<Rightarrow> trace_session E V q flt backend pid os1)))"

section \<open>Releasing everything\<close>

lemma trace_polled_run: "trace_polled st k r = (stop, st') \<Longrightarrow> tl_run st' = r"
  by (auto simp: trace_polled_def Let_def split: option.splits)

text \<open>What every poll keeps, the loop keeps.\<close>

lemma trace_tick_keeps:
  assumes "P (tl_run st)" "trace_tick V q pid n st = Some (stop, st')"
    and "\<And>k r r'. poll_and_emit V n pid (o_fmt q) (o_pause q) r = Some (k, r') \<Longrightarrow> P r \<Longrightarrow> P r'"
  shows "P (tl_run st')"
proof -
  consider "st' = st"
    | k r' where "poll_and_emit V n pid (o_fmt q) (o_pause q) (tl_run st) = Some (k, r')"
        "trace_polled (st\<lparr>tl_gone := tl_gone st \<or> \<not> re_alive V n\<rparr>) k r' = (stop, st')"
    using assms(2) by (auto simp: trace_tick_def Let_def split: if_splits)
  then show "P (tl_run st')"
  proof cases
    case 1
    with assms(1) show ?thesis by simp
  next
    case 2
    with assms(3) [OF 2(1) assms(1)] show ?thesis using trace_polled_run by metis
  qed
qed

lemma trace_loop_keeps:
  assumes "trace_loop V q pid n st = Some st'" "P (tl_run st)"
    and "\<And>n k r r'. poll_and_emit V n pid (o_fmt q) (o_pause q) r = Some (k, r') \<Longrightarrow> P r \<Longrightarrow> P r'"
  shows "P (tl_run st')"
  using assms(2,3)
proof (induction rule: trace_loop.raw_induct [OF _ assms(1), consumes 0], goal_cases)
  case (1 tl V q pid n st st')
  then obtain x where t: "trace_tick V q pid n st = Some x"
    "(if fst x then Some (snd x) else tl V q pid (n + 1) (snd x)) = Some st'"
    unfolding bind_eq_Some_conv by blast
  obtain stop st1 where x: "x = (stop, st1)" by (cases x)
  from trace_tick_keeps [where P = P, OF 1(3) t(1) [unfolded x] 1(4)] 1(1) [of V q pid "n + 1" st1 st'] 1(4) t(2) x
  show ?case by (cases stop) simp_all
qed

lemma trace_total_nonneg:
  assumes "trace_loop V q pid n st = Some st'" "0 \<le> tl_total st"
  shows "0 \<le> tl_total st'"
  using assms(2)
proof (induction rule: trace_loop.raw_induct [OF _ assms(1), consumes 0], goal_cases)
  case (1 tl V q pid n st st')
  then obtain x where t: "trace_tick V q pid n st = Some x"
    "(if fst x then Some (snd x) else tl V q pid (n + 1) (snd x)) = Some st'"
    unfolding bind_eq_Some_conv by blast
  have "0 \<le> tl_total (snd x)"
    using t(1) 1(3) by (auto simp: trace_tick_def trace_polled_def Let_def split: if_splits option.splits)
  with 1(1) [of V q pid "n + 1" "snd x" st'] t(2) show ?case by (auto split: if_splits)
qed

lemma trace_loop_inv:
  assumes "trace_loop V q pid n st = Some st'" "session_inv fds maps (fst (tl_run st))"
  shows "session_inv fds maps (fst (tl_run st'))"
  using trace_loop_keeps [OF assms(1), of "\<lambda>r. session_inv fds maps (fst r)"] assms(2) poll_keeps_session by blast

definition unchanged :: "os \<Rightarrow> cmd_result \<Rightarrow> bool" where
  "unchanged os r \<longleftrightarrow> mset (os_fds (cr_os r)) = mset (os_fds os) \<and> mset (os_maps (cr_os r)) = mset (os_maps os) \<and> cr_log r = []"

lemma abort_unchanged: "session_inv (os_fds os) (os_maps os) s \<Longrightarrow> unchanged os (abort_trace V rc s)"
  using close_mset [of "os_fds os" "os_maps os" s "re_kernel V"]
  by (cases "hwt_ctx_close (re_kernel V) s") (simp add: abort_trace_def unchanged_def early_def)

lemma trace_record_unchanged:
  assumes "trace_record E V q pid s = Some r" "session_inv (os_fds os) (os_maps os) s"
  shows "unchanged os r"
proof -
  define st0 where "st0 = \<lparr>tl_run = (s, snd (trace_state_seed_process_mmaps True (re_vm V)
      (trace_state_init (open_sidecar (re_meta_ok V) pid (o_tid q) (fst s)))), []), tl_total = 0, tl_gone = False, tl_empty = 0\<rparr>"
  obtain st rc out s' meta where l: "trace_loop V q pid 0 st0 = Some st"
    and f: "trace_finalize (re_kernel V) E (re_mem V 0) (re_clock V 0) (re_drain V) (re_kbase V) (output_path (o_output q) pid)
               pid (o_fmt q) (Some (recording_opts q (fst (fst (tl_run st))))) (tl_total st) (tl_run st) = Some (rc, out, s', meta)"
    and r: "cr_os r = snd s'" "cr_log r = []"
    using assms(1) by (auto simp: trace_record_def Let_def bind_eq_Some_conv st0_def)
  have i: "session_inv (os_fds os) (os_maps os) (fst (tl_run st))"
    using trace_loop_inv [OF l, of "os_fds os" "os_maps os"] assms(2) by (simp add: st0_def)
  obtain sx ts o1 where x: "tl_run st = (sx, ts, o1)" by (metis prod.exhaust)
  obtain ctx' os' where s': "s' = (ctx', os')" by (cases s')
  show ?thesis using finalize_release [OF _ f [unfolded x s']] i x by (simp add: unchanged_def r s')
qed

lemma trace_session_unchanged:
  assumes "trace_session E V q flt backend pid os = Some r"
  shows "unchanged os r"
proof -
  obtain rc ctx os2 where al: "hwt_ctx_alloc (re_kernel V) (re_mode_thread V) pid (o_tid q) (parse_size (o_bufsize q))
      (Some backend) os = (rc, ctx, os2)" by (metis prod.exhaust)
  note unf = assms [unfolded trace_session_def al prod.case]
  let ?inv = "session_inv (os_fds os) (os_maps os)"
  show ?thesis
  proof (cases "rc = 0")
    case False
    then have "r = early 1 os2 []" using unf by simp
    then show ?thesis using alloc_cases [OF al] False by (simp add: unchanged_def early_def)
  next
    case True
    then have "?inv (ctx, os2)" using alloc_cases [OF al] by simp
    note i = options_inv(1) [OF this, of q flt]
    show ?thesis
    proof (cases "default_timing (re_cpuid V) q (store_options q flt ctx)")
      case None
      with unf True have "r = abort_trace V 1 (store_options q flt ctx, os2)" by simp
      then show ?thesis using abort_unchanged [OF i] by simp
    next
      case (Some ctx1)
      have i1: "?inv (ctx1, os2)" using options_inv(2) [OF i Some] .
      obtain rc1 s1 where c: "hwt_ctx_set_config (re_kernel V) (o_pause q) (ctx1, os2) = (rc1, s1)" by (metis prod.exhaust)
      obtain rc2 s2 where st: "hwt_ctx_start (re_kernel V) s1 = (rc2, s2)" by (metis prod.exhaust)
      have i2: "?inv s1" "?inv s2" using config_inv [OF i1 c] start_inv [OF config_inv [OF i1 c] st] by auto
      show ?thesis
        using unf True Some c st abort_unchanged [OF i2(1)] abort_unchanged [OF i2(2)] trace_record_unchanged [OF _ i2(2)]
        by (auto split: if_splits)
    qed
  qed
qed

text \<open>
  \<open>trace\<close> leaves nothing behind: whatever the arguments are and whichever calls fail, when the command returns the
  process holds exactly the descriptors and mappings it had before, and no process was forked, signalled or waited for.
\<close>

lemma cmd_trace_releases:
  assumes "cmd_trace E V exists args os = Some r"
  shows "mset (os_fds (cr_os r)) = mset (os_fds os) \<and> mset (os_maps (cr_os r)) = mset (os_maps os) \<and> cr_log r = []"
proof (cases "trace_options (re_atof V) args")
  case (Inl rc)
  then show ?thesis using assms by (auto simp: cmd_trace_def early_def)
next
  case (Inr o1)
  obtain q pid where q: "o1 = (q, pid)" by (cases o1)
  obtain name det os1 where b: "resolve_backend (re_kernel V) (re_kldfind V) (o_backend q) os = ((name, det), os1)"
    by (metis prod.exhaust)
  note m = resolve_backend_os [OF b]
  consider "cr_os r = os" "cr_log r = []" | "cr_os r = os1" "cr_log r = []" | flt backend where "trace_session E V q flt backend pid os1 = Some r"
    using assms by (auto simp: cmd_trace_def Inr q b early_def split: if_splits option.splits)
  then show ?thesis
  proof cases
    case 3
    from trace_session_unchanged [OF 3] m show ?thesis by (simp add: unchanged_def)
  qed (use m in simp_all)
qed

section \<open>The loop ends\<close>

lemma trace_tick_returns:
  assumes "emit_safe V pid (o_fmt q)"
  shows "\<exists>stop st'. trace_tick V q pid n st = Some (stop, st') \<and>
           (\<not> stop \<longrightarrow> \<not> re_interrupted V n \<and> \<not> (\<not> tl_gone st \<and> o_duration q > 0 \<and> re_elapsed V n \<ge> o_duration q) \<and>
              calls (tl_run st) < calls (tl_run st') \<and> (tl_gone st \<or> \<not> re_alive V n \<longrightarrow> tl_gone st') \<and>
              (tl_gone st \<and> quiet_from (re_kernel V) (calls (tl_run st)) \<longrightarrow>
                 tl_empty st' = tl_empty st + 1 \<and> tl_empty st' < MAX_EMPTY_DRAINS))"
proof (cases "re_interrupted V n \<or> (\<not> tl_gone st \<and> o_duration q > 0 \<and> re_elapsed V n \<ge> o_duration q) \<or>
    (\<not> tl_gone st \<and> o_maxrecords q > 0 \<and> tl_total st \<ge> o_maxrecords q)")
  case True
  then have "trace_tick V q pid n st = Some (True, st)" by (elim disjE) (simp_all add: trace_tick_def)
  then show ?thesis by blast
next
  case False
  let ?st1 = "st\<lparr>tl_gone := tl_gone st \<or> \<not> re_alive V n\<rparr>"
  obtain k r' where p: "poll_and_emit V n pid (o_fmt q) (o_pause q) (tl_run st) = Some (k, r')"
    "\<forall>j. k = Some j \<longrightarrow> calls (tl_run st) < calls r' \<and> (quiet_from (re_kernel V) (calls (tl_run st)) \<longrightarrow> j = 0)"
    using poll_and_emit_returns [OF assms(1), of n "o_pause q" "tl_run st"] by blast
  obtain stop st' where e: "trace_polled ?st1 k r' = (stop, st')" by fastforce
  then have "trace_tick V q pid n st = Some (stop, st')" using False p(1) by (auto simp: trace_tick_def Let_def)
  moreover have "\<not> stop \<longrightarrow> calls (tl_run st) < calls (tl_run st') \<and> (tl_gone st \<or> \<not> re_alive V n \<longrightarrow> tl_gone st') \<and>
      (tl_gone st \<and> quiet_from (re_kernel V) (calls (tl_run st)) \<longrightarrow> tl_empty st' = tl_empty st + 1 \<and> tl_empty st' < MAX_EMPTY_DRAINS)"
    using e p(2) by (auto simp: trace_polled_def drained_def Let_def split: option.splits if_splits)
  ultimately show ?thesis using False by blast
qed

interpretation trace_poll: polling "trace_loop V q pid" "trace_tick V q pid" "\<lambda>st. emit_safe V pid (o_fmt q)"
    tl_gone tl_empty "\<lambda>st. calls (tl_run st)"
    "\<lambda>n e. re_interrupted V n \<or> (\<not> e \<and> 0 < o_duration q \<and> re_elapsed V n \<ge> o_duration q)"
    "\<lambda>n. \<not> re_alive V n" "quiet_from (re_kernel V)" for V q pid
proof (unfold_locales, goal_cases)
  case (1 n st stop st')
  then show ?case by (subst trace_loop.simps) simp
next
  case (2 st n)
  then show ?case using trace_tick_returns [of V pid q n st] by blast
qed (auto simp: quiet_from_def)

text \<open>
  \<open>trace\<close> stops polling. If the user interrupts it, or if the driver delivers nothing more from some call on and the
  target ends or the time limit is positive and reached, then the loop returns, whatever else is answered, with the session as
  well formed as it was. (A target that is gone suspends the time limit: the driver is then read until it is quiet.)
\<close>

theorem trace_loop_terminates:
  assumes "emit_safe V pid (o_fmt q)" "session_inv fds maps (fst (tl_run st))"
    and "re_interrupted V N \<or>
         (((0 < o_duration q \<and> re_elapsed V N \<ge> o_duration q) \<or> \<not> re_alive V N) \<and> quiet_from (re_kernel V) M)"
  shows "\<exists>st'. trace_loop V q pid 0 st = Some st' \<and> session_inv fds maps (fst (tl_run st'))"
proof -
  obtain st' where "trace_loop V q pid 0 st = Some st'" using trace_poll.loop_returns_0 [where V = V and q = q and N = N and M = M] assms by blast
  with trace_loop_inv [OF this assms(2)] show ?thesis by blast
qed

section \<open>Witnesses\<close>

theorem trace_loop_terminates_witness:
  "\<exists>st'. trace_loop sample_rec_env (default_opts 0) 42 0
       \<lparr>tl_run = ((ready_ctx, busy_os), trace_state_init None, []), tl_total = 0, tl_gone = False, tl_empty = 0\<rparr> = Some st' \<and>
     session_inv [2, 1, 0] [] (fst (tl_run st'))"
  by (rule trace_loop_terminates [where N = 0 and M = 0])
    (use busy_inv yes_quiet [of 0] in \<open>simp_all add: emit_safe_def default_opts_def\<close>)

end
