(* ===== verification/Cmd_Decode.thy ===== *)
theory Cmd_Decode
  imports Snapshot Options
begin

text \<open>
  \<open>cmd_decode.c\<close>: decoding a saved trace with its sidecar. The file system is a parameter. The main
  result composes the recording side with this one: what \<open>decode\<close> prints for the files of a recording is what the
  recording printed when it ended.
\<close>

section \<open>Model\<close>

text \<open>
  The files: what \<open>fopen\<close> lets the sidecar readers read, whether \<open>open\<close> succeeds, the size that \<open>fstat\<close>
  reports, and the bytes that \<open>mmap\<close> shows.
\<close>

record decode_fs =
  df_text :: "string \<Rightarrow> string option"
  df_open :: "string \<Rightarrow> bool"
  df_stat :: "string \<Rightarrow> nat option"
  df_mmap :: "string \<Rightarrow> bytes option"

record decode_args =
  da_fmt :: bsdtrace_fmt
  da_meta_path :: string
  da_meta_explicit :: bool
  da_sections :: "pt_image_info list"
  da_filter_funcs :: "string list"

definition decode_args_init :: decode_args where
  "decode_args_init =
     \<lparr>da_fmt = FMT_TEXT, da_meta_path = [], da_meta_explicit = False, da_sections = [], da_filter_funcs = []\<rparr>"

definition decode_opt_step :: "decode_fs \<Rightarrow> char \<times> string \<Rightarrow> decode_args \<Rightarrow> int + decode_args" where
  "decode_opt_step fs = (\<lambda>(ch, arg) a.
     if ch = CHR ''f'' then (case parse_fmt arg of None \<Rightarrow> Inl 1 | Some f \<Rightarrow> Inr (a\<lparr>da_fmt := f\<rparr>))
     else if ch = CHR ''m''
     then (case meta_read_sections (df_text fs arg) of
             None \<Rightarrow> Inl 1
           | Some s \<Rightarrow> Inr (a\<lparr>da_meta_path := strlcpy MAXPATHLEN arg, da_meta_explicit := True, da_sections := s\<rparr>))
     else if ch = CHR ''F'' then Inr (a\<lparr>da_filter_funcs := strtok_all (CHR '','') arg\<rparr>)
     else if ch = CHR ''h'' then Inl 0
     else Inl 1)"

fun decode_opt_loop :: "decode_fs \<Rightarrow> (char \<times> string) list \<Rightarrow> decode_args \<Rightarrow> int + decode_args" where
  "decode_opt_loop fs [] a = Inr a"
| "decode_opt_loop fs (oa # oas) a =
     (case decode_opt_step fs oa a of Inl rc \<Rightarrow> Inl rc | Inr a1 \<Rightarrow> decode_opt_loop fs oas a1)"

text \<open>The sidecar when no \<open>-m\<close> names it.\<close>

definition discover_meta :: "decode_fs \<Rightarrow> string \<Rightarrow> decode_args \<Rightarrow> int + decode_args" where
  "discover_meta fs pt_path a =
     (if da_meta_explicit a then Inr a
      else let path = (if has_pt_suffix pt_path then take (MAXPATHLEN - 1) (take (length pt_path - 3) pt_path @ ''.meta'')
                       else take (MAXPATHLEN - 1) (pt_path @ ''.meta''))
           in (case meta_read_sections (df_text fs path) of
                 None \<Rightarrow> Inl 1
               | Some s \<Rightarrow> Inr (a\<lparr>da_meta_path := path, da_sections := s\<rparr>)))"

definition offline_opts :: "decode_fs \<Rightarrow> decode_args \<Rightarrow> pt_decode_opts" where
  "offline_opts fs a =
     (let meta = (if da_meta_path a \<noteq> [] then Some (df_text fs (da_meta_path a)) else None)
      in \<lparr>do_tid = (case meta of Some m \<Rightarrow> meta_read_tid m | None \<Rightarrow> - 1),
          do_mtc_freq = (case meta of Some m \<Rightarrow> of_int (meta_read_mtc_freq m) | None \<Rightarrow> 0),
          do_cyc_thresh = (case meta of Some m \<Rightarrow> of_int (meta_read_cyc_thresh m) | None \<Rightarrow> 0),
          do_filter_funcs = da_filter_funcs a\<rparr>)"

text \<open>\<open>cmd_decode\<close> of the arguments behind the name of the command: the exit code and standard output.\<close>

definition cmd_decode :: "(bytes \<Rightarrow> ('d, 'p) decode_env) \<Rightarrow> decode_fs \<Rightarrow> string list \<Rightarrow> (int \<times> string) option" where
  "cmd_decode E fs args =
     (case getopt_all ''f:m:F:h'' [] args of (oas, rest) \<Rightarrow>
        (case decode_opt_loop fs oas decode_args_init of
           Inl rc \<Rightarrow> Some (rc, [])
         | Inr a0 \<Rightarrow>
             (case rest of
                [] \<Rightarrow> Some (1, [])
              | pt_path # _ \<Rightarrow>
                  (case discover_meta fs pt_path a0 of
                     Inl rc \<Rightarrow> Some (rc, [])
                   | Inr a \<Rightarrow>
                       if \<not> df_open fs pt_path then Some (1, [])
                       else (case df_stat fs pt_path of
                               None \<Rightarrow> Some (1, [])
                             | Some len \<Rightarrow>
                                 if len = 0 then Some (1, [])
                                 else (case df_mmap fs pt_path of
                                         None \<Rightarrow> Some (1, [])
                                       | Some buf \<Rightarrow>
                                           map_option (\<lambda>r. (if dr_rc r = 0 then 0 else 1, dr_out r))
                                             (decode_pt_insn (E buf) False len (da_sections a) (da_fmt a)
                                                (Some (offline_opts fs a)))))))))"

section \<open>What the sidecar of a recording says\<close>

text \<open>The text \<open>"\{"t"\<close> that could start a timing line occurs nowhere inside a line that the recording appends.\<close>

fun has_obj :: "string \<Rightarrow> bool" where
  "has_obj [] = False"
| "has_obj (c # cs) = (take 3 (c # cs) = [CHR ''{'', dquote, CHR ''t''] \<or> has_obj cs)"

lemma has_obj_drop: "\<not> has_obj s \<Longrightarrow> take 3 (drop k s) \<noteq> [CHR ''{'', dquote, CHR ''t'']"
proof (induction s arbitrary: k)
  case (Cons c s)
  then show ?case by (cases k) auto
qed simp

lemma has_obj_plain:
  assumes "x \<noteq> CHR ''t''" "x \<noteq> CHR ''{''"
  shows "\<forall>c \<in> set p. plain_char c \<Longrightarrow> has_obj (p @ dquote # x # r) = has_obj r"
proof (induction p)
  case (Cons c p)
  have "take 3 ((c # p) @ dquote # x # r) \<noteq> [CHR ''{'', dquote, CHR ''t'']"
    using Cons.prems assms by (cases p; cases "tl p") (auto simp: plain_char_def numeral_eq_Suc)
  then show ?case using Cons by (simp only: append_Cons has_obj.simps) simp
qed (use assms in \<open>auto simp: numeral_eq_Suc\<close>)

lemma has_obj_plain_end: "\<forall>c \<in> set p. plain_char c \<Longrightarrow> \<not> has_obj (p @ CHR ''}'' # nl)"
proof (induction p)
  case (Cons c p)
  have "take 3 ((c # p) @ CHR ''}'' # nl) \<noteq> [CHR ''{'', dquote, CHR ''t'']"
    using Cons.prems by (cases p) (auto simp: plain_char_def numeral_eq_Suc)
  then show ?case using Cons by simp
qed (auto simp: numeral_eq_Suc)

definition body_line :: "string \<Rightarrow> bool" where
  "body_line l \<longleftrightarrow>
     (\<exists>t p a b. t \<in> {''exec'', ''mmap'', ''kernel''} \<and> plain_path p \<and> l = section_line t p a b) \<or>
     (\<exists>t i. t \<in> {''thread_create'', ''thread_set_name''} \<and> int32 i \<and> l = thread_line t i)"

lemma body_line_is_line: "body_line l \<Longrightarrow> is_line 4096 l"
  by (auto simp: body_line_def type_names_plain intro: section_line_is_line thread_line_is_line)

lemma body_lineE:
  assumes "body_line l"
  obtains t p a b where "t \<in> {''exec'', ''mmap'', ''kernel''}" "plain_path p" "l = section_line t p a b"
    | t i where "t \<in> {''thread_create'', ''thread_set_name''}" "l = thread_line t i"
  using assms unfolding body_line_def by blast

lemma body_line_no_obj: "body_line l \<Longrightarrow> \<not> has_obj (tl l)"
proof (erule body_lineE, goal_cases)
  case (1 t p a b)
  have p: "\<forall>c \<in> set p. plain_char c" using 1(2) by (simp add: plain_path_def)
  show ?case using 1(1)
    by (auto simp: 1(3) section_line_def plain_escape [OF 1(2)] has_obj_plain p fmt_lx_plain numeral_eq_Suc)
next
  case (2 t i)
  then show ?case by (auto simp: thread_line_def has_obj_plain_end fmt_d_plain numeral_eq_Suc)
qed

section \<open>Chunks of the sidecar\<close>

text \<open>Reading with a short buffer splits a line into pieces, which start somewhere inside of it.\<close>

lemma fgets_chunk_piece:
  assumes "CHR 0x0A \<notin> set b" "2 \<le> n"
  shows "fgets_chunk n (b @ nl @ s) = take (n - 1) (b @ nl)"
proof -
  have "takeWhile (\<lambda>c. c \<noteq> CHR 0x0A) (b @ nl @ s) = b" using assms(1) by (induction b) auto
  then show ?thesis by (simp add: fgets_chunk_def)
qed

lemma fgets_all_pieces:
  "CHR 0x0A \<notin> set b \<Longrightarrow> 2 \<le> n \<Longrightarrow> c \<in> set (fgets_all n (b @ nl @ s)) \<Longrightarrow>
   c = take (n - 1) (b @ nl) \<or> (\<exists>k. c = take (n - 1) (drop k (tl (b @ nl)))) \<or> c \<in> set (fgets_all n s)"
proof (induction "length b" arbitrary: b rule: less_induct)
  case less
  note ch = fgets_chunk_piece [OF less.prems(1,2), of s]
  have step: "fgets_all n (b @ nl @ s) = take (n - 1) (b @ nl) # fgets_all n (drop (length (take (n - 1) (b @ nl))) (b @ nl @ s))"
    using fgets_all.simps [of n "b @ nl @ s"] less.prems(2) unfolding ch by simp
  show ?case
  proof (cases "n - 1 > length b")
    case True
    then have "drop (length (take (n - 1) (b @ nl))) (b @ nl @ s) = s" by simp
    then show ?thesis using less.prems(3) unfolding step by auto
  next
    case False
    let ?b = "drop (n - 1) b"
    have d: "drop (length (take (n - 1) (b @ nl))) (b @ nl @ s) = ?b @ nl @ s" using False by simp
    have "length ?b < length b" "CHR 0x0A \<notin> set ?b" using False less.prems by (auto dest: in_set_dropD)
    moreover have "c = take (n - 1) (b @ nl) \<or> c \<in> set (fgets_all n (?b @ nl @ s))"
      using less.prems(3) unfolding step d by auto
    ultimately consider "c = take (n - 1) (b @ nl)" | "c = take (n - 1) (?b @ nl)"
      | k where "c = take (n - 1) (drop k (tl (?b @ nl)))" | "c \<in> set (fgets_all n s)"
      using less.hyps [of ?b] less.prems(2) by blast
    then show ?thesis
    proof cases
      case 2
      have "?b @ nl = drop (n - 2) (tl (b @ nl))" using False less.prems(2) by (simp add: drop_Suc [symmetric] Suc_diff_Suc numeral_2_eq_2)
      then show ?thesis using 2 by metis
    next
      case 3
      have "drop k (tl (?b @ nl)) = drop (k + (n - 1)) (tl (b @ nl))"
        using False by (simp add: drop_Suc [symmetric])
      then show ?thesis using 3 by metis
    qed auto
  qed
qed

lemma scan_timing_prefix:
  \<open>scan_mtc c \<noteq> None \<or> scan_cyc c \<noteq> None \<Longrightarrow> \<exists>r. c = ''{"type":"timing","mtc_freq":'' @ r\<close>
  by (auto simp: scan_mtc_def scan_cyc_def bind_eq_None_conv dest!: scan_lit_Some [THEN iffD1])

lemma take_prefix: "take m l = p @ r \<Longrightarrow> \<exists>r'. l = p @ r'"
  by (metis append_assoc append_take_drop_id)

lemma body_line_type: "body_line l \<Longrightarrow> take 2 (drop 9 l) \<in> {''ex'', ''mm'', ''ke'', ''th''}"
proof (erule body_lineE, goal_cases)
  case (1 t p a b)
  have "\<exists>r. drop 9 l = t @ r" by (simp add: 1(3) section_line_def)
  with 1(1) show ?case by (elim exE insertE emptyE) simp_all
next
  case (2 t i)
  have "\<exists>r. drop 9 l = t @ r" by (simp add: 2(2) thread_line_def)
  with 2(1) show ?case by (elim exE insertE emptyE) simp_all
qed

text \<open>No piece of a line of the recording reads as a timing line.\<close>

lemma piece_no_timing:
  assumes "body_line l" "c = take m l \<or> c = take m (drop k (tl l))"
  shows "scan_mtc c = None \<and> scan_cyc c = None"
proof (rule ccontr)
  assume "\<not> ?thesis"
  then obtain p r where p: \<open>p = ''{"type":"timing","mtc_freq":''\<close> and r: "c = p @ r" using scan_timing_prefix by blast
  from assms(2) consider r' where "l = p @ r'" | r' where "drop k (tl l) = p @ r'"
    unfolding r by (auto dest!: take_prefix [OF sym])
  then show False
  proof cases
    case 1
    then have "take 2 (drop 9 l) = ''ti''" by (simp add: p)
    then show False using body_line_type [OF assms(1)] by auto
  next
    case 2
    have "take 3 (drop k (tl l)) = [CHR ''{'', dquote, CHR ''t'']" unfolding 2 p by (simp add: numeral_eq_Suc)
    then show False using has_obj_drop [OF body_line_no_obj [OF assms(1)], of k] by simp
  qed
qed

lemma body_no_timing:
  assumes "\<forall>l \<in> set ls. body_line l" "2 \<le> n" "c \<in> set (fgets_all n (concat ls))"
  shows "scan_mtc c = None \<and> scan_cyc c = None"
  using assms(1,3)
proof (induction ls)
  case Nil
  then show ?case by (simp add: fgets_all.simps [of n "[]"])
next
  case (Cons l ls)
  obtain b where b: "l = b @ nl" "CHR 0x0A \<notin> set b" using body_line_is_line [of l] Cons.prems(1) by (auto simp: is_line_def)
  consider k where "c = take (n - 1) l \<or> c = take (n - 1) (drop k (tl l))" | "c \<in> set (fgets_all n (concat ls))"
    using fgets_all_pieces [OF b(2) assms(2), of c "concat ls"] Cons.prems(2) b(1) by auto
  then show ?case
  proof cases
    case 1
    then show ?thesis using piece_no_timing [of l] Cons.prems(1) by auto
  next
    case 2
    then show ?thesis using Cons.IH Cons.prems(1) by simp
  qed
qed

section \<open>The sidecar of a recording\<close>

definition recorded :: "string \<Rightarrow> meta_writer \<Rightarrow> bool" where
  "recorded start mw \<longleftrightarrow> (\<exists>ls. mw = Some (start @ concat ls) \<and> (\<forall>l \<in> set ls. body_line l))"

lemma recorded_put: "recorded start mw \<Longrightarrow> body_line l \<Longrightarrow> recorded start (meta_put mw l)"
proof -
  assume "recorded start mw" and l: "body_line l"
  then obtain ls where "mw = Some (start @ concat ls)" "\<forall>l \<in> set ls. body_line l" by (auto simp: recorded_def)
  then show ?thesis unfolding recorded_def using l by (intro exI [of _ "ls @ [l]"]) (simp add: meta_put_def)
qed

lemma body_lines:
  "plain_path p \<Longrightarrow> t \<in> {''exec'', ''mmap'', ''kernel''} \<Longrightarrow> body_line (section_line t p a b)"
  "int32 i \<Longrightarrow> t \<in> {''thread_create'', ''thread_set_name''} \<Longrightarrow> body_line (thread_line t i)"
  unfolding body_line_def by blast+

lemma record_recorded:
  assumes "recorded start mw" "plain_record rec"
  shows "recorded start (meta_writer_record mw rec)"
  using assms unfolding meta_writer_record_def plain_record_def
  by (cases "r_type rec") (simp_all add: recorded_put body_lines)

lemma records_recorded:
  "recorded start (ts_meta ts) \<Longrightarrow> \<forall>r \<in> set recs. plain_record r \<Longrightarrow>
   recorded start (ts_meta (foldl (trace_state_process True) ts recs))"
  by (induction recs arbitrary: ts) (simp_all add: record_recorded)

lemma sections_recorded:
  "recorded start mw \<Longrightarrow> \<forall>s \<in> set secs. plain_path (pi_path s) \<Longrightarrow> recorded start (meta_writer_sections mw secs)"
proof (induction secs arbitrary: mw)
  case (Cons s secs)
  have "body_line (section_line (section_type_name (pi_type s)) (pi_path s) (pi_load_addr s) (pi_base_addr s))"
    using Cons.prems(2) by (intro body_lines) (simp_all add: section_type_name_def)
  from recorded_put [OF Cons.prems(1) this] Cons show ?case by (simp add: meta_writer_sections_def)
qed (simp add: meta_writer_sections_def)

lemma seed_recorded:
  assumes "recorded start (ts_meta ts)" "plain_vmmap env"
  shows "recorded start (ts_meta (snd (trace_state_seed_process_mmaps True env ts)))"
proof (cases "process_exec_mmaps env")
  case (Some secs)
  have "ts_meta (foldl (seed_section True) t secs) = ts_meta t" for t by (induction secs arbitrary: t) simp_all
  moreover have "recorded start (meta_writer_sections (ts_meta ts) secs)"
    using plain_seed [OF assms(2) Some] assms(1) by (intro sections_recorded) auto
  ultimately show ?thesis using assms(1) Some by (simp add: trace_state_seed_process_mmaps_def)
qed (use assms in \<open>simp add: trace_state_seed_process_mmaps_def\<close>)

lemma events_recorded:
  "recorded start (ts_meta ts) \<Longrightarrow> \<forall>e \<in> set evs. plain_event e \<Longrightarrow> recorded start (ts_meta (foldl trace_event_step ts evs))"
proof (induction evs arbitrary: ts)
  case (Cons e evs)
  then show ?case by (cases e) (simp_all add: records_recorded seed_recorded)
qed simp

text \<open>The thread id and the timing parameters that the readers find in it, with or without a timing line.\<close>

lemma recorded_identity:
  assumes "int32 pid" "int32 tid" "start_meta pid tid mtc cyc = Some start" "recorded start (Some out)"
  shows "meta_read_tid (Some out) = tid" "meta_read_mtc_freq (Some out) = int (unat mtc)"
    "meta_read_cyc_thresh (Some out) = int (unat cyc)"
proof -
  obtain ls where ls: "out = start @ concat ls" "\<forall>l \<in> set ls. body_line l" using assms(4) by (auto simp: recorded_def)
  let ?tl = "if mtc = 0 \<and> cyc = 0 then [] else [timing_line mtc cyc]"
  have "start = header_line pid tid @ concat ?tl"
    using assms(3) by (auto simp: start_meta_def meta_writer_timing_def meta_writer_header_def meta_writer_open_def meta_put_def)
  then have all: "fgets_all 256 out = header_line pid tid # ?tl @ fgets_all 256 (concat ls)"
    using fgets_all_step [OF header_line_is_line [OF assms(1,2)], of 256] fgets_all_step [OF timing_line_is_line, of 256]
    by (simp add: ls(1))
  have none: "first_match scan_mtc ks = None \<and> first_match scan_cyc ks = None"
    if "\<forall>c \<in> set ks. scan_mtc c = None \<and> scan_cyc c = None" for ks
    using that by (induction ks) simp_all
  have "first_match scan_mtc (fgets_all 256 (concat ls)) = None \<and> first_match scan_cyc (fgets_all 256 (concat ls)) = None"
    using body_no_timing [OF ls(2), of 256] by (intro none) simp
  then show "meta_read_tid (Some out) = tid" "meta_read_mtc_freq (Some out) = int (unat mtc)"
    "meta_read_cyc_thresh (Some out) = int (unat cyc)"
    by (simp_all add: meta_read_tid_def meta_read_mtc_freq_def meta_read_cyc_thresh_def all scan_tid_header assms(1,2)
        header_not_timing scan_timing_values sint_ucast_u8)
qed

section \<open>Decoding offline what was recorded\<close>

text \<open>A recording of one thread that saved something: the saved bytes, and the decoder's run on them.\<close>

lemma snapshot_live_output:
  assumes "write_sane K" "buffers_mapped K (hc_bufsize ctx)" "unat (hc_bufsize ctx) < 2 ^ 63" "hc_trace_buf ctx = None"
    and "hc_threads ctx = []" "0 < saved"
    and "snapshot_and_decode K E ts pt fmt opts (ctx, os) = Some (saved, out, ctx', os')"
  shows "\<exists>bs r. os_files os' pt = Some bs \<and> length bs = nat saved \<and>
           decode_pt_insn (E bs) False (nat saved) (ts_sections ts) fmt (Some (decode_opts ctx opts)) = Some r \<and> out = dr_out r"
proof -
  obtain pos c1 os1 where b0: "hwt_ctx_bufptr_get K (ctx, os) = (pos, c1, os1)" by (metis prod.exhaust)
  then have b: "hwt_ctx_bufptr_get K (ctx, os) = (pos, ctx, os1)" using bufptr_ctx [OF b0] by simp
  obtain h ctx2 os2 where m: "hwt_ctx_map_buffer K (ctx, os1) = (h, ctx2, os2)" by (metis prod.exhaust)
  obtain x where x: "h = Some x" using assms(6,7) b m by (cases h) (auto simp: snapshot_and_decode_def)
  note mx = m [unfolded x]
  note mc = map_buffer_ctx [OF mx]
  have c2: "decode_opts ctx2 opts = decode_opts ctx opts" "hc_bufsize ctx2 = hc_bufsize ctx" "hc_threads ctx2 = []"
    "map_bytes K x = k_buf K (hc_ctx_fd ctx)" "hc_trace_buf ctx2 = Some x"
    using mx assms(4,5) mc by (auto simp: decode_opts_def map_bytes_def hwt_ctx_map_buffer_def split: prod.splits option.splits)
  obtain n where n: "choose_snapshot_len E (Some (map_bytes K x)) (unat (hc_bufsize ctx2))
      (unat (known_end (hc_bufsize ctx2) pos ts)) (ts_sections ts) = Some n"
    using assms(7) b mx by (auto simp: snapshot_and_decode_def Let_def bind_eq_Some_conv)
  note unf = assms(7) [unfolded snapshot_unfold [OF b mx n]]
  have "n \<noteq> 0" using unf assms(6) by (auto split: if_splits)
  then obtain sv s3 o1 where s0: "hwt_ctx_snapshot_buffer K pt (int (n div PAGE_SIZE)) (of_nat (n mod PAGE_SIZE)) (ctx2, os2) =
      Some (sv, s3)"
    and o1: "(if sv > 0 then map_option dr_out (decode_pt_insn (E (take (nat sv) (map_bytes K x))) False (nat sv)
                (ts_sections ts) fmt (Some (decode_opts ctx2 opts))) else Some []) = Some o1"
    and e0: "(if (hc_all_threads (fst s3) \<or> hc_requested_tids (fst s3) \<noteq> []) \<and> hc_threads (fst s3) \<noteq> []
             then snapshot_threads K E (ts_sections ts) pt fmt (decode_opts ctx2 opts) [0..<length (hc_threads (fst s3))] (sv, o1, s3)
             else Some (sv, o1, s3)) = Some (saved, out, ctx', os')"
    using unf by (auto simp: bind_eq_Some_conv simp del: split_paired_Ex)
  obtain ctx3 os3 where s3: "s3 = (ctx3, os3)" by (cases s3)
  note s = s0 [unfolded s3] and e = e0 [unfolded s3 fst_conv]
  note sc = snapshot_ctx [OF s]
  have r: "sv = saved" "o1 = out" "ctx3 = ctx'" "os3 = os'" using e sc c2(3) by auto
  have bl: "\<forall>fd. length (k_buf K fd) = unat (hc_bufsize ctx2)" using assms(2) c2(2) by (simp add: buffers_mapped_def)
  have pg: "0 \<le> int (n div PAGE_SIZE)" by simp
  obtain h where "hc_trace_buf ctx' = Some h" "os_files os' pt = Some (take (nat saved) (map_bytes K h))"
    "saved \<le> int (unat (hc_bufsize ctx2))"
    using snapshot_copy [OF assms(1) bl _ pg, where path = pt and off = "of_nat (n mod PAGE_SIZE)" and os = os2]
      assms(3,6) s r c2(2) by auto
  moreover from this(3) have "nat saved \<le> unat (hc_bufsize ctx)" by (simp add: c2(2) nat_le_iff)
  moreover have "hc_trace_buf ctx' = Some x" using sc c2(5) r by simp
  ultimately show ?thesis using o1 r assms(2,6) c2 by (auto simp: buffers_mapped_def)
qed

definition fmt_name :: "bsdtrace_fmt \<Rightarrow> string" where
  "fmt_name f = (case f of FMT_TEXT \<Rightarrow> ''text'' | FMT_JSON \<Rightarrow> ''json'' | FMT_PROFILE \<Rightarrow> ''profile'' | FMT_TREE \<Rightarrow> ''tree''
     | FMT_COLLAPSED \<Rightarrow> ''collapsed'' | FMT_SPEEDSCOPE \<Rightarrow> ''speedscope'' | FMT_CALLERS \<Rightarrow> ''callers'')"

lemma parse_fmt_name: "parse_fmt (fmt_name f) = Some f"
  by (cases f) (simp_all add: fmt_name_def parse_fmt_def)

lemma derive_meta_nonempty: "derive_meta_path pt MAXPATHLEN \<noteq> []"
  by (auto simp: derive_meta_path_def MAXPATHLEN_def has_pt_suffix_def)

lemma decode_parse:
  assumes "df_text fs (derive_meta_path pt MAXPATHLEN) = Some out" "meta_read_sections (Some out) = Some secs"
  shows "cmd_decode E fs [''-f'', fmt_name fmt, ''-F'', farg, ''--'', pt] =
     (let a = \<lparr>da_fmt = fmt, da_meta_path = derive_meta_path pt MAXPATHLEN, da_meta_explicit = False, da_sections = secs,
               da_filter_funcs = strtok_all (CHR '','') farg\<rparr>
      in if \<not> df_open fs pt then Some (1, [])
         else (case df_stat fs pt of
                 None \<Rightarrow> Some (1, [])
               | Some n \<Rightarrow> if n = 0 then Some (1, [])
                           else (case df_mmap fs pt of
                                   None \<Rightarrow> Some (1, [])
                                 | Some buf \<Rightarrow> map_option (\<lambda>r. (if dr_rc r = 0 then 0 else 1, dr_out r))
                                     (decode_pt_insn (E buf) False n secs fmt (Some (offline_opts fs a))))))"
proof -
  have g: "getopt_all ''f:m:F:h'' [] [''-f'', fmt_name fmt, ''-F'', farg, ''--'', pt] =
      ([(CHR ''f'', fmt_name fmt), (CHR ''F'', farg)], [pt])" by simp
  show ?thesis
    by (simp add: cmd_decode_def g decode_opt_step_def parse_fmt_name decode_args_init_def discover_meta_def Let_def assms
        derive_meta_path_def [symmetric] split: option.split)
qed

lemma offline_equals_live:
  assumes "ts = foldl trace_event_step
             (trace_state_init (start_meta pid (hc_tid ctx) (ucast (hc_mtc_freq ctx)) (ucast (hc_cyc_thresh ctx)))) evs"
    and "\<forall>e \<in> set evs. plain_event e" "int32 pid" "int32 (hc_tid ctx)"
    and "write_sane K" "buffers_mapped K (hc_bufsize ctx)" "unat (hc_bufsize ctx) < 2 ^ 63" "hc_trace_buf ctx = None"
    and "hc_threads ctx = []" "0 < saved"
    and "snapshot_and_decode K E ts pt fmt
           (Some \<lparr>do_tid = hc_tid ctx, do_mtc_freq = m, do_cyc_thresh = c, do_filter_funcs = strtok_all (CHR '','') farg\<rparr>)
           (ctx, os) = Some (saved, out, ctx', os')"
    and "df_text fs (derive_meta_path pt MAXPATHLEN) = meta_writer_close (ts_meta ts)" "df_open fs pt"
    and "df_stat fs pt = map_option length (os_files os' pt)" "df_mmap fs pt = os_files os' pt"
  shows "\<exists>rc. (rc = 0 \<or> rc = 1) \<and> cmd_decode E fs [''-f'', fmt_name fmt, ''-F'', farg, ''--'', pt] = Some (rc, out)"
proof -
  let ?opts = "Some \<lparr>do_tid = hc_tid ctx, do_mtc_freq = m, do_cyc_thresh = c, do_filter_funcs = strtok_all (CHR '','') farg\<rparr>"
  let ?mw = "start_meta pid (hc_tid ctx) (ucast (hc_mtc_freq ctx)) (ucast (hc_cyc_thresh ctx))"
  obtain bs r where r: "os_files os' pt = Some bs" "length bs = nat saved" "out = dr_out r"
    "decode_pt_insn (E bs) False (nat saved) (ts_sections ts) fmt (Some (decode_opts ctx ?opts)) = Some r"
    using snapshot_live_output [OF assms(5-11)] by blast
  obtain start where start: "?mw = Some start"
    by (cases "?mw") (auto simp: start_meta_def meta_writer_timing_def meta_writer_header_def meta_writer_open_def
        meta_put_def split: if_splits)
  have "recorded start (ts_meta (trace_state_init ?mw))"
    by (auto simp: recorded_def start trace_state_init_def intro: exI [of _ "[]"])
  from events_recorded [OF this assms(2)] assms(1) have rec: "recorded start (ts_meta ts)" by simp
  then obtain tx where tx: "ts_meta ts = Some tx" by (auto simp: recorded_def)
  note id = recorded_identity [OF assms(3,4) start rec [unfolded tx]]
  have secs: "meta_read_sections (Some tx) = Some (ts_sections ts)"
    using mirrors_read [of ts] events_mirrors [OF start_mirrors [OF assms(3,4)] assms(2)] tx unfolding assms(1) by metis
  have rd: "df_text fs (derive_meta_path pt MAXPATHLEN) = Some tx" using assms(12) tx by (simp add: meta_writer_close_def)
  have opts: "offline_opts fs \<lparr>da_fmt = fmt, da_meta_path = derive_meta_path pt MAXPATHLEN, da_meta_explicit = False,
      da_sections = ts_sections ts, da_filter_funcs = strtok_all (CHR '','') farg\<rparr> = decode_opts ctx ?opts"
    by (simp add: offline_opts_def decode_opts_def derive_meta_nonempty rd id)
  show ?thesis unfolding decode_parse [OF rd secs] Let_def opts
    using assms(10,13-15) r by simp
qed

text \<open>
  C7. What is recorded can be decoded offline with the same result. Take a recording of one thread, whatever records were
  delivered and whichever mappings were seeded (with paths that need no escaping): the trace file is the one that
  \<open>snapshot_and_decode\<close> wrote and the sidecar the one that the session wrote alongside. Then \<open>bsdtrace decode\<close> of
  these two files, with the same format and function filter, prints exactly what the recording printed when it
  ended: the image, the thread id and the timing parameters all survive.
\<close>

theorem offline_decode_equals_live:
  assumes "ts = foldl trace_event_step
             (trace_state_init (start_meta pid (hc_tid ctx) (ucast (hc_mtc_freq ctx)) (ucast (hc_cyc_thresh ctx)))) evs"
    and "\<forall>e \<in> set evs. plain_event e" "int32 pid" "int32 (hc_tid ctx)"
    and "write_sane K" "buffers_mapped K (hc_bufsize ctx)" "unat (hc_bufsize ctx) < 2 ^ 63" "hc_trace_buf ctx = None"
    and "hc_threads ctx = []" "0 < saved"
    and "snapshot_and_decode K E ts pt fmt
           (Some \<lparr>do_tid = hc_tid ctx, do_mtc_freq = m, do_cyc_thresh = c, do_filter_funcs = strtok_all (CHR '','') farg\<rparr>)
           (ctx, os) = Some (saved, out, ctx', os')"
    and "df_text fs (derive_meta_path pt MAXPATHLEN) = meta_writer_close (ts_meta ts)" "df_open fs pt"
    and "df_stat fs pt = map_option length (os_files os' pt)" "df_mmap fs pt = os_files os' pt"
  shows "\<exists>rc. (rc = 0 \<or> rc = 1) \<and> cmd_decode E fs [''-f'', fmt_name fmt, ''-F'', farg, ''--'', pt] = Some (rc, out)"
  by (rule offline_equals_live [OF assms])

lemma scan_full: "0 < n \<Longrightarrow> buf ! (n - 1) \<noteq> 0 \<Longrightarrow> pt_scan_last_nonzero buf n = n"
  by (cases n) simp_all

text \<open>A recording of a full page.\<close>

lemma sample_saved:
  assumes "ts_last_buf_page ts < 0" "hc_bufsize ctx = 4096" "hc_threads ctx = []" "hc_trace_buf ctx = None"
  shows "\<exists>out ctx' os'. snapshot_and_decode yes_kernel (\<lambda>bs. sample_env) ts ''out.pt'' FMT_TEXT opts (ctx, os) =
           Some (4096, out, ctx', os') \<and> os_files os' ''out.pt'' = Some (replicate 4096 7)"
proof -
  obtain os1 where b: "hwt_ctx_bufptr_get yes_kernel (ctx, os) = (Some (0, 8), ctx, os1)"
    by (simp add: hwt_ctx_bufptr_get_def hwt_ctx_bufptr_get_fd_def yes_kernel_def [THEN arg_cong, of k_bufptr])
  obtain x ctx2 os2 where m: "hwt_ctx_map_buffer yes_kernel (ctx, os1) = (Some x, ctx2, os2)"
    by (simp add: hwt_ctx_map_buffer_def sys_mmap_def os_answer_def assms(4) yes_kernel_def [THEN arg_cong, of k_ok])
  have sz: "hc_bufsize ctx2 = 4096" "hc_trace_buf ctx2 = Some x" "hc_threads ctx2 = []"
    using map_buffer_ctx [OF m] assms by simp_all
  have ke: "unat (known_end 4096 (Some (0, 8)) ts) = 8" using assms(1) by (simp add: known_end_def buffer_pos_def Let_def)
  have mb: "map_bytes yes_kernel x = replicate 4096 7" by (simp add: map_bytes_def yes_kernel_def)
  have sc: "pt_scan_last_nonzero (map_bytes yes_kernel x) 4096 = 4096" by (rule scan_full) (simp_all add: mb)
  have snd: "\<forall>bs :: bytes. ipt_sound (sample_env)" using sample_env_sound by simp
  obtain n where n: "choose_snapshot_len (\<lambda>bs. sample_env) (Some (map_bytes yes_kernel x)) 4096 8 (ts_sections ts) = Some n" "n = 4096"
    using choose_len [OF snd, of 4096 "map_bytes yes_kernel x" 8 "ts_sections ts"] sc by (auto simp: PAGE_SIZE_def)
  have c: "choose_snapshot_len (\<lambda>bs. sample_env) (Some (map_bytes yes_kernel x)) (unat (hc_bufsize ctx2))
      (unat (known_end (hc_bufsize ctx2) (Some (0, 8)) ts)) (ts_sections ts) = Some 4096"
    using n ke by (simp add: sz)
  obtain ctx3 os3 where s: "hwt_ctx_snapshot_buffer yes_kernel ''out.pt'' 1 0 (ctx2, os2) = Some (4096, ctx3, os3)"
    "hc_threads ctx3 = []" "os_files os3 ''out.pt'' = Some (replicate 4096 7)"
    by (simp add: sys_close_def file_append_def hwt_ctx_snapshot_buffer_def hwt_ctx_map_buffer_def sz PAGE_SIZE_def sys_creat_def lowest_fd_free(2) not_less
        Let_def write_loop.simps sys_write_def mb yes_kernel_def [THEN arg_cong, of k_write])
  obtain r where "decode_pt_insn sample_env False 4096 (ts_sections ts) FMT_TEXT (Some (decode_opts ctx2 opts)) = Some r"
    using decode_returns [OF sample_env_sound, of FMT_TEXT False 4096 "ts_sections ts" "Some (decode_opts ctx2 opts)"] by auto
  then show ?thesis unfolding snapshot_unfold [OF b m c] using s by (simp add: PAGE_SIZE_def)
qed

lemma sample_live:
  assumes "ts_last_buf_page ts < 0"
  shows "\<exists>out ctx' os'. snapshot_and_decode yes_kernel (\<lambda>bs. sample_env) ts ''out.pt'' FMT_TEXT opts (ready_ctx, os_start) =
           Some (4096, out, ctx', os')"
  using sample_saved [OF assms, of ready_ctx opts os_start] by (auto simp: ready_ctx_def hwt_ctx_zero_def)

theorem offline_decode_equals_live_witness:
  "\<exists>out ctx' os' rc fs. snapshot_and_decode yes_kernel (\<lambda>bs. sample_env)
     (foldl trace_event_step (trace_state_init (start_meta 100 0 0 0)) [Ev_records [sample_exec]]) ''out.pt'' FMT_TEXT
     (Some \<lparr>do_tid = 0, do_mtc_freq = 0, do_cyc_thresh = 0, do_filter_funcs = [''main'']\<rparr>) (ready_ctx, os_start) = Some (4096, out, ctx', os') \<and>
     cmd_decode (\<lambda>bs. sample_env) fs [''-f'', ''text'', ''-F'', ''main'', ''--'', ''out.pt''] = Some (rc, out)"
proof -
  let ?ts = "foldl trace_event_step (trace_state_init (start_meta 100 0 0 0)) [Ev_records [sample_exec]]"
  let ?q = "\<lparr>do_tid = 0, do_mtc_freq = 0, do_cyc_thresh = 0, do_filter_funcs = strtok_all (CHR '','') ''main''\<rparr>"
  have "ts_last_buf_page ?ts < 0"
    by (simp add: trace_state_process_def process_image_def is_image_record_def sample_exec_def trace_state_add_section_def
        trace_state_init_def trace_state_reset_sections_def vec_reserve_def)
  then obtain out ctx' os' where live: "snapshot_and_decode yes_kernel (\<lambda>bs. sample_env) ?ts ''out.pt'' FMT_TEXT (Some ?q)
      (ready_ctx, os_start) = Some (4096, out, ctx', os')" using sample_live by blast
  define fs where "fs = \<lparr>df_text = (\<lambda>p. ts_meta ?ts), df_open = (\<lambda>p. True), df_stat = (\<lambda>p. map_option length (os_files os' p)),
      df_mmap = os_files os'\<rparr>"
  have z: "hc_tid ready_ctx = 0" "hc_mtc_freq ready_ctx = 0" "hc_cyc_thresh ready_ctx = 0" "hc_threads ready_ctx = []"
    by (simp_all add: ready_ctx_def hwt_ctx_zero_def)
  have "\<exists>rc. (rc = 0 \<or> rc = 1) \<and> cmd_decode (\<lambda>bs. sample_env) fs [''-f'', fmt_name FMT_TEXT, ''-F'', ''main'', ''--'', ''out.pt''] = Some (rc, out)"
    by (rule offline_decode_equals_live [of ?ts 100 ready_ctx "[Ev_records [sample_exec]]" yes_kernel 4096 "\<lambda>bs. sample_env"
          "''out.pt''" FMT_TEXT 0 0 "''main''" os_start out ctx' os' fs])
      (use live yes_kernel_hyps in \<open>simp_all add: z plain_record_def sample_paths_plain int32_def fs_def meta_writer_close_def\<close>,
        simp add: sample_exec_def sample_paths_plain plain_record_def int32_def)
  moreover have "strtok_all (CHR '','') ''main'' = [''main'']" by (simp add: strtok_all_def)
  ultimately show ?thesis using live by (auto simp: fmt_name_def)
qed

end
