(* ===== verification/Record_Decode.thy ===== *)
theory Record_Decode
  imports Cmd_Trace Cmd_Decode
begin

text \<open>
  From a command line to another: what \<open>bsdtrace trace\<close> records, \<open>bsdtrace decode\<close> reads. The lemmas follow one recording
  through options, session, loop, final drain and snapshot, and show that the context stays as it was set up, that the
  trace state is made by the delivered records alone, and that no file is touched before the snapshot.
\<close>

section \<open>Files\<close>

lemma files_kept [simp]:
  "os_files (snd (sys_open K p os)) = os_files os" "os_files (sys_close fd os) = os_files os"
  "os_files (snd (sys_ioctl K c os)) = os_files os" "os_files (sys_munmap m os) = os_files os"
  "os_files (snd (os_answer K os)) = os_files os" "os_files (close_fd fd os) = os_files os"
  "os_files (unmap_buf b os) = os_files os" "os_files (close_thread os tc) = os_files os"
  by (simp_all add: sys_open_def os_answer_def sys_close_def sys_ioctl_def sys_munmap_def close_fd_def unmap_buf_def
      close_thread_def split: option.splits)

lemma close_files: "os_files (snd (hwt_ctx_close K s)) = os_files (snd s)"
proof -
  have "os_files (foldl close_thread os ts) = os_files os" for os ts by (induction ts arbitrary: os) simp_all
  then show ?thesis by (cases s) (simp add: hwt_ctx_close_def Let_def)
qed

lemma open_files: "sys_open K p os = (fd, os') \<Longrightarrow> os_files os' = os_files os"
  using files_kept(1) [of K p os] by simp

lemma ioctl_files: "sys_ioctl K c os = (ok, os') \<Longrightarrow> os_files os' = os_files os"
  using files_kept(3) [of K c os] by simp

lemma available_files: "hwt_available K os = (avail, os') \<Longrightarrow> os_files os' = os_files os"
  by (auto simp: hwt_available_def dest!: open_files split: prod.splits if_splits)

lemma backend_files: "resolve_backend K kldfind name os = (r, os') \<Longrightarrow> os_files os' = os_files os"
  using available_files by (fastforce simp: resolve_backend_def split: if_splits option.splits prod.splits)

text \<open>A new context.\<close>

lemma alloc_files:
  assumes "hwt_ctx_alloc K mode pid tid sz backend os = (rc, ctx, os')"
  shows "os_files os' = os_files os"
    and "rc = 0 \<Longrightarrow> hc_tid ctx = tid \<and> hc_threads ctx = [] \<and> hc_trace_buf ctx = None \<and> hc_requested_tids ctx = []"
  using assms close_files
  by (auto simp: hwt_ctx_alloc_def hwt_ctx_zero_def Let_def dest!: open_files ioctl_files
      split: option.splits if_splits prod.splits) (metis snd_conv)+

section \<open>The trace state of a recording\<close>

text \<open>A session for one thread.\<close>

definition one_thread :: "hwt_ctx \<Rightarrow> bool" where
  "one_thread ctx \<longleftrightarrow> \<not> hc_all_threads ctx \<and> hc_requested_tids ctx = []"

text \<open>Everything the kernel delivers has paths that need no escape and thread ids that are C integers.\<close>

definition plain_kernel :: "kernel \<Rightarrow> bool" where
  "plain_kernel K \<longleftrightarrow> (\<forall>n. \<forall>e \<in> set (k_records K n). plain_record (convert_entry e))"

text \<open>The context and the files are as at the start, and the trace state is that of the events.\<close>

definition recorded_run :: "hwt_ctx \<Rightarrow> (string \<Rightarrow> bytes option) \<Rightarrow> trace_state \<Rightarrow> run \<Rightarrow> bool" where
  "recorded_run ctx files ts0 r \<longleftrightarrow>
     fst (fst r) = ctx \<and> os_files (snd (fst r)) = files \<and>
     (\<exists>evs. (\<forall>e \<in> set evs. plain_event e) \<and> fst (snd r) = foldl trace_event_step ts0 evs)"

lemma recorded_snoc:
  "(\<forall>e \<in> set evs. plain_event e) \<Longrightarrow> \<forall>x \<in> set recs. plain_record x \<Longrightarrow>
   \<exists>evs'. (\<forall>e \<in> set evs'. plain_event e) \<and>
     foldl (trace_state_process True) (foldl trace_event_step ts0 evs) recs = foldl trace_event_step ts0 evs'"
  by (rule exI [of _ "evs @ [Ev_records recs]"]) auto

lemma emit_recorded:
  assumes "one_thread ctx" "recorded_run ctx files ts0 r" "plain_record rec" "emit_and_process K t pid fmt pause r rec = Some r'"
  shows "recorded_run ctx files ts0 r'"
proof -
  obtain os ts out where r: "r = ((ctx, os), ts, out)" using assms(2) by (cases r) (auto simp: recorded_run_def)
  obtain w where w: "fst w = ctx" "os_files (snd w) = files" "fst (fst r') = fst w" "snd (fst r') = snd w"
    "fst (snd r') = trace_state_process True ts rec"
  proof -
    define w where "w = (if pause \<and> (r_type rec = HWT_RECORD_MMAP \<or> r_type rec = HWT_RECORD_EXECUTABLE)
      then snd (hwt_ctx_wakeup K (ctx, os)) else (ctx, os))"
    have k: "fst w = ctx" "os_files (snd w) = files"
      using assms(2) by (auto simp: w_def r recorded_run_def hwt_ctx_wakeup_def split: prod.splits dest: ioctl_files)
    then have "\<not> wants_thread (fst w) rec" using assms(1) by (simp add: wants_thread_def one_thread_def)
    with assms(4) k that show thesis by (auto simp: emit_and_process_def r Let_def w_def [symmetric] bind_eq_Some_conv)
  qed
  obtain evs where e: "\<forall>e \<in> set evs. plain_event e" "ts = foldl trace_event_step ts0 evs"
    using assms(2) by (auto simp: recorded_run_def r)
  from recorded_snoc [OF e(1), of "[rec]" ts0] assms(3) w e(2) show ?thesis by (simp add: recorded_run_def)
qed

lemma emit_all_recorded:
  "one_thread ctx \<Longrightarrow> recorded_run ctx files ts0 r \<Longrightarrow> \<forall>x \<in> set recs. plain_record x \<Longrightarrow>
   emit_all K t pid fmt pause r recs = Some r' \<Longrightarrow> recorded_run ctx files ts0 r'"
proof (induction recs arbitrary: r)
  case (Cons x recs)
  then obtain r1 where e: "emit_and_process K t pid fmt pause r x = Some r1" "emit_all K t pid fmt pause r1 recs = Some r'"
    by (auto simp: bind_eq_Some_conv)
  have "recorded_run ctx files ts0 r1" using emit_recorded [OF Cons.prems(1,2) _ e(1)] Cons.prems(3) by simp
  from Cons.IH [OF Cons.prems(1) this _ e(2)] Cons.prems(3) show ?case by simp
qed simp

lemma poll_plain:
  assumes "plain_kernel K" "hwt_ctx_poll_records K mem m w (ctx, os) = (recs, ctx', os')"
  shows "ctx' = ctx" "os_files os' = os_files os" "recs = Some rs \<Longrightarrow> \<forall>x \<in> set rs. plain_record x"
  using assms by (auto simp: hwt_ctx_poll_records_def plain_kernel_def Let_def dest!: ioctl_files in_set_takeD
      split: prod.splits if_splits)

lemma poll_recorded:
  assumes "plain_kernel (re_kernel V)" "one_thread ctx" "poll_and_emit V n pid fmt pause r = Some (k, r')" "recorded_run ctx files ts0 r"
  shows "recorded_run ctx files ts0 r'"
proof -
  obtain os ts out where r: "r = ((ctx, os), ts, out)" using assms(4) by (cases r) (auto simp: recorded_run_def)
  obtain recs ctx1 os1 where p: "hwt_ctx_poll_records (re_kernel V) (re_mem V n) MAX_POLL_RECORDS False (ctx, os) = (recs, ctx1, os1)"
    by (metis prod.exhaust)
  note pp = poll_plain [OF assms(1) p]
  have r1: "recorded_run ctx files ts0 ((ctx1, os1), ts, out)" using assms(4) pp(1,2) by (simp add: recorded_run_def r)
  show ?thesis
  proof (cases recs)
    case None
    with assms(3) r1 show ?thesis by (auto simp: poll_and_emit_def r p)
  next
    case (Some rs)
    with assms(3) have "emit_all (re_kernel V) (re_clock V n) pid fmt pause ((ctx1, os1), ts, out) rs = Some r'"
      by (auto simp: poll_and_emit_def r p)
    from emit_all_recorded [OF assms(2) r1 pp(3) [OF Some] this] show ?thesis .
  qed
qed

lemma drain_recorded:
  assumes "drain_loop poll k e n ts = Some x" "\<forall>j rs. poll j = Some rs \<longrightarrow> (\<forall>y \<in> set rs. plain_record y)"
  shows "\<exists>recs. (\<forall>y \<in> set recs. plain_record y) \<and> snd x = foldl (trace_state_process True) ts recs"
  using assms(2)
proof (induction rule: drain_loop.raw_induct [OF _ assms(1), consumes 0], goal_cases)
  case (1 dl poll k e n ts x)
  show ?case
  proof (cases "\<not> e < POST_STOP_EMPTY_POLLS \<or> poll k = None")
    case True
    then have "snd x = ts" using 1(2) by (auto split: if_splits)
    then show ?thesis by (intro exI [of _ "[]"]) simp
  next
    case False
    then obtain rs where rs: "poll k = Some rs" by auto
    have p: "\<forall>y \<in> set rs. plain_record y" using 1(3) rs by blast
    show ?thesis
    proof (cases "rs = []")
      case True
      then have "dl poll (k + 1) (e + 1) n ts = Some x" using 1(2) False rs by simp
      from 1(1) [OF this 1(3)] show ?thesis .
    next
      case nonempty: False
      then have "dl poll (k + 1) 0 (n + length rs) (foldl (trace_state_process True) ts rs) = Some x" using 1(2) False rs by simp
      from 1(1) [OF this 1(3)] obtain recs where "\<forall>y \<in> set recs. plain_record y"
        "snd x = foldl (trace_state_process True) (foldl (trace_state_process True) ts rs) recs" by blast
      with p show ?thesis by (intro exI [of _ "rs @ recs"]) auto
    qed
  qed
qed

section \<open>The end of a recording\<close>

lemma nothing_saved:
  assumes "snapshot_and_decode K E ts pt fmt opts (ctx, os) = Some (0, out, ctx', os')" "hc_threads ctx = []"
  shows "os_files os' = os_files os"
proof -
  obtain pos c1 os1 where b0: "hwt_ctx_bufptr_get K (ctx, os) = (pos, c1, os1)" by (metis prod.exhaust)
  then have b: "hwt_ctx_bufptr_get K (ctx, os) = (pos, ctx, os1)" and f1: "os_files os1 = os_files os" using bufptr_ctx [OF b0] by simp_all
  obtain h ctx2 os2 where m: "hwt_ctx_map_buffer K (ctx, os1) = (h, ctx2, os2)" by (metis prod.exhaust)
  note mc = map_buffer_ctx [OF m]
  obtain x where x: "h = Some x" using assms(1) b m by (cases h) (auto simp: snapshot_and_decode_def)
  obtain n where n: "choose_snapshot_len E (Some (map_bytes K x)) (unat (hc_bufsize ctx2))
      (unat (known_end (hc_bufsize ctx2) pos ts)) (ts_sections ts) = Some n"
    using assms(1) b m x by (auto simp: snapshot_and_decode_def Let_def bind_eq_Some_conv)
  note unf = assms(1) [unfolded snapshot_unfold [OF b m [unfolded x] n]]
  show ?thesis
  proof (cases "n = 0")
    case True
    then show ?thesis using unf mc f1 by simp
  next
    case False
    then obtain sv s3 o1 where s: "hwt_ctx_snapshot_buffer K pt (int (n div PAGE_SIZE)) (of_nat (n mod PAGE_SIZE)) (ctx2, os2) = Some (sv, s3)"
      "(if (hc_all_threads (fst s3) \<or> hc_requested_tids (fst s3) \<noteq> []) \<and> hc_threads (fst s3) \<noteq> []
        then snapshot_threads K E (ts_sections ts) pt fmt (decode_opts ctx2 opts) [0..<length (hc_threads (fst s3))] (sv, o1, s3)
        else Some (sv, o1, s3)) = Some (0, out, ctx', os')"
      using unf by (auto simp: bind_eq_Some_conv simp del: split_paired_Ex)
    have s3: "sv = 0 \<and> s3 = (ctx', os')"
      using snapshot_ctx [of K pt _ _ ctx2 os2 sv "fst s3" "snd s3"] s mc assms(2) by auto
    then have "hwt_ctx_snapshot_buffer K pt (int (n div PAGE_SIZE)) (of_nat (n mod PAGE_SIZE)) (ctx2, os2) = Some (0, ctx', os')"
      using s(1) by simp
    moreover have "hwt_ctx_map_buffer K (ctx2, os2) = (Some x, ctx2, os2)" using mc x by (simp add: hwt_ctx_map_buffer_def)
    ultimately have "os_files os' = os_files os2"
      by (auto simp: hwt_ctx_snapshot_buffer_def Let_def bind_eq_Some_conv sys_creat_def signed_eq_0_iff dest!: open_files
          split: if_splits prod.splits)
    then show ?thesis using mc f1 by simp
  qed
qed

text \<open>\<open>trace_finalize\<close> of a recording of one thread, with what it saves and decodes.\<close>

lemma finalize_recorded:
  assumes "trace_finalize K E mem t poll kbase pt pid fmt opts n r = Some (rc, out, s', meta)"
    and "recorded_run ctx files ts0 r" "one_thread ctx" "\<not> hc_os_trace ctx" "plain_kernel K"
    and "\<forall>j rs. poll j = Some rs \<longrightarrow> (\<forall>y \<in> set rs. plain_record y)"
  obtains evs live tx saved os1 ctx2 os2 where "\<forall>e \<in> set evs. plain_event e" "out = live @ tx" "os_files os1 = files"
    "snapshot_and_decode K E (foldl trace_event_step ts0 evs) pt fmt opts (ctx, os1) = Some (saved, tx, ctx2, os2)"
    "os_files (snd s') = os_files os2" "meta = meta_writer_close (ts_meta (foldl trace_event_step ts0 evs))"
    "0 \<le> rc \<Longrightarrow> 0 \<le> saved"
proof -
  obtain os ts o0 where r: "r = ((ctx, os), ts, o0)" using assms(2) by (cases r) (auto simp: recorded_run_def)
  obtain recs c1 os1 where p: "hwt_ctx_poll_records K mem POLL_RECORDS False (ctx, os) = (recs, c1, os1)" by (metis prod.exhaust)
  note pp = poll_plain [OF assms(5) p]
  let ?batch = "case recs of None \<Rightarrow> [] | Some rs \<Rightarrow> rs"
  obtain s2 ts2 out2 m ts3 saved tx s4 where f:
    "emit_all K t pid fmt True ((c1, os1), ts, o0) ?batch = Some (s2, ts2, out2)"
    "trace_state_drain_post_stop poll ts2 = Some (m, ts3)"
    "snapshot_and_decode K E (if hc_os_trace (fst (snd (hwt_ctx_stop K s2))) then trace_state_ensure_kernel kbase ts3 else ts3) pt fmt opts
       (snd (hwt_ctx_stop K s2)) = Some (saved, tx, s4)"
    "rc = (if saved < 0 then - 1 else n + int (length ?batch) + int m)" "out = out2 @ tx" "s' = hwt_ctx_close K s4"
    "meta = meta_writer_close (ts_meta (if hc_os_trace (fst (snd (hwt_ctx_stop K s2))) then trace_state_ensure_kernel kbase ts3 else ts3))"
    using assms(1) by (auto simp: trace_finalize_def r p Let_def bind_eq_Some_conv)
  have "recorded_run ctx files ts0 ((c1, os1), ts, o0)" using assms(2) pp(1,2) by (simp add: recorded_run_def r)
  moreover have "\<forall>x \<in> set ?batch. plain_record x" using pp(3) by (cases recs) auto
  ultimately have r2: "recorded_run ctx files ts0 (s2, ts2, out2)" using emit_all_recorded [OF assms(3) _ _ f(1)] by blast
  obtain os3 where stop: "snd (hwt_ctx_stop K s2) = (ctx, os3)" "os_files os3 = files"
  proof -
    obtain b where b: "s2 = (ctx, b)" "os_files b = files" using r2 by (cases s2) (auto simp: recorded_run_def)
    obtain ok b' where i: "sys_ioctl K (IOC_STOP (hc_ctx_fd ctx)) b = (ok, b')" by fastforce
    show thesis using that b i ioctl_files [OF i] by (cases "hc_ctx_fd ctx < 0") (auto simp: hwt_ctx_stop_def)
  qed
  obtain evs where e: "\<forall>x \<in> set evs. plain_event x" "ts2 = foldl trace_event_step ts0 evs"
    using r2 by (auto simp: recorded_run_def)
  obtain rs where d: "\<forall>y \<in> set rs. plain_record y" "ts3 = foldl (trace_state_process True) ts2 rs"
    using drain_recorded [OF f(2) [unfolded trace_state_drain_post_stop_def] assms(6)] by auto
  obtain evs' where e': "\<forall>x \<in> set evs'. plain_event x" "ts3 = foldl trace_event_step ts0 evs'"
    using recorded_snoc [OF e(1) d(1), of ts0] d(2) e(2) by auto
  obtain ctx4 os4 where s4: "s4 = (ctx4, os4)" by (cases s4)
  show thesis
    by (rule that [of evs' out2 tx os3 saved ctx4 os4])
      (use e' f stop assms(4) s4 close_files [of K s4] in \<open>auto split: if_splits\<close>)
qed

section \<open>Recording and decoding\<close>

text \<open>What is relied on of the outside: plain paths and ids, and a kernel whose \<open>write\<close> and buffers are as documented.\<close>

definition plain_outside :: "rec_env \<Rightarrow> bool" where
  "plain_outside V \<longleftrightarrow>
     plain_kernel (re_kernel V) \<and> plain_vmmap (re_vm V) \<and> re_meta_ok V \<and> write_sane (re_kernel V) \<and>
     (\<forall>j rs. re_drain V j = Some rs \<longrightarrow> (\<forall>y \<in> set rs. plain_record y))"

text \<open>The file system shows the trace file and the sidecar that a command has left.\<close>

definition shows_recording :: "decode_fs \<Rightarrow> string \<Rightarrow> cmd_result \<Rightarrow> bool" where
  "shows_recording fs pt r \<longleftrightarrow>
     df_text fs (derive_meta_path pt MAXPATHLEN) = cr_meta r \<and> df_open fs pt \<and>
     df_stat fs pt = map_option length (os_files (cr_os r) pt) \<and> df_mmap fs pt = os_files (cr_os r) pt"

text \<open>The session can be decoded offline: one thread, user mode, and a buffer the kernel maps as a whole.\<close>

definition decodable :: "kernel \<Rightarrow> int \<Rightarrow> hwt_ctx \<Rightarrow> bool" where
  "decodable K tid ctx \<longleftrightarrow>
     one_thread ctx \<and> \<not> hc_os_trace ctx \<and> hc_tid ctx = tid \<and> hc_threads ctx = [] \<and> hc_trace_buf ctx = None \<and>
     buffers_mapped K (hc_bufsize ctx) \<and> unat (hc_bufsize ctx) < 2 ^ 63"

lemma trace_record_decodes:
  assumes "trace_record E V q pid (ctx, os) = Some r" "cr_rc r = 0" "decodable (re_kernel V) (o_tid q) ctx" "plain_outside V"
    and "int32 pid" "int32 (o_tid q)" "o_filter_funcs q = strtok_all (CHR '','') farg"
    and "os_files os (output_path (o_output q) pid) = None" "os_files (cr_os r) (output_path (o_output q) pid) \<noteq> None"
    and "shows_recording fs (output_path (o_output q) pid) r"
  shows "\<exists>live rc decoded. cr_out r = live @ decoded \<and> (rc = 0 \<or> rc = 1) \<and>
    cmd_decode E fs [''-f'', fmt_name (o_fmt q), ''-F'', farg, ''--'', output_path (o_output q) pid] = Some (rc, decoded)"
proof -
  let ?K = "re_kernel V" and ?pt = "output_path (o_output q) pid"
  let ?ts0 = "trace_state_init (start_meta pid (o_tid q) (ucast (hc_mtc_freq ctx)) (ucast (hc_cyc_thresh ctx)))"
  let ?st0 = "\<lparr>tl_run = ((ctx, os), trace_event_step ?ts0 (Ev_seed (re_vm V)), []), tl_total = 0, tl_gone = False, tl_empty = 0\<rparr>"
  note d = assms(3) [unfolded decodable_def] and o = assms(4) [unfolded plain_outside_def]
  have start: "open_sidecar (re_meta_ok V) pid (o_tid q) ctx =
      start_meta pid (o_tid q) (ucast (hc_mtc_freq ctx)) (ucast (hc_cyc_thresh ctx))"
    using o by (simp add: open_sidecar_def start_meta_def)
  obtain st rc out s' meta where l: "trace_loop V q pid 0 ?st0 = Some st"
    and f: "trace_finalize ?K E (re_mem V 0) (re_clock V 0) (re_drain V) (re_kbase V) ?pt pid (o_fmt q)
              (Some (recording_opts q (fst (fst (tl_run st))))) (tl_total st) (tl_run st) = Some (rc, out, s', meta)"
    and r: "cr_rc r = (if rc < 0 then 1 else 0)" "cr_out r = out" "cr_os r = snd s'" "cr_meta r = meta"
    using assms(1) by (auto simp: trace_record_def Let_def bind_eq_Some_conv start)
  have "recorded_run ctx (os_files os) ?ts0 (tl_run ?st0)"
    using o by (auto simp: recorded_run_def intro!: exI [of _ "[Ev_seed (re_vm V)]"])
  then have rr: "recorded_run ctx (os_files os) ?ts0 (tl_run st)"
    using trace_loop_keeps [OF l, of "recorded_run ctx (os_files os) ?ts0"] poll_recorded d o by blast
  have ctx: "fst (fst (tl_run st)) = ctx" using rr by (simp add: recorded_run_def)
  obtain evs live tx saved os1 ctx2 os2 where e: "\<forall>e \<in> set evs. plain_event e" "out = live @ tx" "os_files os1 = os_files os"
    "snapshot_and_decode ?K E (foldl trace_event_step ?ts0 evs) ?pt (o_fmt q) (Some (recording_opts q ctx)) (ctx, os1) =
       Some (saved, tx, ctx2, os2)"
    "os_files (snd s') = os_files os2" "meta = meta_writer_close (ts_meta (foldl trace_event_step ?ts0 evs))" "0 \<le> rc \<Longrightarrow> 0 \<le> saved"
    using finalize_recorded [OF f rr] d o unfolding ctx by metis
  have "0 \<le> saved" using e(7) r(1) assms(2) by (simp split: if_splits)
  moreover have "saved \<noteq> 0" using nothing_saved [of ?K E _ ?pt _ _ ctx os1 tx ctx2 os2] e(3-5) d assms(8,9) r(3) by auto
  ultimately have saved: "0 < saved" by simp
  have "\<exists>rc. (rc = 0 \<or> rc = 1) \<and>
      cmd_decode E fs [''-f'', fmt_name (o_fmt q), ''-F'', farg, ''--'', ?pt] = Some (rc, tx)"
    by (rule offline_equals_live [of "foldl trace_event_step ?ts0 evs" pid ctx evs ?K saved E ?pt "o_fmt q" 0 0 farg os1 tx ctx2 os2])
      (use saved e d o assms(5-7,10) r in \<open>simp_all add: recording_opts_def shows_recording_def\<close>)
  with e(2) r(2) show ?thesis by blast
qed

text \<open>The size of the buffer that the options ask for.\<close>

definition session_bufsize :: "cmd_opts \<Rightarrow> u64" where
  "session_bufsize q = round_page (if parse_size (o_bufsize q) = 0 then 64 * 1024 * 1024 else parse_size (o_bufsize q))"

definition offline_ready :: "kernel \<Rightarrow> cmd_opts \<Rightarrow> bool" where
  "offline_ready K q \<longleftrightarrow>
     \<not> o_all_threads q \<and> o_tids q = [] \<and> \<not> o_os_trace q \<and>
     buffers_mapped K (session_bufsize q) \<and> unat (session_bufsize q) < 2 ^ 63"

lemma setup_decodable:
  assumes "hwt_ctx_alloc K mode pid (o_tid q) (parse_size (o_bufsize q)) backend os = (0, ctx, os')" "offline_ready K q"
    and "default_timing cpuid q (store_options q flt ctx) = Some ctx1"
  shows "decodable K (o_tid q) ctx1"
proof -
  let ?c = "store_options q flt ctx"
  have "hc_bufsize ctx = session_bufsize q" using alloc_cases [OF assms(1)] unfolding session_bufsize_def by simp
  then have "decodable K (o_tid q) ?c"
    using alloc_files(2) [OF assms(1) refl] assms(2)
    by (simp add: decodable_def offline_ready_def one_thread_def store_options_def)
  moreover have "\<exists>m c. ctx1 = ?c\<lparr>hc_mtc_freq := m, hc_cyc_thresh := c\<rparr> \<or> ctx1 = ?c"
    using assms(3) by (auto simp: default_timing_def split: prod.splits if_splits)
  ultimately show ?thesis by (auto simp: decodable_def one_thread_def)
qed

lemma config_keeps: "hwt_ctx_set_config K pause (ctx, os) = (rc, s) \<Longrightarrow> fst s = ctx \<and> os_files (snd s) = os_files os"
  by (auto simp: hwt_ctx_set_config_def hwt_ctx_set_config_on_fd_def dest: ioctl_files split: if_splits prod.splits)

lemma start_keeps: "hwt_ctx_start K (ctx, os) = (rc, s) \<Longrightarrow> fst s = ctx \<and> os_files (snd s) = os_files os"
  by (auto simp: hwt_ctx_start_def dest: ioctl_files split: if_splits prod.splits)

lemma trace_session_recorded:
  assumes "trace_session E V q flt backend pid os = Some r" "offline_ready (re_kernel V) q"
    and "os_files (cr_os r) pt \<noteq> os_files os pt"
  obtains ctx os1 where "trace_record E V q pid (ctx, os1) = Some r" "decodable (re_kernel V) (o_tid q) ctx" "os_files os1 = os_files os"
proof -
  let ?K = "re_kernel V"
  obtain rc ctx os2 where al: "hwt_ctx_alloc ?K (re_mode_thread V) pid (o_tid q) (parse_size (o_bufsize q)) (Some backend) os = (rc, ctx, os2)"
    by (metis prod.exhaust)
  note af = alloc_files(1) [OF al]
  note unf = assms(1) [unfolded trace_session_def al prod.case]
  have ab: "r \<noteq> abort_trace V c s" if "os_files (snd s) = os_files os" for c s
    using assms(3) that close_files [of ?K s] by (auto simp: abort_trace_def early_def)
  have rc: "rc = 0" using unf assms(3) af by (auto simp: early_def split: if_splits)
  obtain ctx1 where c1: "default_timing (re_cpuid V) q (store_options q flt ctx) = Some ctx1"
    using unf rc ab [of "(store_options q flt ctx, os2)"] af by (cases "default_timing (re_cpuid V) q (store_options q flt ctx)") auto
  obtain rc1 s1 where c: "hwt_ctx_set_config ?K (o_pause q) (ctx1, os2) = (rc1, s1)" by (metis prod.exhaust)
  obtain rc2 s2 where st: "hwt_ctx_start ?K s1 = (rc2, s2)" by (metis prod.exhaust)
  note k1 = config_keeps [OF c]
  have k2: "fst s2 = ctx1 \<and> os_files (snd s2) = os_files os2"
    using start_keeps [of ?K "fst s1" "snd s1" rc2 s2] st k1 by (cases s1) simp
  have "trace_record E V q pid s2 = Some r"
    using unf rc c1 c st ab [of s1] ab [of s2] k1 k2 af by (auto split: if_splits)
  then have "trace_record E V q pid (ctx1, snd s2) = Some r" using k2 by (cases s2) simp
  with setup_decodable [OF al [unfolded rc] assms(2) c1] k2 af show thesis by (intro that [of ctx1 "snd s2"]) simp_all
qed

lemma cmd_trace_session:
  assumes "cmd_trace E V exists args os = Some r" "os_files (cr_os r) pt \<noteq> os_files os pt" "trace_options (re_atof V) args = Inr (q, pid)"
  obtains flt backend os1 where "trace_session E V q flt backend pid os1 = Some r" "os_files os1 = os_files os"
proof -
  obtain name det os1 where b: "resolve_backend (re_kernel V) (re_kldfind V) (o_backend q) os = ((name, det), os1)"
    by (metis prod.exhaust)
  note bf = backend_files [OF b]
  have "\<exists>flt backend. trace_session E V q flt backend pid os1 = Some r"
    using assms(1,2) bf by (auto simp: cmd_trace_def assms(3) b early_def split: if_splits option.splits)
  with bf that show thesis by blast
qed

section \<open>From command line to command line\<close>

lemma c_atoi_int32: "int32 (c_atoi s)"
proof -
  have "int32 (to_int32 i)" for i
    using signed_take_bit_int_greater_eq_minus_exp [of 31 i] signed_take_bit_int_less_exp [of 31 i]
    by (simp add: int32_def to_int32_def)
  then show ?thesis by (auto simp: c_atoi_def scan_d_def int32_def split: option.splits prod.splits)
qed

lemma opt_step_tid: "opt_step atof oa q = Inr q' \<Longrightarrow> int32 (o_tid q) \<Longrightarrow> int32 (o_tid q')"
proof -
  assume a: "opt_step atof oa q = Inr q'" "int32 (o_tid q)"
  obtain ch arg where oa: "oa = (ch, arg)" by (cases oa)
  have t: "thread_option arg q = Inr q' \<Longrightarrow> int32 (o_tid q')"
    using c_atoi_int32 by (auto simp: thread_option_def Let_def int32_def hd_map split: if_splits)
  from a t show ?thesis unfolding oa opt_step_def prod.case Let_def by (auto split: if_splits option.splits prod.splits)
qed

lemma opt_loop_tid: "opt_loop atof oas q = Inr q' \<Longrightarrow> int32 (o_tid q) \<Longrightarrow> int32 (o_tid q')"
  by (induction oas arbitrary: q) (auto dest: opt_step_tid split: sum.splits)

lemma trace_options_int32:
  assumes "trace_options atof args = Inr (q, pid)"
  shows "int32 pid" "int32 (o_tid q)"
proof -
  obtain oas rest where g: "getopt_all ''f:b:s:d:t:m:o:r:T:P:M:Y:F:hnpCWK'' [] args = (oas, rest)" by fastforce
  have "opt_loop atof oas (default_opts 0) = Inr q" "pid = c_atoi (hd rest)"
    using assms by (auto simp: trace_options_def g split: sum.splits if_splits)
  with opt_loop_tid [of atof oas "default_opts 0" q] c_atoi_int32 show "int32 pid" "int32 (o_tid q)"
    by (simp_all add: default_opts_def int32_def)
qed


section \<open>A recording with a silent driver\<close>

text \<open>The target of the sample has gone, and the driver delivers no records: the trace state stays as it was seeded.\<close>

lemma silent_drain: "drain_loop (\<lambda>k. Some []) k e n ts = Some (n, ts)"
proof (induction "POST_STOP_EMPTY_POLLS - e" arbitrary: k e rule: less_induct)
  case less
  show ?case
  proof (cases "e < POST_STOP_EMPTY_POLLS")
    case True
    then show ?thesis using less [of "e + 1" "k + 1"] by (subst drain_loop.simps) simp
  qed (subst drain_loop.simps, simp)
qed

lemma silent_poll: "hwt_ctx_poll_records yes_kernel True m w (ctx, os) = (recs, s) \<Longrightarrow> recs = Some [] \<and> fst s = ctx"
  by (auto simp: hwt_ctx_poll_records_def Let_def yes_kernel_def [THEN arg_cong, of k_records])

lemma silent_emit:
  assumes "poll_and_emit sample_rec_env n pid fmt pause r = Some (k, r')"
  shows "fst (fst r') = fst (fst r) \<and> snd r' = snd r"
proof -
  obtain ctx os ts out where r: "r = ((ctx, os), ts, out)" by (metis prod.exhaust)
  obtain recs s where p: "hwt_ctx_poll_records yes_kernel True MAX_POLL_RECORDS False (ctx, os) = (recs, s)" by (metis prod.exhaust)
  from assms silent_poll [OF p] show ?thesis by (auto simp: poll_and_emit_def r p)
qed

lemma seed_page: "ts_last_buf_page (snd (trace_state_seed_process_mmaps ok env ts)) = ts_last_buf_page ts"
proof -
  have "ts_last_buf_page (foldl (seed_section ok) ts ss) = ts_last_buf_page ts" for ts ss
    by (induction ss arbitrary: ts)
      (auto simp: seed_section_def trace_state_add_section_def split: option.splits prod.splits if_splits)
  then show ?thesis by (simp add: trace_state_seed_process_mmaps_def split: option.splits)
qed

lemma silent_finalize:
  assumes "ts_last_buf_page ts < 0" "hc_bufsize ctx = 4096" "hc_threads ctx = []" "hc_trace_buf ctx = None" "\<not> hc_os_trace ctx" "0 \<le> n"
  shows "\<exists>rc out s' meta. trace_finalize yes_kernel (\<lambda>bs. sample_env) True t (\<lambda>k. Some []) None ''out.pt'' pid FMT_TEXT opts n
     ((ctx, os), ts, o0) = Some (rc, out, s', meta) \<and> 0 \<le> rc \<and> os_files (snd s') ''out.pt'' = Some (replicate 4096 7)"
proof -
  obtain recs s1 where p: "hwt_ctx_poll_records yes_kernel True POLL_RECORDS False (ctx, os) = (recs, s1)" by (metis prod.exhaust)
  obtain os1 where s1: "s1 = (ctx, os1)" "recs = Some []" using silent_poll [OF p] by (cases s1) simp
  obtain c os2 where st: "hwt_ctx_stop yes_kernel (ctx, os1) = (c, ctx, os2)"
    by (cases "hc_ctx_fd ctx < 0") (simp_all add: hwt_ctx_stop_def)
  obtain tx ctx4 os4 where sn: "snapshot_and_decode yes_kernel (\<lambda>bs. sample_env) ts ''out.pt'' FMT_TEXT opts (ctx, os2) = Some (4096, tx, ctx4, os4)"
    "os_files os4 ''out.pt'' = Some (replicate 4096 7)"
    using sample_saved [OF assms(1-4), of opts os2] by blast
  then show ?thesis using close_files [of yes_kernel "(ctx4, os4)"] assms(5,6)
    by (simp add: trace_finalize_def p s1 st trace_state_drain_post_stop_def silent_drain Let_def)
qed

lemma silent_record:
  assumes "decodable yes_kernel (o_tid q) ctx" "hc_bufsize ctx = 4096" "o_fmt q = FMT_TEXT" "o_output q = Some ''out.pt''"
    and "o_duration q = 0"
  shows "\<exists>r. trace_record (\<lambda>bs. sample_env) sample_rec_env q 42 (ctx, os) = Some r \<and> cr_rc r = 0 \<and>
     os_files (cr_os r) ''out.pt'' = Some (replicate 4096 7)"
proof -
  let ?ts = "snd (trace_state_seed_process_mmaps True (re_vm sample_rec_env)
    (trace_state_init (open_sidecar (re_meta_ok sample_rec_env) 42 (o_tid q) ctx)))"
  let ?st0 = "\<lparr>tl_run = ((ctx, os), ?ts, []), tl_total = 0, tl_gone = False, tl_empty = 0\<rparr>"
  have es: "emit_safe sample_rec_env 42 (o_fmt q)" using assms(3) by (simp add: emit_safe_def)
  obtain st where l: "trace_loop sample_rec_env q 42 0 ?st0 = Some st"
    using trace_poll.loop_returns_0 [where V = sample_rec_env and q = q and pid = 42 and N = 0 and M = 0 and st = ?st0] es yes_quiet [of 0]
    by auto
  have k: "fst (fst (tl_run st)) = ctx \<and> snd (tl_run st) = (?ts, [])"
    using trace_loop_keeps [OF l, of "\<lambda>r. fst (fst r) = ctx \<and> snd r = (?ts, [])"] silent_emit by fastforce
  obtain os1 where r1: "tl_run st = ((ctx, os1), ?ts, [])" using k by (cases "tl_run st") auto
  have t: "0 \<le> tl_total st" using trace_total_nonneg [OF l] by simp
  have "ts_last_buf_page ?ts < 0" by (simp add: seed_page trace_state_init_def)
  from silent_finalize [OF this assms(2) _ _ _ t, of sample_clock 42 "Some (recording_opts q ctx)" os1 "[]"] assms(1)
  obtain rc out s' meta where f: "trace_finalize yes_kernel (\<lambda>bs. sample_env) True sample_clock (\<lambda>k. Some []) None ''out.pt'' 42 FMT_TEXT
      (Some (recording_opts q ctx)) (tl_total st) (tl_run st) = Some (rc, out, s', meta)" "0 \<le> rc"
    "os_files (snd s') ''out.pt'' = Some (replicate 4096 7)"
    unfolding r1 decodable_def by auto
  show ?thesis
    using l f k by (simp add: trace_record_def Let_def assms(3,4) output_path_def sample_rec_env_def [THEN arg_cong, of re_clock]
        sample_rec_env_def [THEN arg_cong, of re_drain] sample_rec_env_def [THEN arg_cong, of re_kbase])
qed

lemma sample_outside: "plain_outside sample_rec_env"
proof -
  have "plain_kernel yes_kernel" by (simp add: plain_kernel_def yes_kernel_def)
  moreover have "plain_vmmap lld_vmmap" by (auto simp: plain_vmmap_def lld_vmmap_def plain_path_def plain_char_def)
  ultimately show ?thesis using yes_kernel_hyps(1) unfolding plain_outside_def by (simp add: sample_rec_env_def)
qed

text \<open>\<open>bsdtrace trace -s 4096 -o out.pt 42\<close>\<close>

definition sample_trace_args :: "string list" where
  "sample_trace_args = [''-s'', ''4096'', ''-o'', ''out.pt'', ''42'']"

definition sample_trace_opts :: cmd_opts where
  "sample_trace_opts = (default_opts 0)\<lparr>o_bufsize := ''4096'', o_output := Some ''out.pt''\<rparr>"

lemma sample_trace_options: "trace_options (\<lambda>s. 0) sample_trace_args = Inr (sample_trace_opts, 42)"
proof -
  have "c_atoi ''42'' = 42" by code_simp
  then show ?thesis by (simp add: trace_options_def opt_step_def sample_trace_args_def sample_trace_opts_def)
qed

lemma sample_bufsize: "parse_size (o_bufsize sample_trace_opts) = 4096" "session_bufsize sample_trace_opts = 4096"
proof -
  show p: "parse_size (o_bufsize sample_trace_opts) = 4096" unfolding sample_trace_opts_def by code_simp
  show "session_bufsize sample_trace_opts = 4096" unfolding session_bufsize_def p by (simp add: round_page_def PAGE_SIZE_def)
qed

lemma sample_ready: "offline_ready yes_kernel sample_trace_opts"
  unfolding offline_ready_def sample_bufsize
  by (simp add: sample_trace_opts_def default_opts_def buffers_mapped_def yes_kernel_def)

lemma sample_trace_run:
  "\<exists>r. cmd_trace (\<lambda>bs. sample_env) sample_rec_env True sample_trace_args os_start = Some r \<and> cr_rc r = 0 \<and>
     os_files (cr_os r) ''out.pt'' = Some (replicate 4096 7)"
proof -
  let ?q = sample_trace_opts
  have q: "o_ranges ?q = []" "o_dryrun ?q = False" "o_timing ?q = False" "o_backend ?q = None" "o_tid ?q = 0" "o_pause ?q = False"
    "o_fmt ?q = FMT_TEXT" "o_output ?q = Some ''out.pt''" "o_duration ?q = 0"
    by (simp_all add: sample_trace_opts_def default_opts_def)
  obtain os1 where b: "resolve_backend yes_kernel (\<lambda>n. True) None os_start = ((Some ''pt'', Some ''pt''), os1)"
    by (simp add: resolve_backend_def hwt_available_def lowest_fd_free(2) not_less hwt_detect_backend_def)
  obtain ctx os2 where al: "hwt_ctx_alloc yes_kernel 1 42 0 4096 (Some ''pt'') os1 = (0, ctx, os2)"
    by (simp add: hwt_ctx_alloc_def Let_def lowest_fd_free(2) not_less yes_kernel_def [THEN arg_cong, of k_maxname])
  let ?c = "store_options ?q [] ctx"
  have t: "default_timing (re_cpuid sample_rec_env) ?q ?c = Some ?c" by (simp add: default_timing_def q)
  have d: "decodable yes_kernel 0 ?c" using setup_decodable [of yes_kernel 1 42 ?q "Some ''pt''" os1 ctx os2] al sample_ready t
    unfolding sample_bufsize q by blast
  have bs: "hc_bufsize ?c = 4096" "hc_backend_name ?c = ''pt''"
    using alloc_cases [OF al] by (simp_all add: store_options_def round_page_def PAGE_SIZE_def)
  obtain os3 where c: "hwt_ctx_set_config yes_kernel False (?c, os2) = (0, ?c, os3)"
    by (simp add: hwt_ctx_set_config_def hwt_ctx_set_config_on_fd_def bs)
  obtain os4 where st: "hwt_ctx_start yes_kernel (?c, os3) = (0, ?c, os4)" by (simp add: hwt_ctx_start_def)
  obtain r where r: "trace_record (\<lambda>bs. sample_env) sample_rec_env ?q 42 (?c, os4) = Some r" "cr_rc r = 0"
    "os_files (cr_os r) ''out.pt'' = Some (replicate 4096 7)"
    using silent_record [of ?q ?c os4] d bs(1) q by auto
  have "trace_session (\<lambda>bs. sample_env) sample_rec_env ?q [] ''pt'' 42 os1 = Some r"
    using al c st r(1) t by (simp add: trace_session_def sample_bufsize q)
  then have "cmd_trace (\<lambda>bs. sample_env) sample_rec_env True sample_trace_args os_start = Some r"
    using b by (simp add: cmd_trace_def sample_trace_options trace_filter_def q check_hwt_hooks_def)
  with r show ?thesis by blast
qed


end
