(* ===== verification/Returns.thy ===== *)
theory Returns
  imports Cmd_Exec Record_Decode
begin

text \<open>
  When the commands return. A recording ends when what it traces ends and the driver falls quiet; then the final drain, the
  snapshot and the decoders end too. The lemmas collect the conditions on the outside under which every step returns.
\<close>

section \<open>Conditions\<close>

text \<open>
  What is relied on, whatever the options are: libipt makes progress, \<open>write\<close> is as documented, and from some point on the
  driver delivers nothing.
\<close>

definition outside_ends :: "(bytes \<Rightarrow> ('d, 'p) decode_env) \<Rightarrow> rec_env \<Rightarrow> bool" where
  "outside_ends E V \<longleftrightarrow>
     (\<forall>bs. ipt_sound (E bs)) \<and> write_sane (re_kernel V) \<and> (\<exists>M. quiet_from (re_kernel V) M) \<and>
     (\<exists>D. \<forall>k \<ge> D. re_drain V k = Some [] \<or> re_drain V k = None)"

text \<open>
  What is relied on of the options of one recording: the format is not one of the two whose stack buffer can overflow, JSON
  lines are within the range of their buffer, and the kernel maps buffers of the size that is asked for.
\<close>

definition recording_ok :: "rec_env \<Rightarrow> cmd_opts \<Rightarrow> int \<Rightarrow> bool" where
  "recording_ok V q pid \<longleftrightarrow>
     o_fmt q \<noteq> FMT_COLLAPSED \<and> o_fmt q \<noteq> FMT_SPEEDSCOPE \<and> emit_safe V pid (o_fmt q) \<and>
     buffers_mapped (re_kernel V) (session_bufsize q) \<and> unat (session_bufsize q) < 2 ^ 63"

section \<open>The buffer of a session\<close>

text \<open>Until the snapshot the buffer keeps its size and is not mapped.\<close>

definition unmapped :: "u64 \<Rightarrow> session \<Rightarrow> bool" where
  "unmapped bs s \<longleftrightarrow> hc_bufsize (fst s) = bs \<and> hc_trace_buf (fst s) = None"

lemma wakeup_keeps: "fst (snd (hwt_ctx_wakeup K s)) = fst s"
  by (cases s) (auto simp: hwt_ctx_wakeup_def split: prod.splits)

lemma open_thread_unmapped: "unmapped bs s \<Longrightarrow> unmapped bs (snd (hwt_ctx_open_thread K t s))"
  by (cases s) (auto simp: hwt_ctx_open_thread_def unmapped_def split: prod.splits)

lemma emit_unmapped:
  assumes "unmapped bs (fst r)" "emit_and_process K t pid fmt pause r rec = Some r'"
  shows "unmapped bs (fst r')"
proof -
  obtain s ts out where r: "r = (s, ts, out)" by (metis prod.exhaust)
  define s1 where "s1 = (if pause \<and> (r_type rec = HWT_RECORD_MMAP \<or> r_type rec = HWT_RECORD_EXECUTABLE)
               then snd (hwt_ctx_wakeup K s) else s)"
  have "unmapped bs s1" using assms(1) wakeup_keeps [of K s] by (simp add: s1_def r unmapped_def)
  with assms(2) open_thread_unmapped [of bs s1] show ?thesis
    by (auto simp: emit_and_process_def r Let_def s1_def [symmetric] bind_eq_Some_conv)
qed

lemma emit_all_unmapped:
  "unmapped bs (fst r) \<Longrightarrow> emit_all K t pid fmt pause r recs = Some r' \<Longrightarrow> unmapped bs (fst r')"
proof (induction recs arbitrary: r)
  case (Cons x recs)
  then obtain r1 where e: "emit_and_process K t pid fmt pause r x = Some r1" "emit_all K t pid fmt pause r1 recs = Some r'"
    by (auto simp: bind_eq_Some_conv)
  from Cons.IH [OF emit_unmapped [OF Cons.prems(1) e(1)] e(2)] show ?case .
qed simp

lemma poll_ctx: "hwt_ctx_poll_records K mem m w s = (recs, s') \<Longrightarrow> fst s' = fst s"
  by (cases s) (auto simp: hwt_ctx_poll_records_def Let_def split: if_splits prod.splits)

lemma poll_unmapped:
  assumes "poll_and_emit V n pid fmt pause r = Some (k, r')" "unmapped bs (fst r)"
  shows "unmapped bs (fst r')"
proof -
  obtain s ts out where r: "r = (s, ts, out)" by (metis prod.exhaust)
  obtain recs s1 where p: "hwt_ctx_poll_records (re_kernel V) (re_mem V n) MAX_POLL_RECORDS False s = (recs, s1)"
    by (metis prod.exhaust)
  have u: "unmapped bs s1" using assms(2) poll_ctx [OF p] by (simp add: unmapped_def r)
  show ?thesis
  proof (cases recs)
    case None
    with assms(1) u show ?thesis by (auto simp: poll_and_emit_def r p)
  next
    case (Some rs)
    with assms(1) have "emit_all (re_kernel V) (re_clock V n) pid fmt pause (s1, ts, out) rs = Some r'"
      by (auto simp: poll_and_emit_def r p)
    from emit_all_unmapped [OF _ this] u show ?thesis by simp
  qed
qed

section \<open>The end of a recording\<close>

lemma finalize_returns:
  assumes "outside_ends E V" "recording_ok V q pid" "unmapped (session_bufsize q) (fst r)"
  shows "\<exists>rc out s meta. trace_finalize (re_kernel V) E (re_mem V 0) (re_clock V 0) (re_drain V) (re_kbase V) pt pid (o_fmt q)
     opts nrecords r = Some (rc, out, s, meta)"
proof -
  let ?K = "re_kernel V"
  note o = assms(1) [unfolded outside_ends_def] and q = assms(2) [unfolded recording_ok_def]
  obtain ctx os ts out where r: "r = ((ctx, os), ts, out)" by (metis prod.exhaust)
  obtain recs ctx1 os1 where p: "hwt_ctx_poll_records ?K (re_mem V 0) POLL_RECORDS False (ctx, os) = (recs, ctx1, os1)" by (metis prod.exhaust)
  let ?batch = "case recs of None \<Rightarrow> [] | Some rs \<Rightarrow> rs"
  have "set ?batch \<subseteq> convert_entry ` set (k_records ?K (os_n os))"
    using p by (auto simp: hwt_ctx_poll_records_def Let_def split: if_splits prod.splits option.splits dest!: in_set_takeD)
  then have "\<forall>rec \<in> set ?batch. o_fmt q = FMT_JSON \<longrightarrow> clock_ok (re_clock V 0) \<and> record_ok rec \<and> int32 pid"
    using q by (auto simp: emit_safe_def)
  from emit_all_returns [OF this, of ?K True "((ctx1, os1), ts, out)"]
  obtain s2 ts2 out2 where e: "emit_all ?K (re_clock V 0) pid (o_fmt q) True ((ctx1, os1), ts, out) ?batch = Some (s2, ts2, out2)"
    by (metis prod.exhaust)
  have "unmapped (session_bufsize q) (ctx1, os1)" using assms(3) poll_ctx [OF p] by (simp add: unmapped_def r)
  then have u: "unmapped (session_bufsize q) s2" using emit_all_unmapped [OF _ e] by simp
  obtain ctx2 os2 where st: "snd (hwt_ctx_stop ?K s2) = (ctx2, os2)" by (metis prod.exhaust)
  have u2: "unmapped (session_bufsize q) (ctx2, os2)"
    using u st by (cases s2) (auto simp: hwt_ctx_stop_def unmapped_def split: if_splits prod.splits)
  obtain D where "\<forall>k \<ge> D. re_drain V k = Some [] \<or> re_drain V k = None" using o by blast
  from drain_loop_returns [OF this, of 0 0 0 ts2]
  obtain m ts3 where d: "trace_state_drain_post_stop (re_drain V) ts2 = Some (m, ts3)"
    by (auto simp: trace_state_drain_post_stop_def)
  define ts4 where "ts4 = (if hc_os_trace ctx2 then trace_state_ensure_kernel (re_kbase V) ts3 else ts3)"
  obtain saved tx s4 where "snapshot_and_decode ?K E ts4 pt (o_fmt q) opts (ctx2, os2) = Some (saved, tx, s4)"
    using snapshot_save [of E "o_fmt q" ?K ctx2 ts4 pt opts os2] o q u2 by (auto simp: unmapped_def)
  with p e st d show ?thesis by (simp add: trace_finalize_def r Let_def ts4_def)
qed

text \<open>What follows the allocation of a session leaves the buffer alone.\<close>

lemma setup_unmapped:
  assumes "hwt_ctx_alloc K mode pid tid (parse_size (o_bufsize q)) backend os = (0, ctx, os')"
    and "default_timing cpuid q (store_options q flt ctx) = Some ctx1"
    and "hwt_ctx_set_config K pause (ctx1, os') = (rc1, s1)" "hwt_ctx_start K s1 = (rc2, s2)"
  shows "unmapped (session_bufsize q) s2"
proof -
  have "hc_bufsize ctx = session_bufsize q" using alloc_cases [OF assms(1)] unfolding session_bufsize_def by simp
  then have "unmapped (session_bufsize q) (store_options q flt ctx, os')"
    using alloc_files(2) [OF assms(1) refl] by (simp add: unmapped_def store_options_def)
  then have "unmapped (session_bufsize q) (ctx1, os')"
    using assms(2) by (auto simp: default_timing_def unmapped_def split: prod.splits if_splits)
  then have "unmapped (session_bufsize q) s1" using config_keeps [OF assms(3)] by (simp add: unmapped_def)
  then show ?thesis using start_keeps [of K "fst s1" "snd s1" rc2 s2] assms(4) by (simp add: unmapped_def)
qed

section \<open>The commands\<close>

lemma trace_record_returns:
  assumes "outside_ends E V" "recording_ok V q pid" "unmapped (session_bufsize q) s" "re_interrupted V N \<or> \<not> re_alive V N"
  shows "\<exists>r. trace_record E V q pid s = Some r"
proof -
  let ?ts = "snd (trace_state_seed_process_mmaps True (re_vm V) (trace_state_init (open_sidecar (re_meta_ok V) pid (o_tid q) (fst s))))"
  let ?st0 = "\<lparr>tl_run = (s, ?ts, []), tl_total = 0, tl_gone = False, tl_empty = 0\<rparr>"
  obtain M where m: "quiet_from (re_kernel V) M" using assms(1) unfolding outside_ends_def by blast
  have "emit_safe V pid (o_fmt q)" using assms(2) unfolding recording_ok_def by blast
  then obtain st where l: "trace_loop V q pid 0 ?st0 = Some st"
    using trace_poll.loop_returns_0 [where V = V and q = q and pid = pid and N = N and M = M and st = ?st0] assms(4) m by auto
  have "unmapped (session_bufsize q) (fst (tl_run st))"
    using trace_loop_keeps [OF l, of "\<lambda>r. unmapped (session_bufsize q) (fst r)"] assms(3) poll_unmapped by auto
  from finalize_returns [OF assms(1,2) this, of "output_path (o_output q) pid" "Some (recording_opts q (fst (fst (tl_run st))))" "tl_total st"]
  show ?thesis using l by (auto simp: trace_record_def Let_def)
qed

lemma trace_session_returns:
  assumes "outside_ends E V" "recording_ok V q pid" "re_interrupted V N \<or> \<not> re_alive V N"
  shows "\<exists>r. trace_session E V q flt backend pid os = Some r"
proof -
  obtain rc ctx os2 where al: "hwt_ctx_alloc (re_kernel V) (re_mode_thread V) pid (o_tid q) (parse_size (o_bufsize q)) (Some backend) os =
    (rc, ctx, os2)" by (metis prod.exhaust)
  show ?thesis
  proof (cases "rc = 0 \<and> default_timing (re_cpuid V) q (store_options q flt ctx) \<noteq> None")
    case False
    then show ?thesis by (auto simp: trace_session_def al)
  next
    case True
    then obtain ctx1 where c1: "default_timing (re_cpuid V) q (store_options q flt ctx) = Some ctx1" by blast
    obtain rc1 s1 where c: "hwt_ctx_set_config (re_kernel V) (o_pause q) (ctx1, os2) = (rc1, s1)" by (metis prod.exhaust)
    obtain rc2 s2 where st: "hwt_ctx_start (re_kernel V) s1 = (rc2, s2)" by (metis prod.exhaust)
    have "unmapped (session_bufsize q) s2" using setup_unmapped [OF _ c1 c st] al True by blast
    from trace_record_returns [OF assms(1,2) this assms(3)] show ?thesis by (auto simp: trace_session_def al c1 c st)
  qed
qed

lemma cmd_trace_returns:
  assumes "outside_ends E V" "re_interrupted V N \<or> \<not> re_alive V N"
    and "\<And>q pid. trace_options (re_atof V) args = Inr (q, pid) \<Longrightarrow> recording_ok V q pid"
  shows "\<exists>r. cmd_trace E V exists args os = Some r"
proof (cases "trace_options (re_atof V) args")
  case (Inl rc)
  then show ?thesis by (simp add: cmd_trace_def)
next
  case (Inr o1)
  obtain q pid where q: "o1 = (q, pid)" by (cases o1)
  obtain name det os1 where b: "resolve_backend (re_kernel V) (re_kldfind V) (o_backend q) os = ((name, det), os1)" by (metis prod.exhaust)
  have "\<exists>r. trace_session E V q flt backend pid os1 = Some r" for flt backend
    using trace_session_returns [OF assms(1) assms(3) assms(2)] Inr q by blast
  then show ?thesis by (cases name; cases "trace_filter V q") (auto simp: cmd_trace_def Inr q b)
qed

lemma exec_record_returns:
  assumes "outside_ends E V" "recording_ok V q child" "unmapped (session_bufsize q) s" "re_child V N \<noteq> None"
    and "filter is_reap pl = []" "filter is_fork pl = [P_fork child a b]"
  shows "\<exists>r. exec_record E V q child pl s = Some r"
proof -
  let ?st0 = "\<lparr>es_run = (s, trace_state_init (open_sidecar (re_meta_ok V) child (o_tid q) (fst s)), []), es_total = 0, es_done = False,
      es_exitcode = 0, es_empty = 0, es_log = pl @ [P_kill child SIGCONT]\<rparr>"
  obtain M where m: "quiet_from (re_kernel V) M" using assms(1) unfolding outside_ends_def by blast
  have "emit_safe V child (o_fmt q)" using assms(2) unfolding recording_ok_def by blast
  moreover have i: "reap_inv child ?st0" using assms(5,6) by (simp add: reap_inv_def)
  ultimately obtain st where l: "exec_loop V q child 0 ?st0 = Some st"
    using exec_poll.loop_returns_0 [where V = V and q = q and pid = child and N = N and M = M and st = ?st0] assms(4) m by auto
  have "unmapped (session_bufsize q) (fst (es_run st))"
    using exec_loop_keeps [OF l, of "\<lambda>r. unmapped (session_bufsize q) (fst r)"] i assms(3) poll_unmapped by auto
  then have "unmapped (session_bufsize q) (fst (es_run (exec_reap V child st)))" by (simp add: exec_reap_def)
  from finalize_returns [OF assms(1,2) this, of "output_path (o_output q) child"
      "Some (recording_opts q (fst (fst (es_run (exec_reap V child st)))))" "es_total (exec_reap V child st)"]
  show ?thesis using l by (auto simp: exec_record_def Let_def)
qed

lemma exec_session_returns:
  assumes "outside_ends E V" "re_child V N \<noteq> None"
    and "\<not> child < 0 \<Longrightarrow> recording_ok V q child \<and> filter is_reap pl = [] \<and> (\<exists>a b. filter is_fork pl = [P_fork child a b])"
  shows "\<exists>r. exec_session E V q flt backend child pl os = Some r"
proof -
  obtain rc ctx os2 where al: "hwt_ctx_alloc (re_kernel V) (re_mode_thread V) child (o_tid q) (parse_size (o_bufsize q)) (Some backend) os =
    (rc, ctx, os2)" by (metis prod.exhaust)
  show ?thesis
  proof (cases "child < 0 \<or> rc \<noteq> 0 \<or> default_timing (re_cpuid V) q (store_options q flt ctx) = None")
    case True
    then show ?thesis by (auto simp: exec_session_def al)
  next
    case False
    then obtain ctx1 where c1: "default_timing (re_cpuid V) q (store_options q flt ctx) = Some ctx1" by blast
    obtain rc1 s1 where c: "hwt_ctx_set_config (re_kernel V) (o_pause q) (ctx1, os2) = (rc1, s1)" by (metis prod.exhaust)
    obtain rc2 s2 where st: "hwt_ctx_start (re_kernel V) s1 = (rc2, s2)" by (metis prod.exhaust)
    have "unmapped (session_bufsize q) s2" using setup_unmapped [OF _ c1 c st] al False by blast
    then have "\<exists>r. exec_record E V q child pl s2 = Some r"
      using exec_record_returns [OF assms(1) _ _ assms(2)] assms(3) False by blast
    then show ?thesis by (auto simp: exec_session_def al c1 c st)
  qed
qed

lemma cmd_exec_returns:
  assumes "outside_ends E V" "re_child V N \<noteq> None" "re_fork V = - 1 \<or> 0 < re_fork V"
    and "\<And>q cmd. exec_options (re_atof V) args = Inr (q, cmd) \<Longrightarrow> recording_ok V q (re_fork V)"
  shows "\<exists>r. cmd_exec E V args os = Some r"
proof (cases "exec_options (re_atof V) args")
  case (Inl rc)
  then show ?thesis by (simp add: cmd_exec_def)
next
  case (Inr o1)
  obtain q cmd where q: "o1 = (q, cmd)" by (cases o1)
  obtain name det os1 where b: "resolve_backend (re_kernel V) (re_kldfind V) (o_backend q) os = ((name, det), os1)" by (metis prod.exhaust)
  have "\<exists>r. exec_session E V q flt backend (fst (fork_stopped V cmd na)) (snd (fork_stopped V cmd na)) os1 = Some r" for flt backend na
  proof -
    obtain child pl where k: "fork_stopped V cmd na = (child, pl)" by fastforce
    have "\<not> child < 0 \<Longrightarrow> recording_ok V q child \<and> filter is_reap pl = [] \<and> (\<exists>a b. filter is_fork pl = [P_fork child a b])"
      using fork_stopped_log [OF k assms(3)] assms(4) Inr q by auto
    from exec_session_returns [OF assms(1,2) this] show ?thesis by (simp add: k)
  qed
  then show ?thesis
    by (cases name; cases "exec_filter V q (hd cmd)") (auto simp: cmd_exec_def Inr q b case_prod_beta)
qed

text \<open>\<open>decode\<close> returns unless the format is one of the two whose stack buffer can overflow.\<close>

definition decode_ok :: "decode_fs \<Rightarrow> string list \<Rightarrow> bool" where
  "decode_ok fs args \<longleftrightarrow>
     (case decode_opt_loop fs (fst (getopt_all ''f:m:F:h'' [] args)) decode_args_init of
        Inl rc \<Rightarrow> True
      | Inr a \<Rightarrow> da_fmt a \<noteq> FMT_COLLAPSED \<and> da_fmt a \<noteq> FMT_SPEEDSCOPE)"

lemma cmd_decode_returns:
  assumes "\<forall>bs. ipt_sound (E bs)" "decode_ok fs args"
  shows "\<exists>x. cmd_decode E fs args = Some x"
proof -
  obtain oas rest where g: "getopt_all ''f:m:F:h'' [] args = (oas, rest)" by fastforce
  show ?thesis
  proof (cases "decode_opt_loop fs oas decode_args_init")
    case (Inl rc)
    then show ?thesis by (simp add: cmd_decode_def g)
  next
    case (Inr a0)
    have f: "da_fmt a0 \<noteq> FMT_COLLAPSED" "da_fmt a0 \<noteq> FMT_SPEEDSCOPE" using assms(2) by (simp_all add: decode_ok_def g Inr)
    have d: "\<exists>r. decode_pt_insn (E buf) False len (da_sections a) (da_fmt a) opts = Some r"
      if "discover_meta fs pt a0 = Inr a" for pt a buf len opts
    proof -
      have "da_fmt a = da_fmt a0" using that by (auto simp: discover_meta_def Let_def split: if_splits option.splits)
      then show ?thesis using decode_returns [of "E buf" "da_fmt a" False len "da_sections a" opts] assms(1) f by simp
    qed
    then show ?thesis
      by (cases rest; cases "discover_meta fs (hd rest) a0")
        (auto simp: cmd_decode_def g Inr split: option.splits)
  qed
qed

end
