(* ===== verification/Cmd_List.thy ===== *)
theory Cmd_List
  imports Recording
begin

text \<open>
  \<open>cmd_list.c\<close>: the status of the framework, as text or as JSON, and the threads of a process. What the kernel answers
  to \<open>sysctl\<close> is a parameter. The lemmas show that the JSON output can be read back, and that nothing stays open.
\<close>

section \<open>Model\<close>

text \<open>
  The fields of \<open>kinfo_proc\<close> that are read, and the answers of \<open>sysctl\<close>: \<open>kern.conftxt\<close> as \<open>hwt_hooks_enabled\<close> asks
  for it, strings by name, and the threads of a process: whether the first call gives a size, whether \<open>malloc\<close>
  succeeds, and the second call's answer.
\<close>

record kinfo_proc =
  ki_comm :: string
  ki_tid :: int
  ki_tdname :: string

record list_env =
  le_kernel :: kernel
  le_kldfind :: "string \<Rightarrow> bool"
  le_conftxt :: "nat option \<times> bool \<times> string option"
  le_cpuid :: "u32 \<times> u32"
  le_string :: "string \<Rightarrow> string option"
  le_sizes :: "int \<Rightarrow> bool"
  le_mem :: bool
  le_threads :: "int \<Rightarrow> kinfo_proc list option"

definition thread_row :: "nat \<times> kinfo_proc \<Rightarrow> string" where
  "thread_row = (\<lambda>(i, k).
     ''  '' @ ljust 6 (fmt_u i) @ ''  '' @ ljust 6 (fmt_d (ki_tid k)) @ ''  '' @
     (if ki_tdname k \<noteq> [] then ki_tdname k else ''(unnamed)'') @ nl)"

definition list_threads :: "list_env \<Rightarrow> int \<Rightarrow> string" where
  "list_threads V pid =
     (if \<not> le_sizes V pid \<or> \<not> le_mem V then []
      else case le_threads V pid of
             None \<Rightarrow> []
           | Some [] \<Rightarrow> []
           | Some (k # ks) \<Rightarrow>
               ''Threads for PID '' @ fmt_d pid @ '' ('' @ ki_comm k @ ''):'' @ nl @
               ''  '' @ ljust 6 ''INDEX'' @ ''  '' @ ljust 6 ''TID'' @ ''  NAME'' @ nl @
               concat (map thread_row (enumerate 0 (k # ks))))"

text \<open>A value that does not fit the buffer with its NUL is an error.\<close>

definition sysctl_string :: "list_env \<Rightarrow> string \<Rightarrow> nat \<Rightarrow> string option" where
  "sysctl_string V name bufsz =
     (case le_string V name of None \<Rightarrow> None | Some s \<Rightarrow> if length s + 1 \<le> bufsz then Some s else None)"

text \<open>Forty times the character U+2500 in UTF-8.\<close>

definition rule_line :: string where
  "rule_line = concat (replicate 40 [CHR 0xE2, CHR 0x94, CHR 0x80]) @ nl"

definition list_backend :: "u32 \<times> u32 \<Rightarrow> string \<Rightarrow> string" where
  "list_backend cpuid backend =
     nl @ ''Backend: '' @ backend @ nl @ rule_line @
     (if backend = ''pt''
      then ''  Type:           Intel Processor Trace'' @ nl @ ''  Modes:          thread, cpu'' @ nl @
           (case hwt_pt_default_timing (fst cpuid) (snd cpuid) of (mtc, cyc) \<Rightarrow>
              if mtc > 0 \<and> cyc > 0 then ''  Features:       branch tracing, timing, cycle-accurate'' @ nl
              else if mtc > 0 then ''  Features:       branch tracing, timing'' @ nl
              else ''  Features:       branch tracing'' @ nl)
      else if backend = ''coresight''
      then ''  Type:           ARM CoreSight ETM'' @ nl @ ''  Modes:          thread, cpu'' @ nl @
           ''  Features:       branch tracing, timestamps'' @ nl
      else if backend = ''spe''
      then ''  Type:           ARM Statistical Profiling Extension'' @ nl @ ''  Modes:          thread, cpu'' @ nl @
           ''  Features:       statistical sampling, latency, events'' @ nl
      else ''  Type:           unknown'' @ nl)"

definition list_hints :: "bool \<Rightarrow> string option \<Rightarrow> string \<Rightarrow> string" where
  "list_hints hwt_avail backend machine =
     (if \<not> hwt_avail
      then nl @ ''To enable HWT:'' @ nl @ ''  sudo kldload hwt'' @ nl @
           (if machine = ''amd64'' then ''  sudo kldload pt'' @ nl
            else if machine = ''aarch64'' then ''  sudo kldload coresight'' @ nl else [])
      else if backend = None
      then nl @ ''hwt.ko is loaded but no backend driver found.'' @ nl @
           (if machine = ''amd64''
            then ''  sudo kldload pt'' @ nl @ ''  # If pt.ko is missing, build from source:'' @ nl @
                 ''  # cd /usr/src/sys/modules/pt && sudo make && sudo make install'' @ nl
            else if machine = ''aarch64'' then ''  sudo kldload coresight  # or: sudo kldload spe'' @ nl else [])
      else [])"

definition list_text :: "u32 \<times> u32 \<Rightarrow> bool \<Rightarrow> int \<Rightarrow> string option \<Rightarrow> string \<Rightarrow> string \<Rightarrow> string" where
  "list_text cpuid hwt_avail hooks backend cpu_model machine =
     ''HWT Framework'' @ nl @ rule_line @
     ''  /dev/hwt:       '' @ (if hwt_avail then ''available'' else ''not found (kldload hwt)'') @ nl @
     ''  Kernel hooks:   '' @
     (if hooks > 0 then ''enabled'' else if hooks = 0 then ''missing (boot kernel with HWT_HOOKS)'' else ''unknown'') @ nl @
     ''  Backend:        '' @ (case backend of Some b \<Rightarrow> b | None \<Rightarrow> ''none loaded'') @ nl @
     ''  CPU:            '' @ cpu_model @ nl @ ''  Architecture:   '' @ machine @ nl @
     (case backend of Some b \<Rightarrow> list_backend cpuid b | None \<Rightarrow> []) @
     list_hints hwt_avail backend machine @
     (if hooks = 0
      then nl @ ''The running kernel lacks HWT_HOOKS.'' @ nl @
           ''  HWT_IOC_ALLOC can still create a context, but exec/mmap records and scheduler-driven tracing are not available.'' @
           nl @ ''  Boot a kernel built with:'' @ nl @ ''    options HWT_HOOKS'' @ nl
      else [])"

definition list_json :: "bool \<Rightarrow> int \<Rightarrow> string option \<Rightarrow> string \<Rightarrow> string \<Rightarrow> string" where
  \<open>list_json hwt_avail hooks backend cpu_model machine =
     ''{"hwt_available":'' @ (if hwt_avail then ''true'' else ''false'') @
     (if hooks > 0 then '',"kernel_hooks":true'' else if hooks = 0 then '',"kernel_hooks":false'' else '',"kernel_hooks":null'') @
     (case backend of Some b \<Rightarrow> '',"backend":"'' @ b @ ''"'' | None \<Rightarrow> '',"backend":null'') @
     '',"cpu_model":"'' @ cpu_model @ ''"'' @ '',"machine":"'' @ machine @ ''"'' @
     '',"intel_pt":'' @ (if machine = ''amd64'' \<and> backend = Some ''pt'' then ''true'' else ''false'') @ ''}'' @ nl\<close>

text \<open>The options: the format and the process. Operands are ignored.\<close>

fun list_opt_loop :: "(char \<times> string) list \<Rightarrow> bsdtrace_fmt \<times> int \<Rightarrow> int + bsdtrace_fmt \<times> int" where
  "list_opt_loop [] a = Inr a"
| "list_opt_loop ((ch, arg) # oas) (fmt, pid) =
     (if ch = CHR ''f''
      then (if arg = ''json'' then list_opt_loop oas (FMT_JSON, pid)
            else if arg = ''text'' then list_opt_loop oas (FMT_TEXT, pid)
            else Inl 1)
      else if ch = CHR ''p'' then list_opt_loop oas (fmt, c_atoi arg)
      else if ch = CHR ''h'' then Inl 0
      else Inl 1)"

definition cmd_list :: "list_env \<Rightarrow> string list \<Rightarrow> os \<Rightarrow> cmd_result" where
  "cmd_list V args os =
     (case list_opt_loop (fst (getopt_all ''f:p:h'' [] args)) (FMT_TEXT, 0) of
        Inl rc \<Rightarrow> early rc os []
      | Inr (fmt, list_pid) \<Rightarrow>
          (case hwt_available (le_kernel V) os of (avail, os1) \<Rightarrow>
             let hooks = (case le_conftxt V of (len, mem, t) \<Rightarrow> hwt_hooks_enabled len mem t);
                 backend = hwt_detect_backend (le_kldfind V);
                 cpu_model = (case sysctl_string V ''hw.model'' 256 of Some s \<Rightarrow> s | None \<Rightarrow> ''unknown'');
                 machine = (case sysctl_string V ''hw.machine'' 64 of Some s \<Rightarrow> s | None \<Rightarrow> ''unknown'')
             in \<lparr>cr_rc = 0,
                 cr_out = (if fmt = FMT_JSON then list_json avail hooks backend cpu_model machine
                           else list_text (le_cpuid V) avail hooks backend cpu_model machine) @
                          (if list_pid > 0 then list_threads V list_pid else []),
                 cr_os = os1, cr_log = [], cr_meta = None\<rparr>))"

lemma cmd_list_os: "mset (os_fds (cr_os (cmd_list V args os))) = mset (os_fds os) \<and> os_maps (cr_os (cmd_list V args os)) = os_maps os"
proof -
  obtain avail os1 where h: "hwt_available (le_kernel V) os = (avail, os1)" by fastforce
  have "mset (os_fds os1) = mset (os_fds os) \<and> os_maps os1 = os_maps os" using hwt_available_os [OF h] .
  then show ?thesis by (auto simp: cmd_list_def h Let_def early_def split: sum.splits)
qed

section \<open>Reading the status back\<close>

text \<open>The first of some literals that the input starts with.\<close>

fun scan_alt :: "(string \<times> 'a) list \<Rightarrow> string \<Rightarrow> ('a \<times> string) option" where
  "scan_alt [] s = None"
| "scan_alt ((p, v) # ps) s = (case scan_lit p s of Some r \<Rightarrow> Some (v, r) | None \<Rightarrow> scan_alt ps s)"

text \<open>The characters up to the next quote, which is skipped.\<close>

definition scan_quoted :: "string \<Rightarrow> (string \<times> string) option" where
  "scan_quoted s = (case dropWhile (\<lambda>c. c \<noteq> dquote) s of [] \<Rightarrow> None | _ # r \<Rightarrow> Some (takeWhile (\<lambda>c. c \<noteq> dquote) s, r))"

lemma scan_quoted_clean: "dquote \<notin> set p \<Longrightarrow> scan_quoted (p @ dquote # r) = Some (p, r)"
  by (induction p) (auto simp: scan_quoted_def split: list.splits)

definition read_status :: "string \<Rightarrow> (bool \<times> bool option \<times> string option \<times> string \<times> string \<times> bool) option" where
  \<open>read_status s =
     do {
       (avail, s) \<leftarrow> scan_alt [(''{"hwt_available":true'', True), (''{"hwt_available":false'', False)] s;
       (hooks, s) \<leftarrow> scan_alt [('',"kernel_hooks":true'', Some True), ('',"kernel_hooks":false'', Some False),
                              ('',"kernel_hooks":null'', None)] s;
       (quoted, s) \<leftarrow> scan_alt [('',"backend":"'', True), ('',"backend":null'', False)] s;
       (backend, s) \<leftarrow> (if quoted then map_option (map_prod Some id) (scan_quoted s) else Some (None, s));
       s \<leftarrow> scan_lit '',"cpu_model":"'' s;
       (cpu_model, s) \<leftarrow> scan_quoted s;
       s \<leftarrow> scan_lit '',"machine":"'' s;
       (machine, s) \<leftarrow> scan_quoted s;
       (intel, s) \<leftarrow> scan_alt [('',"intel_pt":true'' @ ''}'' @ nl, True), ('',"intel_pt":false'' @ ''}'' @ nl, False)] s;
       if s = [] then Some (avail, hooks, backend, cpu_model, machine, intel) else None }\<close>

lemma detected_clean: "hwt_detect_backend f = Some b \<Longrightarrow> dquote \<notin> set b"
  by (auto simp: hwt_detect_backend_def split: if_splits)

text \<open>
  The JSON status can be read back. Whatever the kernel has answered, if the names of the CPU and of the machine hold no
  quote, the one line that \<open>list -f json\<close> prints gives back the availability of the device, what is known of the hooks
  (a negative answer is unknown), the back end, both names, and whether Intel PT can be used, and nothing follows it.
\<close>

theorem list_json_readable:
  assumes "dquote \<notin> set cpu_model" "dquote \<notin> set machine" "backend = hwt_detect_backend f"
  shows "read_status (list_json hwt_avail hooks backend cpu_model machine) =
           Some (hwt_avail, if hooks < 0 then None else Some (hooks \<noteq> 0), backend, cpu_model, machine,
                 machine = ''amd64'' \<and> backend = Some ''pt'')"
proof -
  define i where "i \<longleftrightarrow> machine = ''amd64'' \<and> backend = Some ''pt''"
  have q: "backend = Some b \<Longrightarrow> dquote \<notin> set b" for b using assms(3) detected_clean by metis
  show ?thesis unfolding list_json_def i_def [symmetric]
    by (cases backend; cases hwt_avail; cases i; cases "hooks > 0"; cases "hooks = 0")
      (use assms(1,2) q in \<open>simp_all add: read_status_def scan_quoted_clean\<close>)
qed

theorem list_json_readable_witness:
  "read_status (list_json True (- 1) (Some ''coresight'') ''Cortex-A72'' ''aarch64'') =
     Some (True, None, Some ''coresight'', ''Cortex-A72'', ''aarch64'', False)"
  using list_json_readable [of "''Cortex-A72''" "''aarch64''" "Some ''coresight''" "\<lambda>n. n = ''coresight''" True "- 1"]
  by (simp add: hwt_detect_backend_def)

definition sample_list_env :: list_env where
  "sample_list_env =
     \<lparr>le_kernel = yes_kernel, le_kldfind = (\<lambda>n. n = ''pt''), le_conftxt = (Some 1, True, Some []), le_cpuid = (0, 0),
      le_string = (\<lambda>n. Some ''amd64''), le_sizes = (\<lambda>p. True), le_mem = True, le_threads = (\<lambda>p. Some [])\<rparr>"

end
