(* ===== verification/Spec2Isabelle.thy ===== *)
theory Spec2Isabelle
  imports Returns Cmd_List
begin

text \<open>
  A verification development of \<open>bsdtrace\<close>, the C program under \<open>src/Sources/bsdtrace\<close> that traces processes with Intel
  Processor Trace through FreeBSD's hwt(4) driver and decodes the traces into text, JSON, profiles, call trees, caller
  views, collapsed stacks and speedscope files.

  \<^bold>\<open>The program.\<close> \<open>main\<close> (\<open>bsdtrace.c\<close>) dispatches to four commands. \<open>exec\<close> (\<open>cmd_exec.c\<close>) forks a stopped child, opens a
  session with the driver (\<open>hwt.c\<close>), resumes the child and polls the driver for records; \<open>trace\<close> (\<open>cmd_trace.c\<close>) does the same for a
  running process. Every record is printed (\<open>format.c\<close>), folded into the trace state (\<open>trace.c\<close>) and appended to a sidecar
  file (\<open>meta.c\<close>). At the end (\<open>trace_finalize\<close>) the buffers are saved and decoded (\<open>decode.c\<close>), for which the sections of the
  trace state are loaded as an image with symbols (\<open>elf.c\<close>, \<open>symbols.c\<close>, \<open>dwarf.c\<close>). \<open>decode\<close> (\<open>cmd_decode.c\<close>) does the last part from the
  saved files, \<open>list\<close> (\<open>cmd_list.c\<close>) prints the status of the framework. \<open>resolve.c\<close> turns range arguments into address filters.

  \<^bold>\<open>Theories and sources.\<close>
  \<^item> \<open>Prelude\<close>: C integers as words, C strings, checked array access, and the contracts \<open>append_vec\<close> (growing arrays) and
    \<open>preorder_cmp\<close> (comparison functions for \<open>qsort\<close>). \<open>Keyed\<close>: the contract \<open>counting_table\<close> of the find-or-add tables.
    \<open>CStdio\<close>: the \<open>printf\<close> and \<open>sscanf\<close> conversions in use. \<open>Bsdtrace_Types\<close>: the shared types of \<open>bsdtrace.h\<close>.
  \<^item> \<open>Format\<close> (\<open>format.c\<close>), \<open>Meta\<close> (\<open>meta.c\<close>), \<open>Elf\<close> (\<open>elf.c\<close>), \<open>Symbols\<close> (\<open>symbols.c\<close>), \<open>Dwarf\<close> (\<open>dwarf.c\<close>), \<open>Procmap\<close> and \<open>Resolve\<close> (\<open>resolve.c\<close>).
  \<^item> \<open>Packets\<close>, \<open>Image\<close>, \<open>Insn_Loop\<close>, \<open>Decode\<close> and \<open>Decode_Props\<close>: the decoders of \<open>decode.c\<close>; \<open>Profile\<close>, \<open>Calltree\<close>, \<open>Calltree_View\<close>,
    \<open>Callers\<close>, \<open>Collapsed\<close>, \<open>Speedscope\<close>: its aggregators. The call tree is modelled on an explicit heap, because the code keeps
    pointers into arrays that \<open>realloc\<close> moves.
  \<^item> \<open>Hwt\<close> and \<open>Hwt_Props\<close> (\<open>hwt.c\<close>): a process state \<open>os\<close> with descriptors, mappings, files and the log of requests, and a
    \<open>kernel\<close> that answers the n-th call; the step relation \<open>hwt_step\<close> holds every call a command can make on a context.
  \<^item> \<open>Trace_State\<close>, \<open>Snapshot\<close>, \<open>Finalize\<close> (\<open>trace.c\<close>): the accumulator, the choice and saving of buffers, the end of a recording.
  \<^item> \<open>Options\<close> (\<open>getopt\<close>, \<open>parse_size\<close>, the option loops), \<open>Recording\<close> (what \<open>exec\<close> and \<open>trace\<close> share, and the contract \<open>polling\<close> of their
    loops), \<open>Cmd_Exec\<close>, \<open>Cmd_Trace\<close>, \<open>Cmd_Decode\<close>, \<open>Cmd_List\<close>; \<open>main\<close> is in this theory. \<open>Record_Decode\<close> composes \<open>trace\<close> with \<open>decode\<close>,
    \<open>Returns\<close> shows that the commands return.

  \<^bold>\<open>What is shown.\<close>
  \<^item> Across components: what \<open>trace\<close> prints at its end is what \<open>decode\<close> prints for the files it left (\<open>Record_Decode\<close>, and for the
    snapshot of any recording \<open>Cmd_Decode\<close>); the sidecar holds
    the sections of the live state (\<open>Trace_State\<close>); the printed tree and profile are those of the instructions libipt delivered
    (\<open>Decode_Props\<close>); the program releases every descriptor and mapping and reaps its child whatever fails (this theory).
  \<^item> Data structures: the call tree on the heap refines a map from call paths to counters and never touches a dangling pointer;
    tables count exactly what was recorded; the binary search of symbols equals a linear scan; the line search is the nearest row.
  \<^item> Termination and liveness: the decoders return for every libipt that makes progress; the polling loops, the drain after the
    stop and the write loop return under the named conditions, and so does the program for every command line (this theory).
  \<^item> Formats: escaping, record lines, range arguments, options, the JSON status and sizes are read back or bounded.
  \<^item> Errors: where the code does not do what it says, the divergence is a theorem about the model (see the manifest).

  \<^bold>\<open>Parameters.\<close> Code outside the repository is an argument of the definitions: the answers of the kernel, of libelf (\<open>elf_env\<close>), of
  libdwarf, of libipt (\<open>decode_env\<close>: decoders with a state type of their own, sound when every call makes progress), of
  \<open>sysctl\<close>, the clock, the file system of \<open>decode\<close>, \<open>atof\<close>, and for every allocation whether it succeeds. The elapsed time is a
  rational. Undefined behaviour and overflow of an internal buffer are \<open>None\<close>, as is a loop that does not return
  (\<open>partial_function (option)\<close>); there is no fuel, except that the drain after the stop is bounded by the code itself (forty empty polls).

  \<^bold>\<open>Not modelled.\<close> Diagnostics on standard error and usage texts; the signal handler (an interrupt is a parameter of the loop) and
  \<open>SIGPIPE\<close>; freeing of plain strings at the end of commands; buffering of standard output; the inline assembly of
  \<open>bsdtrace_ptwrite.h\<close>, which is for traced programs; the other tools of the repository, which are in Swift and D.
\<close>

section \<open>Samples\<close>

definition no_fs :: decode_fs where
  "no_fs = \<lparr>df_text = (\<lambda>p. None), df_open = (\<lambda>p. False), df_stat = (\<lambda>p. None), df_mmap = (\<lambda>p. None)\<rparr>"

section \<open>The program\<close>

definition BSDTRACE_VERSION :: string where "BSDTRACE_VERSION = ''0.1.0''"

text \<open>
  \<open>main\<close> of the arguments behind the name of the program. \<open>usage\<close> writes to standard error and exits with 1.
\<close>

definition bsdtrace_main ::
  "(bytes \<Rightarrow> ('d, 'p) decode_env) \<Rightarrow> rec_env \<Rightarrow> bool \<Rightarrow> list_env \<Rightarrow> decode_fs \<Rightarrow> string list \<Rightarrow> os \<Rightarrow> cmd_result option" where
  "bsdtrace_main E V exists L fs argv os =
     (case argv of
        [] \<Rightarrow> Some (early 1 os [])
      | cmd # args \<Rightarrow>
          if cmd = ''list'' then Some (cmd_list L args os)
          else if cmd = ''exec'' then cmd_exec E V args os
          else if cmd = ''trace'' then cmd_trace E V exists args os
          else if cmd = ''decode'' then map_option (\<lambda>(rc, out). (early rc os [])\<lparr>cr_out := out\<rparr>) (cmd_decode E fs args)
          else if cmd = ''-v'' \<or> cmd = ''--version''
          then Some ((early 0 os [])\<lparr>cr_out := ''bsdtrace '' @ BSDTRACE_VERSION @ nl\<rparr>)
          else Some (early 1 os []))"

lemma dispatch:
  assumes "(if c1 then Some a1 else if c2 then a2 else if c3 then a3 else if c4 then a4 else if c5 then Some a5 else Some a6) = Some r"
  shows "r = a1 \<or> a2 = Some r \<or> a3 = Some r \<or> a4 = Some r \<or> r = a5 \<or> r = a6"
  using assms by (simp split: if_splits)



text \<open>
  C4. The program returns. If libipt makes progress, \<open>write\<close> is as documented and the driver falls quiet at some point, then every
  command line gives a result: \<open>list\<close> and \<open>decode\<close> always, \<open>exec\<close> when its child ends at some point, \<open>trace\<close> when it is
  interrupted or its target ends. For the commands that decode, the format is not one of the two whose stack buffer can
  overflow; for those that record, JSON lines are in range and buffers have the size that was asked for.
\<close>

theorem bsdtrace_returns:
  assumes "outside_ends E V" "re_fork V = - 1 \<or> 0 < re_fork V"
    and "hd argv = ''exec'' \<Longrightarrow> re_child V N \<noteq> None \<and>
           (\<forall>q cmd. exec_options (re_atof V) (tl argv) = Inr (q, cmd) \<longrightarrow> recording_ok V q (re_fork V))"
    and "hd argv = ''trace'' \<Longrightarrow> (re_interrupted V N \<or> \<not> re_alive V N) \<and>
           (\<forall>q pid. trace_options (re_atof V) (tl argv) = Inr (q, pid) \<longrightarrow> recording_ok V q pid)"
    and "hd argv = ''decode'' \<Longrightarrow> decode_ok fs (tl argv)"
  shows "\<exists>r. bsdtrace_main E V exists L fs argv os = Some r"
proof (cases argv)
  case Nil
  then show ?thesis by (simp add: bsdtrace_main_def)
next
  case (Cons cmd args)
  consider "cmd = ''exec''" | "cmd = ''trace''" | "cmd = ''decode''" | "cmd \<noteq> ''exec''" "cmd \<noteq> ''trace''" "cmd \<noteq> ''decode''" by blast
  then show ?thesis
  proof cases
    case 1
    then have "\<exists>r. cmd_exec E V args os = Some r" using cmd_exec_returns [OF assms(1) _ assms(2), of N args os] assms(3) Cons by auto
    then show ?thesis by (simp add: bsdtrace_main_def Cons 1)
  next
    case 2
    then have "\<exists>r. cmd_trace E V exists args os = Some r" using cmd_trace_returns [OF assms(1), of N args exists os] assms(4) Cons by auto
    then show ?thesis by (simp add: bsdtrace_main_def Cons 2)
  next
    case 3
    then have "\<exists>x. cmd_decode E fs args = Some x"
      using cmd_decode_returns [of E fs args] assms(1,5) Cons by (auto simp: outside_ends_def)
    then show ?thesis by (auto simp: bsdtrace_main_def Cons 3)
  qed (simp add: bsdtrace_main_def Cons)
qed

theorem bsdtrace_returns_witness:
  "\<exists>r. bsdtrace_main (\<lambda>bs. sample_env) sample_rec_env True sample_list_env no_fs (''trace'' # sample_trace_args) os_start = Some r"
proof (rule bsdtrace_returns [where N = 0])
  show "outside_ends (\<lambda>bs. sample_env) sample_rec_env"
    using sample_env_sound yes_kernel_hyps(1) yes_quiet
    by (auto simp: outside_ends_def sample_rec_env_def [THEN arg_cong, of re_drain])
  show "(re_interrupted sample_rec_env 0 \<or> \<not> re_alive sample_rec_env 0) \<and>
      (\<forall>q pid. trace_options (re_atof sample_rec_env) (tl (''trace'' # sample_trace_args)) = Inr (q, pid) \<longrightarrow> recording_ok sample_rec_env q pid)"
    using sample_ready by (simp add: sample_trace_options recording_ok_def offline_ready_def emit_safe_def)
      (simp add: sample_trace_opts_def default_opts_def)
qed simp_all

end
